(* ===== verification/Prelude.thy ===== *)
theory Prelude
  imports Main "HOL-Library.Monad_Syntax" "HOL-Library.AList" "HOL-Library.Multiset"
begin

text \<open>
  What every component of the development shares: the Rust integer types and their checked
  arithmetic, panics, vector indexing, the hash containers of the standard library, and the
  generic lemmas the component proofs rest on.

  \<^item> A Rust call that may panic returns \<open>'a option\<close>, with \<open>None\<close> for the
    panic (\<open>panic!\<close>, \<open>fatal!\<close>, \<open>assert!\<close>, \<open>unwrap\<close> on nothing, an index out of
    range, an arithmetic overflow). The \<open>do\<close> notation of \<open>Monad_Syntax\<close> sequences
    such calls, and a call that cannot panic has a plain type.
  \<^item> A Rust \<open>Result<T>\<close> is \<open>error + 'a\<close> with \<open>Inl\<close> for the error.
  \<^item> \<open>u64\<close> and \<open>usize\<close> (64 bits) are natural numbers; an addition or subtraction of the
    source is \<open>u64_add\<close> or \<open>u64_sub\<close>, which panic outside the range, as Rust does with
    overflow checks on (the dev and test profiles).
  \<^item> A \<open>HashSet\<close> is a list without duplicates and a \<open>HashMap\<close> an association list without
    duplicate keys. The order of the list stands for the iteration order of the container, which
    the language leaves open: a property that depends on it would fail for some list.
\<close>

section \<open>Named collections\<close>

named_theorems panic_simps \<open>equations that evaluate checked operations and their binds\<close>
named_theorems hash_simps \<open>equations of the hash containers\<close>
named_theorems returns_rules \<open>rules for what a call that returns guarantees\<close>

section \<open>Integers and panics\<close>

type_synonym u64 = nat
type_synonym usize = nat
type_synonym i64 = int
type_synonym bytes = "nat list"

abbreviation U64_MAX :: nat where
  "U64_MAX \<equiv> 18446744073709551615"

abbreviation I64_MAX :: int where
  "I64_MAX \<equiv> 9223372036854775807"

definition u64_add :: "u64 \<Rightarrow> u64 \<Rightarrow> u64 option" where
  "u64_add a b = (if a + b \<le> U64_MAX then Some (a + b) else None)"

definition u64_sub :: "u64 \<Rightarrow> u64 \<Rightarrow> u64 option" where
  "u64_sub a b = (if b \<le> a then Some (a - b) else None)"

definition u64_mul :: "u64 \<Rightarrow> u64 \<Rightarrow> u64 option" where
  "u64_mul a b = (if a * b \<le> U64_MAX then Some (a * b) else None)"

definition rust_assert :: "bool \<Rightarrow> unit option" where
  "rust_assert b = (if b then Some () else None)"

text \<open>Indexing and slicing of a vector panic out of range.\<close>

definition vec_get :: "'a list \<Rightarrow> usize \<Rightarrow> 'a option" where
  "vec_get xs i = (if i < length xs then Some (xs ! i) else None)"

definition vec_set :: "'a list \<Rightarrow> usize \<Rightarrow> 'a \<Rightarrow> 'a list option" where
  "vec_set xs i x = (if i < length xs then Some (xs[i := x]) else None)"

definition vec_range :: "'a list \<Rightarrow> usize \<Rightarrow> usize \<Rightarrow> 'a list option" where
  "vec_range xs lo hi =
     (if lo \<le> hi \<and> hi \<le> length xs then Some (take (hi - lo) (drop lo xs)) else None)"

definition vec_from :: "'a list \<Rightarrow> usize \<Rightarrow> 'a list option" where
  "vec_from xs lo = vec_range xs lo (length xs)"

definition vec_first :: "'a list \<Rightarrow> 'a option" where
  "vec_first xs = (case xs of [] \<Rightarrow> None | x # _ \<Rightarrow> Some x)"

definition vec_last :: "'a list \<Rightarrow> 'a option" where
  "vec_last xs = (if xs = [] then None else Some (last xs))"

text \<open>\<open>Iterator::sum\<close> over \<open>usize\<close>: each addition is checked.\<close>

fun sum_from :: "usize \<Rightarrow> usize list \<Rightarrow> usize option" where
  "sum_from acc [] = Some acc"
| "sum_from acc (x # xs) = do { acc' \<leftarrow> u64_add acc x; sum_from acc' xs }"

text \<open>A fold whose body may panic: a \<open>for\<close> loop over an iterator.\<close>

fun fold_panic :: "('a \<Rightarrow> 's \<Rightarrow> 's option) \<Rightarrow> 'a list \<Rightarrow> 's \<Rightarrow> 's option" where
  "fold_panic f [] s = Some s"
| "fold_panic f (x # xs) s = do { s' \<leftarrow> f x s; fold_panic f xs s' }"

section \<open>Hash containers\<close>

type_synonym 'a hset = "'a list"
type_synonym ('k, 'v) hmap = "('k \<times> 'v) list"

definition hset_insert :: "'a \<Rightarrow> 'a hset \<Rightarrow> 'a hset" where
  "hset_insert x s = (if x \<in> set s then s else s @ [x])"

definition hset_remove :: "'a \<Rightarrow> 'a hset \<Rightarrow> 'a hset" where
  "hset_remove x s = filter (\<lambda>y. y \<noteq> x) s"

definition hset_extend :: "'a hset \<Rightarrow> 'a list \<Rightarrow> 'a hset" where
  "hset_extend s xs = fold hset_insert xs s"

definition hset_collect :: "'a list \<Rightarrow> 'a hset" where
  "hset_collect xs = hset_extend [] xs"

definition hmap_contains :: "('k, 'v) hmap \<Rightarrow> 'k \<Rightarrow> bool" where
  "hmap_contains m k \<longleftrightarrow> map_of m k \<noteq> None"

definition hmap_wf :: "('k, 'v) hmap \<Rightarrow> bool" where
  "hmap_wf m \<longleftrightarrow> distinct (map fst m)"

text \<open>A loop over \<open>iter_mut\<close>: every value is replaced, the keys stay.\<close>

definition hmap_map :: "('k \<Rightarrow> 'v \<Rightarrow> 'v) \<Rightarrow> ('k, 'v) hmap \<Rightarrow> ('k, 'v) hmap" where
  "hmap_map f m = map (\<lambda>(k, v). (k, f k v)) m"

section \<open>Lemmas on panics and vectors\<close>

lemma u64_add_Some [simp]: "u64_add a b = Some c \<longleftrightarrow> c = a + b \<and> a + b \<le> U64_MAX"
  by (auto simp: u64_add_def)

lemma u64_sub_Some [simp]: "u64_sub a b = Some c \<longleftrightarrow> c = a - b \<and> b \<le> a"
  by (auto simp: u64_sub_def)

lemma u64_mul_Some [simp]: "u64_mul a b = Some c \<longleftrightarrow> c = a * b \<and> a * b \<le> U64_MAX"
  by (auto simp: u64_mul_def)

lemma u64_add_ok [simp, panic_simps]: "a + b \<le> U64_MAX \<Longrightarrow> u64_add a b = Some (a + b)"
  by (simp add: u64_add_def)

lemma u64_sub_ok [simp, panic_simps]: "b \<le> a \<Longrightarrow> u64_sub a b = Some (a - b)"
  by (simp add: u64_sub_def)

lemma u64_mul_ok [simp, panic_simps]: "a * b \<le> U64_MAX \<Longrightarrow> u64_mul a b = Some (a * b)"
  by (simp add: u64_mul_def)

lemma rust_assert_Some [simp]: "rust_assert b = Some u \<longleftrightarrow> b"
  by (simp add: rust_assert_def)

lemma rust_assert_simps [simp]: "rust_assert True = Some ()" "rust_assert False = None"
  by (simp_all add: rust_assert_def)

lemma vec_get_Some [simp]: "vec_get xs i = Some x \<longleftrightarrow> i < length xs \<and> x = xs ! i"
  by (auto simp: vec_get_def)

lemma vec_get_ok [simp, panic_simps]: "i < length xs \<Longrightarrow> vec_get xs i = Some (xs ! i)"
  by simp

lemma vec_set_Some [simp]: "vec_set xs i v = Some ys \<longleftrightarrow> i < length xs \<and> ys = xs[i := v]"
  by (auto simp: vec_set_def)

lemma vec_set_ok [simp, panic_simps]: "i < length xs \<Longrightarrow> vec_set xs i v = Some (xs[i := v])"
  by simp

lemma vec_range_Some [simp]:
  "vec_range xs lo hi = Some ys \<longleftrightarrow> lo \<le> hi \<and> hi \<le> length xs \<and> ys = take (hi - lo) (drop lo xs)"
  by (auto simp: vec_range_def)

lemma vec_range_ok [simp, panic_simps]:
  "lo \<le> hi \<Longrightarrow> hi \<le> length xs \<Longrightarrow> vec_range xs lo hi = Some (take (hi - lo) (drop lo xs))"
  by simp

lemma vec_from_Some [simp]: "vec_from xs lo = Some ys \<longleftrightarrow> lo \<le> length xs \<and> ys = drop lo xs"
  by (auto simp: vec_from_def)

lemma vec_from_ok [simp, panic_simps]: "lo \<le> length xs \<Longrightarrow> vec_from xs lo = Some (drop lo xs)"
  by simp

lemma vec_first_simps [simp]:
  "vec_first [] = None" "vec_first (x # xs) = Some x" "vec_first xs = None \<longleftrightarrow> xs = []"
  by (auto simp: vec_first_def split: list.splits)

lemma vec_first_Some [simp]: "vec_first xs = Some x \<longleftrightarrow> xs \<noteq> [] \<and> x = hd xs"
  by (cases xs) auto

lemma vec_last_simps [simp]:
  "vec_last [] = None" "vec_last (xs @ [x]) = Some x" "vec_last xs = None \<longleftrightarrow> xs = []"
  by (auto simp: vec_last_def)

lemma vec_last_Some [simp]: "vec_last xs = Some x \<longleftrightarrow> xs \<noteq> [] \<and> x = last xs"
  by (auto simp: vec_last_def)

lemma sum_from_Some: "sum_from acc xs = Some s \<Longrightarrow> s = acc + sum_list xs"
proof (induction xs arbitrary: acc)
  case (Cons x xs)
  then have "sum_from (acc + x) xs = Some s" by (auto simp: bind_eq_Some_conv)
  then have "s = (acc + x) + sum_list xs" by (rule Cons.IH)
  then show ?case by simp
qed simp

lemma sum_from_ok: "acc + sum_list xs \<le> U64_MAX \<Longrightarrow> sum_from acc xs = Some (acc + sum_list xs)"
  by (induction xs arbitrary: acc) (simp_all add: u64_add_ok add.assoc)

text \<open>A loop invariant: kept by every iteration that returns, it holds at the end.\<close>

lemma fold_panic_inv:
  assumes "fold_panic f xs s = Some s'" and "P s"
    and "\<And>x s s'. x \<in> set xs \<Longrightarrow> P s \<Longrightarrow> f x s = Some s' \<Longrightarrow> P s'"
  shows "P s'"
  using assms
proof (induction xs arbitrary: s)
  case Nil
  then show ?case by simp
next
  case (Cons x xs)
  from Cons.prems(1) obtain t where t: "f x s = Some t" and rest: "fold_panic f xs t = Some s'"
    by (auto simp: bind_eq_Some_conv)
  from Cons.prems(2,3) t have "P t" by auto
  with rest show ?case by (rule Cons.IH) (use Cons.prems(3) in auto)
qed

text \<open>A loop whose body never panics on states that satisfy the invariant does not panic.\<close>

lemma fold_panic_total:
  assumes "P s"
    and "\<And>x s. x \<in> set xs \<Longrightarrow> P s \<Longrightarrow> \<exists>s'. f x s = Some s' \<and> P s'"
  shows "\<exists>s'. fold_panic f xs s = Some s' \<and> P s'"
  using assms
proof (induction xs arbitrary: s)
  case Nil
  then show ?case by simp
next
  case (Cons x xs)
  from Cons.prems(1) Cons.prems(2) [of x s] obtain t where t: "f x s = Some t" "P t" by auto
  with Cons.IH [of t] Cons.prems(2) show ?case by auto
qed

lemma fold_panic_append:
  "fold_panic f (xs @ ys) s = Option.bind (fold_panic f xs s) (fold_panic f ys)"
  by (induction xs arbitrary: s) (auto split: Option.bind_splits)

lemma fold_panic_pure: "fold_panic (\<lambda>x s. Some (g x s)) xs s = Some (fold g xs s)"
  by (induction xs arbitrary: s) auto

section \<open>What a call guarantees when it returns\<close>

text \<open>
  \<open>returns m P\<close>: if the call \<open>m\<close> does not panic, its result satisfies \<open>P\<close>. The rules follow the
  structure of a \<open>do\<close> block, so that a property every step keeps is proved step by step.
\<close>

definition returns :: "'a option \<Rightarrow> ('a \<Rightarrow> bool) \<Rightarrow> bool" where
  "returns m P \<longleftrightarrow> (\<forall>x. m = Some x \<longrightarrow> P x)"

lemma returnsD: "returns m P \<Longrightarrow> m = Some x \<Longrightarrow> P x"
  by (simp add: returns_def)

lemma returnsI: "(\<And>x. m = Some x \<Longrightarrow> P x) \<Longrightarrow> returns m P"
  by (simp add: returns_def)

lemma returns_mono: "returns m Q \<Longrightarrow> (\<And>x. Q x \<Longrightarrow> P x) \<Longrightarrow> returns m P"
  by (auto simp: returns_def)

lemma returns_conj: "returns m P \<Longrightarrow> returns m Q \<Longrightarrow> returns m (\<lambda>x. P x \<and> Q x)"
  by (auto simp: returns_def)

lemma returns_Some [returns_rules]: "P x \<Longrightarrow> returns (Some x) P"
  by (simp add: returns_def)

lemma returns_None [returns_rules, simp]: "returns None P"
  by (simp add: returns_def)

lemma returns_Some_iff [simp]: "returns (Some x) P \<longleftrightarrow> P x"
  by (simp add: returns_def)

lemma returns_bind [returns_rules]: "returns m (\<lambda>x. returns (f x) P) \<Longrightarrow> returns (m \<bind> f) P"
  by (auto simp: returns_def bind_eq_Some_conv)

lemma returns_bindI: "returns m Q \<Longrightarrow> (\<And>x. Q x \<Longrightarrow> returns (f x) P) \<Longrightarrow> returns (m \<bind> f) P"
  by (auto simp: returns_def bind_eq_Some_conv)

lemma returns_if [returns_rules]:
  "(b \<Longrightarrow> returns m P) \<Longrightarrow> (\<not> b \<Longrightarrow> returns n P) \<Longrightarrow> returns (if b then m else n) P"
  by simp

lemma returns_let [returns_rules]: "returns (f x) P \<Longrightarrow> returns (let y = x in f y) P"
  by simp

lemma returns_case_prod [returns_rules]:
  "(\<And>a b. p = (a, b) \<Longrightarrow> returns (f a b) P) \<Longrightarrow> returns (case p of (a, b) \<Rightarrow> f a b) P"
  by (cases p) simp

lemma returns_case_option [returns_rules]:
  "(x = None \<Longrightarrow> returns m P) \<Longrightarrow> (\<And>y. x = Some y \<Longrightarrow> returns (f y) P) \<Longrightarrow>
     returns (case x of None \<Rightarrow> m | Some y \<Rightarrow> f y) P"
  by (cases x) simp_all

lemma returns_case_sum [returns_rules]:
  "(\<And>y. x = Inl y \<Longrightarrow> returns (f y) P) \<Longrightarrow> (\<And>y. x = Inr y \<Longrightarrow> returns (g y) P) \<Longrightarrow>
     returns (case x of Inl y \<Rightarrow> f y | Inr y \<Rightarrow> g y) P"
  by (cases x) simp_all

lemma returns_case_list [returns_rules]:
  "(x = [] \<Longrightarrow> returns m P) \<Longrightarrow> (\<And>y ys. x = y # ys \<Longrightarrow> returns (f y ys) P) \<Longrightarrow>
     returns (case x of [] \<Rightarrow> m | y # ys \<Rightarrow> f y ys) P"
  by (cases x) simp_all

lemma returns_case_bool [returns_rules]:
  "(x \<Longrightarrow> returns m P) \<Longrightarrow> (\<not> x \<Longrightarrow> returns n P) \<Longrightarrow> returns (case x of True \<Rightarrow> m | False \<Rightarrow> n) P"
  by (cases x) simp_all

lemma returns_arith [returns_rules]:
  "(a + b \<le> U64_MAX \<Longrightarrow> Q (a + b)) \<Longrightarrow> returns (u64_add a b) Q"
  "(b \<le> a \<Longrightarrow> Q (a - b)) \<Longrightarrow> returns (u64_sub a b) Q"
  "(a * b \<le> U64_MAX \<Longrightarrow> Q (a * b)) \<Longrightarrow> returns (u64_mul a b) Q"
  by (simp_all add: returns_def)

lemma returns_assert [returns_rules]: "(b \<Longrightarrow> P ()) \<Longrightarrow> returns (rust_assert b) P"
  by (simp add: returns_def)

lemma returns_fold:
  assumes "P s" and "\<And>x s. x \<in> set xs \<Longrightarrow> P s \<Longrightarrow> returns (f x s) P"
  shows "returns (fold_panic f xs s) P"
  using fold_panic_inv [of f xs s _ P] assms by (auto simp: returns_def)

section \<open>Lemmas on hash containers\<close>

lemma set_hset_insert [simp, hash_simps]: "set (hset_insert x s) = insert x (set s)"
  by (auto simp: hset_insert_def)

lemma distinct_hset_insert [simp, intro]: "distinct s \<Longrightarrow> distinct (hset_insert x s)"
  by (simp add: hset_insert_def)

lemma set_hset_remove [simp, hash_simps]: "set (hset_remove x s) = set s - {x}"
  by (auto simp: hset_remove_def)

lemma distinct_hset_remove [simp, intro]: "distinct s \<Longrightarrow> distinct (hset_remove x s)"
  by (simp add: hset_remove_def)

lemma set_hset_extend [simp, hash_simps]: "set (hset_extend s xs) = set s \<union> set xs"
  unfolding hset_extend_def by (induction xs arbitrary: s) auto

lemma distinct_hset_extend [simp, intro]: "distinct s \<Longrightarrow> distinct (hset_extend s xs)"
  unfolding hset_extend_def by (induction xs arbitrary: s) auto

lemma set_hset_collect [simp, hash_simps]: "set (hset_collect xs) = set xs"
  by (simp add: hset_collect_def)

lemma distinct_hset_collect [simp, intro]: "distinct (hset_collect xs)"
  by (simp add: hset_collect_def)

lemma hmap_contains_iff [hash_simps]: "hmap_contains m k \<longleftrightarrow> k \<in> fst ` set m"
  by (simp add: hmap_contains_def map_of_eq_None_iff)

lemma hmap_wf_empty [simp]: "hmap_wf []"
  by (simp add: hmap_wf_def)

lemma hmap_wf_update [simp, intro]: "hmap_wf m \<Longrightarrow> hmap_wf (AList.update k v m)"
  by (simp add: hmap_wf_def distinct_update)

lemma hmap_wf_delete [simp, intro]: "hmap_wf m \<Longrightarrow> hmap_wf (AList.delete k m)"
  by (simp add: hmap_wf_def distinct_delete)

lemma hmap_wf_map [simp]: "hmap_wf (hmap_map f m) \<longleftrightarrow> hmap_wf m"
proof -
  have "map fst (hmap_map f m) = map fst m"
    by (simp add: hmap_map_def split_def)
  then show ?thesis by (simp add: hmap_wf_def)
qed

lemma hmap_get_map [simp, hash_simps]: "map_of (hmap_map f m) k = map_option (f k) (map_of m k)"
  by (induction m) (auto simp: hmap_map_def)

lemma hmap_keys_map [simp]: "fst ` set (hmap_map f m) = fst ` set m"
  by (force simp: hmap_map_def image_iff)

lemma hmap_get_in: "hmap_wf m \<Longrightarrow> (k, v) \<in> set m \<Longrightarrow> map_of m k = Some v"
  by (simp add: hmap_wf_def)

lemma hmap_get_update [simp, hash_simps]: "map_of (AList.update k v m) = (map_of m)(k \<mapsto> v)"
  by (rule update_conv')

lemma hmap_get_delete [simp, hash_simps]: "map_of (AList.delete k m) = (map_of m)(k := None)"
  by (rule delete_conv')

section \<open>Lemmas on lists and numbers\<close>

lemma eq_by_lower: "(\<And>k. k \<le> a \<longleftrightarrow> k \<le> b) \<Longrightarrow> a = (b :: 'a :: order)"
  by (meson order_antisym order_refl)

lemma mod_once: "x < 2 * c \<Longrightarrow> x mod c = (if c \<le> x then x - c else x)" for x c :: nat
  by (simp add: le_mod_geq)

lemma length_filter_le_of_subset:
  "distinct xs \<Longrightarrow> length (filter P xs) = card {x \<in> set xs. P x}"
  by (metis distinct_card distinct_filter set_filter)

lemma sum_list_filter_split:
  fixes f :: "'a \<Rightarrow> nat"
  shows "sum_list (map f xs) = sum_list (map f (take n xs)) + sum_list (map f (drop n xs))"
  by (metis append_take_drop_id map_append sum_list_append)

end
