(* ===== verification/Proto.thy ===== *)
theory Proto
  imports Prelude
begin

text \<open>
  The messages of \<open>proto/proto/eraftpb.proto\<close> as records with one field per message field and
  their protobuf defaults, the errors of \<open>src/errors.rs\<close>, and the hand-written part of the
  \<open>raft-proto\<close> crate: \<open>proto/src/confchange.rs\<close> (building, parsing and printing of membership
  changes, and when a change uses joint consensus) and \<open>proto/src/confstate.rs\<close>.

  Strings are ASCII. The encoding of messages is generated code and is a parameter of the
  components that use it.
\<close>

section \<open>Messages\<close>

datatype entry_type = EntryNormal | EntryConfChange | EntryConfChangeV2

record entry =
  e_type :: entry_type
  e_term :: u64
  e_index :: u64
  e_data :: bytes
  e_context :: bytes
  e_sync_log :: bool

definition default_entry :: entry where
  "default_entry =
     \<lparr>e_type = EntryNormal, e_term = 0, e_index = 0, e_data = [], e_context = [], e_sync_log = False\<rparr>"

record conf_state =
  cs_voters :: "u64 list"
  cs_learners :: "u64 list"
  cs_voters_outgoing :: "u64 list"
  cs_learners_next :: "u64 list"
  cs_auto_leave :: bool

definition default_conf_state :: conf_state where
  "default_conf_state =
     \<lparr>cs_voters = [], cs_learners = [], cs_voters_outgoing = [], cs_learners_next = [],
      cs_auto_leave = False\<rparr>"

record snapshot_metadata =
  sm_conf_state :: conf_state
  sm_index :: u64
  sm_term :: u64

definition default_snapshot_metadata :: snapshot_metadata where
  "default_snapshot_metadata =
     \<lparr>sm_conf_state = default_conf_state, sm_index = 0, sm_term = 0\<rparr>"

record snapshot =
  sn_data :: bytes
  sn_metadata :: snapshot_metadata

definition default_snapshot :: snapshot where
  "default_snapshot = \<lparr>sn_data = [], sn_metadata = default_snapshot_metadata\<rparr>"

abbreviation snap_index :: "snapshot \<Rightarrow> u64" where
  "snap_index s \<equiv> sm_index (sn_metadata s)"

abbreviation snap_term :: "snapshot \<Rightarrow> u64" where
  "snap_term s \<equiv> sm_term (sn_metadata s)"

definition snapshot_is_empty :: "snapshot \<Rightarrow> bool" where
  "snapshot_is_empty s \<longleftrightarrow> snap_index s = 0"

datatype message_type =
    MsgHup | MsgBeat | MsgPropose | MsgAppend | MsgAppendResponse
  | MsgRequestVote | MsgRequestVoteResponse | MsgSnapshot | MsgHeartbeat | MsgHeartbeatResponse
  | MsgUnreachable | MsgSnapStatus | MsgCheckQuorum | MsgTransferLeader | MsgTimeoutNow
  | MsgReadIndex | MsgReadIndexResp | MsgRequestPreVote | MsgRequestPreVoteResponse

record message =
  m_type :: message_type
  m_to :: u64
  m_from :: u64
  m_term :: u64
  m_log_term :: u64
  m_index :: u64
  m_entries :: "entry list"
  m_commit :: u64
  m_commit_term :: u64
  m_snapshot :: snapshot
  m_request_snapshot :: u64
  m_reject :: bool
  m_reject_hint :: u64
  m_context :: bytes
  m_deprecated_priority :: u64
  m_priority :: i64

definition default_message :: message where
  "default_message =
     \<lparr>m_type = MsgHup, m_to = 0, m_from = 0, m_term = 0, m_log_term = 0, m_index = 0,
      m_entries = [], m_commit = 0, m_commit_term = 0, m_snapshot = default_snapshot,
      m_request_snapshot = 0, m_reject = False, m_reject_hint = 0, m_context = [],
      m_deprecated_priority = 0, m_priority = 0\<rparr>"

record hard_state =
  hs_term :: u64
  hs_vote :: u64
  hs_commit :: u64

definition default_hard_state :: hard_state where
  "default_hard_state = \<lparr>hs_term = 0, hs_vote = 0, hs_commit = 0\<rparr>"

datatype conf_change_transition = Auto | Implicit | Explicit

datatype conf_change_type = AddNode | RemoveNode | AddLearnerNode

record conf_change =
  cc_change_type :: conf_change_type
  cc_node_id :: u64
  cc_context :: bytes
  cc_id :: u64

record conf_change_single =
  ccs_change_type :: conf_change_type
  ccs_node_id :: u64

record conf_change_v2 =
  cc2_transition :: conf_change_transition
  cc2_changes :: "conf_change_single list"
  cc2_context :: bytes

section \<open>Errors\<close>

datatype storage_error =
    Compacted
  | Unavailable
  | LogTemporarilyUnavailable
  | SnapshotOutOfDate
  | SnapshotTemporarilyUnavailable
  | Other string

text \<open>An \<open>std::io::Error\<close> has a kind, which equality compares, and a message.\<close>

datatype raft_error =
    Io string string
  | Store storage_error
  | StepLocalMsg
  | StepPeerNotFound
  | ProposalDropped
  | ConfigInvalid string
  | CodecError string
  | Exists u64 string
  | NotExists u64 string
  | ConfChangeError string
  | RequestSnapshotDropped

type_synonym 'a result = "raft_error + 'a"

definition storage_error_eq :: "storage_error \<Rightarrow> storage_error \<Rightarrow> bool" where
  "storage_error_eq a b =
     (case a of
        Compacted \<Rightarrow> b = Compacted
      | Unavailable \<Rightarrow> b = Unavailable
      | LogTemporarilyUnavailable \<Rightarrow> b = LogTemporarilyUnavailable
      | SnapshotOutOfDate \<Rightarrow> b = SnapshotOutOfDate
      | SnapshotTemporarilyUnavailable \<Rightarrow> b = SnapshotTemporarilyUnavailable
      | Other _ \<Rightarrow> False)"

text \<open>The hand-written \<open>PartialEq\<close>: not reflexive on the variants that fall to its last arm.\<close>

definition raft_error_eq :: "raft_error \<Rightarrow> raft_error \<Rightarrow> bool" where
  "raft_error_eq a b =
     (case a of
        StepPeerNotFound \<Rightarrow> b = StepPeerNotFound
      | ProposalDropped \<Rightarrow> b = ProposalDropped
      | Store e1 \<Rightarrow> (case b of Store e2 \<Rightarrow> storage_error_eq e1 e2 | _ \<Rightarrow> False)
      | Io k1 _ \<Rightarrow> (case b of Io k2 _ \<Rightarrow> k1 = k2 | _ \<Rightarrow> False)
      | StepLocalMsg \<Rightarrow> b = StepLocalMsg
      | ConfigInvalid e1 \<Rightarrow> b = ConfigInvalid e1
      | RequestSnapshotDropped \<Rightarrow> b = RequestSnapshotDropped
      | ConfChangeError e1 \<Rightarrow> b = ConfChangeError e1
      | _ \<Rightarrow> False)"

section \<open>Decimal numbers\<close>

definition digit_char :: "nat \<Rightarrow> char" where
  "digit_char d = char_of (48 + d)"

text \<open>\<open>Display\<close> of an unsigned integer.\<close>

fun show_u64 :: "u64 \<Rightarrow> string" where
  "show_u64 n = (if n < 10 then [digit_char n] else show_u64 (n div 10) @ [digit_char (n mod 10)])"

declare show_u64.simps [simp del]

definition char_digit :: "char \<Rightarrow> nat option" where
  "char_digit c =
     (let n = (of_char c :: nat) in if 48 \<le> n \<and> n \<le> 57 then Some (n - 48) else None)"

text \<open>\<open>u64::from_str\<close>: an optional plus sign, then digits, with the overflow checked.\<close>

fun parse_digits :: "nat \<Rightarrow> string \<Rightarrow> string + u64" where
  "parse_digits acc [] = Inr acc"
| "parse_digits acc (c # cs) =
     (case char_digit c of
        None \<Rightarrow> Inl ''invalid digit found in string''
      | Some d \<Rightarrow>
          if acc * 10 \<le> U64_MAX \<and> acc * 10 + d \<le> U64_MAX then parse_digits (acc * 10 + d) cs
          else Inl ''number too large to fit in target type'')"

definition parse_u64 :: "string \<Rightarrow> string + u64" where
  "parse_u64 s =
     (case s of
        [] \<Rightarrow> Inl ''cannot parse integer from empty string''
      | c # cs \<Rightarrow>
          if cs = [] \<and> (c = CHR ''+'' \<or> c = CHR ''-'') then Inl ''invalid digit found in string''
          else if c = CHR ''+'' then parse_digits 0 cs
          else parse_digits 0 s)"

section \<open>Membership changes: proto/src/confchange.rs\<close>

definition new_conf_change_single :: "u64 \<Rightarrow> conf_change_type \<Rightarrow> conf_change_single" where
  "new_conf_change_single node_id ty = \<lparr>ccs_change_type = ty, ccs_node_id = node_id\<rparr>"

definition is_ascii_ws :: "char \<Rightarrow> bool" where
  "is_ascii_ws c \<longleftrightarrow> (of_char c :: nat) \<in> {9, 10, 12, 13, 32}"

text \<open>White space for \<open>str::trim\<close>, which also strips the vertical tab.\<close>

definition is_ws :: "char \<Rightarrow> bool" where
  "is_ws c \<longleftrightarrow> is_ascii_ws c \<or> (of_char c :: nat) = 11"

definition trim :: "string \<Rightarrow> string" where
  "trim s = rev (dropWhile is_ws (rev (dropWhile is_ws s)))"

text \<open>\<open>split_ascii_whitespace\<close>: the maximal runs of characters that are not white space.\<close>

function split_ascii_whitespace :: "string \<Rightarrow> string list" where
  "split_ascii_whitespace s =
     (case dropWhile is_ascii_ws s of
        [] \<Rightarrow> []
      | c # cs \<Rightarrow>
          (c # takeWhile (\<lambda>x. \<not> is_ascii_ws x) cs)
          # split_ascii_whitespace (dropWhile (\<lambda>x. \<not> is_ascii_ws x) cs))"
  by pat_completeness auto
termination
proof (relation "measure length")
  fix s c and cs :: string
  assume "dropWhile is_ascii_ws s = c # cs"
  then have "Suc (length cs) \<le> length s"
    by (metis length_Cons length_dropWhile_le)
  moreover have "length (dropWhile (\<lambda>x. \<not> is_ascii_ws x) cs) \<le> length cs"
    by (rule length_dropWhile_le)
  ultimately show "(dropWhile (\<lambda>x. \<not> is_ascii_ws x) cs, s) \<in> measure length"
    by simp
qed simp

declare split_ascii_whitespace.simps [simp del]

definition parse_token :: "string \<Rightarrow> string + conf_change_single" where
  "parse_token tok =
     (if length tok < 2 then Inl (''unknown token '' @ tok)
      else
        (case (case hd tok of
                 CHR ''v'' \<Rightarrow> Some AddNode
               | CHR ''l'' \<Rightarrow> Some AddLearnerNode
               | CHR ''r'' \<Rightarrow> Some RemoveNode
               | _ \<Rightarrow> None) of
           None \<Rightarrow> Inl (''unknown token '' @ tok)
         | Some ty \<Rightarrow>
             (case parse_u64 (tl tok) of
                Inl e \<Rightarrow> Inl (''parse token '' @ tok @ '' fail: '' @ e)
              | Inr n \<Rightarrow> Inr (new_conf_change_single n ty))))"

fun parse_tokens :: "string list \<Rightarrow> string + conf_change_single list" where
  "parse_tokens [] = Inr []"
| "parse_tokens (tok # toks) =
     (case parse_token tok of
        Inl e \<Rightarrow> Inl e
      | Inr cc \<Rightarrow> (case parse_tokens toks of Inl e \<Rightarrow> Inl e | Inr ccs \<Rightarrow> Inr (cc # ccs)))"

definition parse_conf_change :: "string \<Rightarrow> string + conf_change_single list" where
  "parse_conf_change s0 =
     (let s = trim s0 in
      if s = [] then Inr [] else parse_tokens (split_ascii_whitespace s))"

definition stringify_single :: "conf_change_single \<Rightarrow> string" where
  "stringify_single cc =
     (case ccs_change_type cc of
        AddNode \<Rightarrow> CHR ''v'' | AddLearnerNode \<Rightarrow> CHR ''l'' | RemoveNode \<Rightarrow> CHR ''r'')
     # show_u64 (ccs_node_id cc)"

fun stringify_from :: "nat \<Rightarrow> conf_change_single list \<Rightarrow> string" where
  "stringify_from i [] = ''''"
| "stringify_from i (cc # ccs) =
     (if i > 0 then '' '' else '''') @ stringify_single cc @ stringify_from (Suc i) ccs"

definition stringify_conf_change :: "conf_change_single list \<Rightarrow> string" where
  "stringify_conf_change ccs = stringify_from 0 ccs"

definition conf_change_into_v2 :: "conf_change \<Rightarrow> conf_change_v2" where
  "conf_change_into_v2 cc =
     \<lparr>cc2_transition = Auto,
      cc2_changes = [new_conf_change_single (cc_node_id cc) (cc_change_type cc)],
      cc2_context = cc_context cc\<rparr>"

definition cc2_enter_joint :: "conf_change_v2 \<Rightarrow> bool option" where
  "cc2_enter_joint cc =
     (if cc2_transition cc \<noteq> Auto \<or> length (cc2_changes cc) > 1 then
        (case cc2_transition cc of
           Auto \<Rightarrow> Some True
         | Implicit \<Rightarrow> Some True
         | Explicit \<Rightarrow> Some False)
      else None)"

definition cc2_leave_joint :: "conf_change_v2 \<Rightarrow> bool" where
  "cc2_leave_joint cc \<longleftrightarrow> cc2_transition cc = Auto \<and> cc2_changes cc = []"

section \<open>Configuration states: proto/src/confstate.rs\<close>

definition eq_without_order :: "u64 list \<Rightarrow> u64 list \<Rightarrow> bool" where
  "eq_without_order lhs rhs \<longleftrightarrow>
     list_all (\<lambda>l. l \<in> set rhs) lhs \<and> list_all (\<lambda>r. r \<in> set lhs) rhs"

definition conf_state_eq :: "conf_state \<Rightarrow> conf_state \<Rightarrow> bool" where
  "conf_state_eq lhs rhs \<longleftrightarrow>
     (if cs_voters lhs = cs_voters rhs
         \<and> cs_learners lhs = cs_learners rhs
         \<and> cs_voters_outgoing lhs = cs_voters_outgoing rhs
         \<and> cs_learners_next lhs = cs_learners_next rhs
         \<and> cs_auto_leave lhs = cs_auto_leave rhs
      then True
      else eq_without_order (cs_voters lhs) (cs_voters rhs)
         \<and> eq_without_order (cs_learners lhs) (cs_learners rhs)
         \<and> eq_without_order (cs_voters_outgoing lhs) (cs_voters_outgoing rhs)
         \<and> eq_without_order (cs_learners_next lhs) (cs_learners_next rhs)
         \<and> cs_auto_leave lhs = cs_auto_leave rhs)"

section \<open>Lemmas on parsing and printing\<close>

lemma of_char_digit_char: "d < 10 \<Longrightarrow> (of_char (digit_char d) :: nat) = 48 + d"
  by (simp add: digit_char_def)

lemma char_digit_digit_char [simp]: "d < 10 \<Longrightarrow> char_digit (digit_char d) = Some d"
  by (simp add: char_digit_def of_char_digit_char)

lemma digit_char_not_ws [simp]: "d < 10 \<Longrightarrow> \<not> is_ascii_ws (digit_char d)"
  "d < 10 \<Longrightarrow> \<not> is_ws (digit_char d)"
  by (auto simp: is_ascii_ws_def is_ws_def of_char_digit_char)

lemma parse_digits_append:
  "parse_digits acc (xs @ ys) =
     (case parse_digits acc xs of Inl e \<Rightarrow> Inl e | Inr v \<Rightarrow> parse_digits v ys)"
  by (induction xs arbitrary: acc) (auto split: option.splits)

lemma parse_digits_show: "n \<le> U64_MAX \<Longrightarrow> parse_digits 0 (show_u64 n) = Inr n"
proof (induction n rule: show_u64.induct)
  case (1 n)
  show ?case
  proof (cases "n < 10")
    case True
    then show ?thesis by (simp add: show_u64.simps [of n])
  next
    case False
    with 1 have "parse_digits 0 (show_u64 (n div 10)) = Inr (n div 10)" by simp
    with False 1(2) show ?thesis
      by (simp add: show_u64.simps [of n] parse_digits_append)
  qed
qed

lemma show_u64_digits: "c \<in> set (show_u64 n) \<Longrightarrow> \<exists>d < 10. c = digit_char d"
proof (induction n rule: show_u64.induct)
  case (1 n)
  then show ?case
    by (cases "n < 10") (auto simp: show_u64.simps [of n] intro: exI [of _ "n mod 10"])
qed

lemma show_u64_nonempty [simp]: "show_u64 n \<noteq> []"
  by (simp add: show_u64.simps)

lemma parse_u64_show: "n \<le> U64_MAX \<Longrightarrow> parse_u64 (show_u64 n) = Inr n"
proof -
  assume n: "n \<le> U64_MAX"
  obtain c cs where s: "show_u64 n = c # cs" by (cases "show_u64 n") auto
  then obtain d where d: "d < 10" "c = digit_char d" using show_u64_digits [of c n] by auto
  then have "(of_char c :: nat) = 48 + d" by (simp add: of_char_digit_char)
  then have "c \<noteq> CHR ''+''" "c \<noteq> CHR ''-''" by auto
  with parse_digits_show [OF n] s show ?thesis by (simp add: parse_u64_def)
qed

lemma stringify_single_no_ws: "c \<in> set (stringify_single cc) \<Longrightarrow> \<not> is_ws c"
  by (auto simp: stringify_single_def is_ws_def is_ascii_ws_def of_char_digit_char
      split: conf_change_type.splits dest!: show_u64_digits)

lemma stringify_single_no_ascii_ws: "c \<in> set (stringify_single cc) \<Longrightarrow> \<not> is_ascii_ws c"
  using stringify_single_no_ws by (auto simp: is_ws_def)

lemma stringify_single_nonempty [simp]: "stringify_single cc \<noteq> []"
  by (simp add: stringify_single_def)

lemma split_token:
  assumes "t \<noteq> []" and "\<forall>c \<in> set t. \<not> is_ascii_ws c" and "s = [] \<or> is_ascii_ws (hd s)"
  shows "split_ascii_whitespace (t @ s) = t # split_ascii_whitespace s"
proof -
  obtain c cs where t: "t = c # cs" using assms(1) by (cases t) auto
  have "takeWhile (\<lambda>x. \<not> is_ascii_ws x) (cs @ s) = cs"
    using assms(2,3) t by (cases s) (auto simp: takeWhile_tail)
  moreover have "dropWhile (\<lambda>x. \<not> is_ascii_ws x) (cs @ s) = s"
    using assms(2,3) t by (cases s) (auto simp: dropWhile_append)
  ultimately show ?thesis
    using assms(2) t by (simp add: split_ascii_whitespace.simps [of "c # cs @ s"])
qed

lemma split_ws_Cons [simp]: "is_ascii_ws c \<Longrightarrow> split_ascii_whitespace (c # s) = split_ascii_whitespace s"
  by (simp add: split_ascii_whitespace.simps [of "c # s"] split_ascii_whitespace.simps [of s])

lemma split_stringify_from:
  "split_ascii_whitespace (stringify_from i ccs) = map stringify_single ccs"
proof (induction ccs arbitrary: i)
  case Nil
  then show ?case by (simp add: split_ascii_whitespace.simps)
next
  case (Cons cc ccs)
  have sp: "is_ascii_ws CHR '' ''" by (simp add: is_ascii_ws_def)
  have "stringify_from (Suc i) ccs = [] \<or> is_ascii_ws (hd (stringify_from (Suc i) ccs))"
    by (cases ccs) (simp_all add: sp)
  then have "split_ascii_whitespace (stringify_single cc @ stringify_from (Suc i) ccs) =
      stringify_single cc # split_ascii_whitespace (stringify_from (Suc i) ccs)"
    by (intro split_token) (auto simp: stringify_single_no_ascii_ws)
  with Cons.IH [of "Suc i"] show ?case by (cases "i = 0") (simp_all add: sp)
qed

lemma parse_token_stringify:
  "ccs_node_id cc \<le> U64_MAX \<Longrightarrow> parse_token (stringify_single cc) = Inr cc"
  by (cases "show_u64 (ccs_node_id cc)"; cases "ccs_change_type cc")
     (auto simp: parse_token_def stringify_single_def parse_u64_show new_conf_change_single_def
           dest!: sym [of "show_u64 _"])

lemma parse_tokens_stringify:
  "\<forall>cc \<in> set ccs. ccs_node_id cc \<le> U64_MAX \<Longrightarrow>
     parse_tokens (map stringify_single ccs) = Inr ccs"
  by (induction ccs) (simp_all add: parse_token_stringify)

lemma stringify_from_last_not_ws:
  "ccs \<noteq> [] \<Longrightarrow> stringify_from i ccs \<noteq> [] \<and> \<not> is_ws (last (stringify_from i ccs))"
proof (induction ccs arbitrary: i)
  case (Cons cc ccs)
  have "last (stringify_single cc) \<in> set (stringify_single cc)" by simp
  then have "\<not> is_ws (last (stringify_single cc))" by (rule stringify_single_no_ws)
  with Cons.IH [of "Suc i"] show ?case
    by (cases ccs) (auto simp: last_append)
qed simp

lemma trim_id: "s \<noteq> [] \<Longrightarrow> \<not> is_ws (hd s) \<Longrightarrow> \<not> is_ws (last s) \<Longrightarrow> trim s = s"
proof -
  assume a: "s \<noteq> []" "\<not> is_ws (hd s)" "\<not> is_ws (last s)"
  then have "dropWhile is_ws s = s" by (cases s) auto
  moreover from a have "dropWhile is_ws (rev s) = rev s"
    by (cases s rule: rev_cases) auto
  ultimately show ?thesis by (simp add: trim_def)
qed

lemma eq_without_order_iff: "eq_without_order xs ys \<longleftrightarrow> set xs = set ys"
  by (auto simp: eq_without_order_def list_all_iff)


section \<open>Properties\<close>

text \<open>
  (C33) Printing a list of membership changes and parsing the text back gives the same list.
\<close>

theorem parse_stringify_conf_change:
  assumes "\<forall>cc \<in> set ccs. ccs_node_id cc \<le> U64_MAX"
  shows "parse_conf_change (stringify_conf_change ccs) = Inr ccs"
proof (cases ccs)
  case Nil
  then show ?thesis by (simp add: parse_conf_change_def stringify_conf_change_def trim_def)
next
  case (Cons cc rest)
  let ?s = "stringify_from 0 ccs"
  have ne: "?s \<noteq> []" "\<not> is_ws (last ?s)" using stringify_from_last_not_ws [of ccs 0] Cons by simp_all
  have "hd ?s \<in> set (stringify_single cc)" using Cons by simp
  then have "\<not> is_ws (hd ?s)" by (rule stringify_single_no_ws)
  with ne have "trim ?s = ?s" by (intro trim_id)
  with ne show ?thesis
    by (simp add: parse_conf_change_def stringify_conf_change_def split_stringify_from
        parse_tokens_stringify [OF assms])
qed

lemma parse_stringify_conf_change_witness:
  "parse_conf_change (stringify_conf_change
      [new_conf_change_single 1 AddNode, new_conf_change_single 20 RemoveNode])
   = Inr [new_conf_change_single 1 AddNode, new_conf_change_single 20 RemoveNode]"
  by (rule parse_stringify_conf_change) (simp add: new_conf_change_single_def)

end
