(* ===== verification/Util.thy ===== *)
theory Util
  imports Proto
begin

text \<open>
  \<open>src/util.rs\<close>: the byte budget of a batch of entries, continuity of entries with a message,
  the majority of a number of nodes, the union view of two hash sets and the approximate size of
  an entry. The encoded size of an entry (\<open>compute_size\<close>, generated code) is a parameter.
\<close>

section \<open>Definitions\<close>

definition NO_LIMIT :: u64 where
  "NO_LIMIT = U64_MAX"

text \<open>The \<open>take_while\<close> of \<open>limit_size\<close> with its running size, counting what it takes.\<close>

fun limit_count :: "('a \<Rightarrow> u64) \<Rightarrow> u64 \<Rightarrow> u64 \<Rightarrow> 'a list \<Rightarrow> usize option" where
  "limit_count csize limit sz [] = Some 0"
| "limit_count csize limit sz (e # es) =
     do {
       sz' \<leftarrow> u64_add sz (csize e);
       if sz = 0 \<or> sz' \<le> limit
       then do { n \<leftarrow> limit_count csize limit sz' es; Some (Suc n) }
       else Some 0
     }"

definition limit_size :: "('a \<Rightarrow> u64) \<Rightarrow> 'a list \<Rightarrow> u64 option \<Rightarrow> 'a list option" where
  "limit_size csize entries limit =
     (if length entries \<le> 1 then Some entries
      else
        (case limit of
           None \<Rightarrow> Some entries
         | Some l \<Rightarrow>
             if l = NO_LIMIT then Some entries
             else do { n \<leftarrow> limit_count csize l 0 entries; Some (take n entries) }))"

definition is_continuous_ents :: "message \<Rightarrow> entry list \<Rightarrow> bool option" where
  "is_continuous_ents msg ents =
     (if m_entries msg \<noteq> [] \<and> ents \<noteq> [] then
        do {
          expected_next_idx \<leftarrow> u64_add (e_index (last (m_entries msg))) 1;
          Some (expected_next_idx = e_index (hd ents))
        }
      else Some True)"

definition majority :: "usize \<Rightarrow> usize" where
  "majority n = n div 2 + 1"

record union_view =
  un_first :: "u64 hset"
  un_second :: "u64 hset"

definition union_contains :: "union_view \<Rightarrow> u64 \<Rightarrow> bool" where
  "union_contains u i \<longleftrightarrow> i \<in> set (un_first u) \<or> i \<in> set (un_second u)"

text \<open>\<open>HashSet::union\<close> walks the larger set and then what only the other one has.\<close>

definition union_iter :: "union_view \<Rightarrow> u64 list" where
  "union_iter u =
     (if length (un_first u) \<ge> length (un_second u)
      then un_first u @ filter (\<lambda>x. x \<notin> set (un_first u)) (un_second u)
      else un_second u @ filter (\<lambda>x. x \<notin> set (un_second u)) (un_first u))"

definition union_is_empty :: "union_view \<Rightarrow> bool" where
  "union_is_empty u \<longleftrightarrow> un_first u = [] \<and> un_second u = []"

definition union_len :: "union_view \<Rightarrow> usize option" where
  "union_len u =
     do {
       s \<leftarrow> u64_add (length (un_first u)) (length (un_second u));
       u64_sub s (length (filter (\<lambda>x. x \<in> set (un_first u)) (un_second u)))
     }"

definition entry_approximate_size :: "entry \<Rightarrow> usize option" where
  "entry_approximate_size e =
     do { s \<leftarrow> u64_add (length (e_data e)) (length (e_context e)); u64_add s 12 }"

section \<open>The byte budget\<close>

text \<open>
  What \<open>limit_count\<close> takes: the entries up to the budget, but always the first one whose size
  is not zero. The running size stays 0 over leading entries of size 0, so the exemption lasts
  until the first entry with bytes.
\<close>

lemma limit_count_le: "limit_count csize l s es = Some n \<Longrightarrow> n \<le> length es"
  by (induction es arbitrary: s n) (auto simp: bind_eq_Some_conv split: if_splits)

lemma limit_count_budget:
  "limit_count csize l s es = Some n \<Longrightarrow> 0 < s \<Longrightarrow> s \<le> l \<Longrightarrow>
     s + sum_list (map csize (take n es)) \<le> l"
proof (induction es arbitrary: s n)
  case (Cons e es)
  from Cons.prems(1) show ?case
  proof (cases "s + csize e \<le> l")
    case True
    with Cons.prems obtain k where k: "limit_count csize l (s + csize e) es = Some k" "n = Suc k"
      by (auto simp: bind_eq_Some_conv split: if_splits)
    have "s + csize e + sum_list (map csize (take k es)) \<le> l"
      by (rule Cons.IH [OF k(1)]) (use Cons.prems True in auto)
    with k(2) show ?thesis by simp
  next
    case False
    with Cons.prems have "n = 0" by (auto simp: bind_eq_Some_conv split: if_splits)
    with Cons.prems show ?thesis by simp
  qed
qed simp

lemma limit_count_over:
  "limit_count csize l s es = Some n \<Longrightarrow> l < s \<Longrightarrow> n = 0"
  by (cases es) (auto simp: bind_eq_Some_conv split: if_splits)

lemma limit_count_first:
  assumes "limit_count csize l 0 es = Some n"
  shows "sum_list (map csize (take n es)) \<le> l \<or>
         (\<exists>k < n. n = Suc k \<and> sum_list (map csize (take k es)) = 0)"
  using assms
proof (induction es arbitrary: n)
  case (Cons e es)
  then obtain m where m: "limit_count csize l (csize e) es = Some m" "n = Suc m"
    by (auto simp: bind_eq_Some_conv split: if_splits)
  show ?case
  proof (cases "csize e = 0")
    case True
    with m Cons.IH [of m] show ?thesis by fastforce
  next
    case False
    show ?thesis
    proof (cases "csize e \<le> l")
      case True
      with False m limit_count_budget [of csize l "csize e" es m] show ?thesis by simp
    next
      case False
      with limit_count_over [OF m(1)] m(2) show ?thesis by auto
    qed
  qed
qed simp

lemma limit_count_maximal:
  "limit_count csize l s es = Some n \<Longrightarrow> n < length es \<Longrightarrow>
     l < s + sum_list (map csize (take (Suc n) es))"
proof (induction es arbitrary: s n)
  case (Cons e es)
  show ?case
  proof (cases "s = 0 \<or> s + csize e \<le> l")
    case True
    with Cons.prems obtain k where "limit_count csize l (s + csize e) es = Some k" "n = Suc k"
      by (auto simp: bind_eq_Some_conv split: if_splits)
    with Cons.IH [of "s + csize e" k] Cons.prems show ?thesis by (simp add: add.assoc)
  next
    case False
    with Cons.prems have "n = 0" by (auto simp: bind_eq_Some_conv split: if_splits)
    with False Cons.prems show ?thesis by (auto simp: bind_eq_Some_conv split: if_splits)
  qed
qed simp

lemma limit_count_ok:
  "s + sum_list (map csize es) \<le> U64_MAX \<Longrightarrow> \<exists>n. limit_count csize l s es = Some n"
proof (induction es arbitrary: s)
  case (Cons e es)
  then have "\<exists>n. limit_count csize l (s + csize e) es = Some n" by (simp add: add.assoc)
  with Cons.prems show ?case by (auto simp: u64_add_ok)
qed simp

lemma limit_count_pos: "limit_count csize l 0 (e # es) = Some n \<Longrightarrow> 0 < n"
  by (auto simp: bind_eq_Some_conv)

lemma limit_size_prefix:
  "limit_size csize es l = Some r \<Longrightarrow> \<exists>n \<le> length es. r = take n es \<and> (es \<noteq> [] \<longrightarrow> 0 < n)"
proof -
  assume r: "limit_size csize es l = Some r"
  show ?thesis
  proof (cases "r = es")
    case True
    then show ?thesis by (intro exI [of _ "length es"]) auto
  next
    case False
    with r obtain m n where "limit_count csize m 0 es = Some n" "r = take n es"
      by (auto simp: limit_size_def bind_eq_Some_conv split: if_splits option.splits)
    moreover from this have "n \<le> length es" by (auto dest: limit_count_le)
    moreover from calculation(1) have "es \<noteq> [] \<longrightarrow> 0 < n"
      by (cases es) (simp, metis limit_count_pos)
    ultimately show ?thesis by blast
  qed
qed

lemma limit_size_None [simp]: "limit_size csize es None = Some es"
  by (simp add: limit_size_def)

lemma limit_size_ok:
  "sum_list (map csize es) \<le> U64_MAX \<Longrightarrow> \<exists>r. limit_size csize es l = Some r"
proof (cases l)
  case (Some m)
  assume "sum_list (map csize es) \<le> U64_MAX"
  then obtain n where "limit_count csize m 0 es = Some n" using limit_count_ok [of 0 csize es m] by auto
  with Some show ?thesis by (simp add: limit_size_def)
qed simp

lemma limit_count_append:
  "limit_count csize l s xs = Some n \<Longrightarrow> n < length xs \<Longrightarrow> limit_count csize l s (xs @ ys) = Some n"
proof (induction xs arbitrary: s n)
  case (Cons x xs)
  show ?case
  proof (cases "s = 0 \<or> s + csize x \<le> l")
    case True
    with Cons.prems obtain k where "limit_count csize l (s + csize x) xs = Some k" "n = Suc k" "s + csize x \<le> U64_MAX"
      by (auto simp: bind_eq_Some_conv split: if_splits)
    with Cons.IH [of "s + csize x" k] Cons.prems True show ?thesis by simp
  next
    case False
    with Cons.prems show ?thesis by (auto simp: bind_eq_Some_conv split: if_splits)
  qed
qed simp

text \<open>A budget that ends inside a prefix ends there for every longer vector.\<close>

lemma limit_size_append:
  assumes "limit_size csize xs sz = Some ps" and "length ps < length xs"
  shows "limit_size csize (xs @ ys) sz = Some ps"
proof -
  have "ps \<noteq> xs" using assms(2) by auto
  with assms(1) obtain l n where l: "sz = Some l" "l \<noteq> NO_LIMIT" "limit_count csize l 0 xs = Some n" "ps = take n xs" "1 < length xs"
    by (auto simp: limit_size_def bind_eq_Some_conv split: if_splits option.splits)
  then have "n < length xs" using assms(2) by simp
  with limit_count_append [OF l(3)] l show ?thesis by (simp add: limit_size_def)
qed

lemma limit_size_full: "limit_size csize xs sz = Some ps \<Longrightarrow> \<not> length ps < length xs \<Longrightarrow> ps = xs"
  using limit_size_prefix [of csize xs sz ps] by auto

section \<open>Majorities and unions\<close>

lemma majority_overlap: "2 * majority n > n"
  by (simp add: majority_def)

lemma majority_le: "0 < n \<Longrightarrow> majority n \<le> n"
  by (simp add: majority_def)

lemma majority_pos [simp]: "0 < majority n"
  by (simp add: majority_def)

lemma set_union_iter [simp]: "set (union_iter u) = set (un_first u) \<union> set (un_second u)"
  by (auto simp: union_iter_def)

lemma distinct_union_iter [simp]:
  "distinct (un_first u) \<Longrightarrow> distinct (un_second u) \<Longrightarrow> distinct (union_iter u)"
  by (auto simp: union_iter_def)

lemma union_len_card:
  assumes "distinct (un_first u)" and "distinct (un_second u)"
    and "length (un_first u) + length (un_second u) \<le> U64_MAX"
  shows "union_len u = Some (card (set (un_first u) \<union> set (un_second u)))"
proof -
  let ?a = "set (un_first u)" and ?b = "set (un_second u)"
  have "length (filter (\<lambda>x. x \<in> ?a) (un_second u)) = card (?a \<inter> ?b)"
    using assms(2) by (subst length_filter_le_of_subset) (auto intro: arg_cong [of _ _ card])
  moreover have "card (?a \<union> ?b) + card (?a \<inter> ?b) = card ?a + card ?b"
    by (rule card_Un_Int [symmetric]) auto
  moreover have "card ?a = length (un_first u)" "card ?b = length (un_second u)"
    using assms by (auto simp: distinct_card)
  ultimately show ?thesis
    using assms(3) by (auto simp: union_len_def u64_add_ok u64_sub_def)
qed


section \<open>Properties\<close>

text \<open>
  (C34) \<open>limit_size\<close> with a budget keeps a prefix: it is the whole vector or the longest one the
  budget allows, never empty unless the input is, and it passes the budget only by an entry that
  follows entries of size 0 (the first entry in particular).
\<close>

theorem limit_size_keeps_longest_prefix:
  assumes "sum_list (map csize es) \<le> U64_MAX" and "limit < NO_LIMIT"
  shows "\<exists>n \<le> length es. limit_size csize es (Some limit) = Some (take n es)
     \<and> (es \<noteq> [] \<longrightarrow> 0 < n)
     \<and> (sum_list (map csize (take n es)) \<le> limit \<or> sum_list (map csize (take (n - 1) es)) = 0)
     \<and> (n < length es \<longrightarrow> limit < sum_list (map csize (take (Suc n) es)))"
proof (cases "length es \<le> 1")
  case True
  then have "sum_list (map csize (take (length es - 1) es)) = 0" by (cases es) auto
  with True show ?thesis by (intro exI [of _ "length es"]) (auto simp: limit_size_def)
next
  case False
  obtain n where n: "limit_count csize limit 0 es = Some n"
    using limit_count_ok [of 0 csize es limit] assms(1) by auto
  have "es \<noteq> [] \<longrightarrow> 0 < n" using n limit_count_pos by (cases es) auto
  moreover have "sum_list (map csize (take n es)) \<le> limit \<or> sum_list (map csize (take (n - 1) es)) = 0"
    using limit_count_first [OF n] by auto
  moreover have "n < length es \<longrightarrow> limit < sum_list (map csize (take (Suc n) es))"
    using limit_count_maximal [OF n] by simp
  ultimately show ?thesis
    using False n limit_count_le [OF n] assms(2) by (intro exI [of _ n]) (auto simp: limit_size_def)
qed

lemma limit_size_keeps_longest_prefix_witness:
  "\<exists>n \<le> length [4, 3, 2 :: nat].
     limit_size (\<lambda>x. x) [4, 3, 2] (Some 8) = Some (take n [4, 3, 2]) \<and> 0 < n"
proof -
  have h: "sum_list (map (\<lambda>x. x) [4, 3, 2 :: nat]) \<le> U64_MAX" "(8 :: nat) < NO_LIMIT"
    by (simp_all add: NO_LIMIT_def)
  show ?thesis using limit_size_keeps_longest_prefix [OF h] by auto
qed

end
