(* ===== verification/Config.thy ===== *)
theory Config
  imports Util
begin

text \<open>
  \<open>src/config.rs\<close>: the parameters of a node, their defaults, the election-tick range derived
  from them and their validation.
\<close>

abbreviation (input) INVALID_ID :: u64 where
  "INVALID_ID \<equiv> 0"

abbreviation (input) INVALID_INDEX :: u64 where
  "INVALID_INDEX \<equiv> 0"

datatype read_only_option = Safe | LeaseBased

record config =
  cf_id :: u64
  cf_election_tick :: usize
  cf_heartbeat_tick :: usize
  cf_applied :: u64
  cf_max_size_per_msg :: u64
  cf_max_inflight_msgs :: usize
  cf_check_quorum :: bool
  cf_pre_vote :: bool
  cf_min_election_tick :: usize
  cf_max_election_tick :: usize
  cf_read_only_option :: read_only_option
  cf_skip_bcast_commit :: bool
  cf_batch_append :: bool
  cf_priority :: i64
  cf_max_uncommitted_size :: u64
  cf_max_committed_size_per_ready :: u64
  cf_max_apply_unpersisted_log_limit :: u64
  cf_disable_proposal_forwarding :: bool

definition default_config :: config where
  "default_config =
     \<lparr>cf_id = 0, cf_election_tick = 2 * 10, cf_heartbeat_tick = 2, cf_applied = 0,
      cf_max_size_per_msg = 0, cf_max_inflight_msgs = 256, cf_check_quorum = False,
      cf_pre_vote = False, cf_min_election_tick = 0, cf_max_election_tick = 0,
      cf_read_only_option = Safe, cf_skip_bcast_commit = False, cf_batch_append = False,
      cf_priority = 0, cf_max_uncommitted_size = NO_LIMIT,
      cf_max_committed_size_per_ready = NO_LIMIT, cf_max_apply_unpersisted_log_limit = 0,
      cf_disable_proposal_forwarding = False\<rparr>"

definition config_new :: "u64 \<Rightarrow> config" where
  "config_new i = default_config\<lparr>cf_id := i\<rparr>"

definition min_election_tick :: "config \<Rightarrow> usize" where
  "min_election_tick c =
     (if cf_min_election_tick c = 0 then cf_election_tick c else cf_min_election_tick c)"

definition max_election_tick :: "config \<Rightarrow> usize option" where
  "max_election_tick c =
     (if cf_max_election_tick c = 0 then u64_mul 2 (cf_election_tick c)
      else Some (cf_max_election_tick c))"

definition validate :: "config \<Rightarrow> unit result option" where
  "validate c =
     (if cf_id c = INVALID_ID then Some (Inl (ConfigInvalid ''invalid node id''))
      else if cf_heartbeat_tick c = 0 then
        Some (Inl (ConfigInvalid ''heartbeat tick must greater than 0''))
      else if cf_election_tick c \<le> cf_heartbeat_tick c then
        Some (Inl (ConfigInvalid ''election tick must be greater than heartbeat tick''))
      else do {
        let min_timeout = min_election_tick c;
        max_timeout \<leftarrow> max_election_tick c;
        if min_timeout < cf_election_tick c then
          Some (Inl (ConfigInvalid (''min election tick '' @ show_u64 min_timeout
            @ '' must not be less than election_tick '' @ show_u64 (cf_election_tick c))))
        else if min_timeout \<ge> max_timeout then
          Some (Inl (ConfigInvalid (''min election tick '' @ show_u64 min_timeout
            @ '' should be less than max election tick '' @ show_u64 max_timeout)))
        else if cf_max_inflight_msgs c = 0 then
          Some (Inl (ConfigInvalid ''max inflight messages must be greater than 0''))
        else if cf_read_only_option c = LeaseBased \<and> \<not> cf_check_quorum c then
          Some (Inl (ConfigInvalid ''read_only_option == LeaseBased requires check_quorum == true''))
        else if cf_max_uncommitted_size c < cf_max_size_per_msg c then
          Some (Inl (ConfigInvalid ''max uncommitted size should greater than max_size_per_msg''))
        else Some (Inr ())
      })"

text \<open>What a validated configuration guarantees the node it starts.\<close>

definition config_ok :: "config \<Rightarrow> bool" where
  "config_ok c \<longleftrightarrow>
     cf_id c \<noteq> INVALID_ID \<and> 0 < cf_heartbeat_tick c \<and> cf_heartbeat_tick c < cf_election_tick c
     \<and> cf_election_tick c \<le> min_election_tick c
     \<and> (\<exists>m. max_election_tick c = Some m \<and> min_election_tick c < m)
     \<and> 0 < cf_max_inflight_msgs c
     \<and> (cf_read_only_option c = LeaseBased \<longrightarrow> cf_check_quorum c)
     \<and> cf_max_size_per_msg c \<le> cf_max_uncommitted_size c"

lemma validate_ok_iff: "validate c = Some (Inr ()) \<longleftrightarrow> config_ok c"
proof
  show "validate c = Some (Inr ()) \<Longrightarrow> config_ok c"
    by (auto simp: validate_def config_ok_def Let_def bind_eq_Some_conv split: if_splits)
  show "config_ok c \<Longrightarrow> validate c = Some (Inr ())"
    by (auto simp: validate_def config_ok_def Let_def not_le)
qed

end
