(* ===== verification/Storage.thy ===== *)
theory Storage
  imports Config
begin

text \<open>
  \<open>src/storage.rs\<close>: the \<open>Storage\<close> trait through which a node reads its persistent log, and
  \<open>MemStorage\<close>, the implementation the crate ships.

  The trait is a record of functions, \<open>'s env\<close>, that every definition above it takes as its first
  argument; \<open>'s\<close> is the type of the implementation. The same record carries what the crate calls
  in generated or foreign code: the encoded size of an entry, the decoding and encoding of
  membership changes, and the numbers drawn for randomised timeouts. A method that takes
  \<open>&self\<close> but changes the implementation through a lock (\<open>entries\<close>, \<open>snapshot\<close>) returns the new
  state. The locks of \<open>MemStorage\<close> protect single calls and are not modelled; a call is atomic.

  The locale \<open>log_storage\<close> is the documented contract of the trait, over a view of the store as a
  first index and a list of entries; the interpretation discharges it for \<open>MemStorage\<close>.
\<close>

section \<open>The trait\<close>

record raft_state =
  rs_hard_state :: hard_state
  rs_conf_state :: conf_state

definition raft_state_new :: "hard_state \<Rightarrow> conf_state \<Rightarrow> raft_state" where
  "raft_state_new hs cs = \<lparr>rs_hard_state = hs, rs_conf_state = cs\<rparr>"

definition raft_state_initialized :: "raft_state \<Rightarrow> bool" where
  "raft_state_initialized rs \<longleftrightarrow> rs_conf_state rs \<noteq> default_conf_state"

datatype get_entries_for =
    SendAppend (ge_to: u64) (ge_term: u64) (ge_aggressively: bool)
  | GenReady
  | TransferLeader
  | CommitByVote
  | Empty bool

definition can_async :: "get_entries_for \<Rightarrow> bool" where
  "can_async c = (case c of SendAppend _ _ _ \<Rightarrow> True | Empty b \<Rightarrow> b | _ \<Rightarrow> False)"

record 's env =
  st_initial_state :: "'s \<Rightarrow> raft_state result"
  st_entries :: "'s \<Rightarrow> u64 \<Rightarrow> u64 \<Rightarrow> u64 option \<Rightarrow> get_entries_for \<Rightarrow> (entry list result \<times> 's) option"
  st_term :: "'s \<Rightarrow> u64 \<Rightarrow> u64 result option"
  st_first_index :: "'s \<Rightarrow> u64 result option"
  st_last_index :: "'s \<Rightarrow> u64 result option"
  st_snapshot :: "'s \<Rightarrow> u64 \<Rightarrow> u64 \<Rightarrow> (snapshot result \<times> 's) option"
  pb_compute_size :: "entry \<Rightarrow> u64"
  pb_read_conf_change :: "bytes \<Rightarrow> string + conf_change"
  pb_read_conf_change_v2 :: "bytes \<Rightarrow> string + conf_change_v2"
  pb_write_conf_change :: "conf_change \<Rightarrow> string + bytes"
  pb_write_conf_change_v2 :: "conf_change_v2 \<Rightarrow> string + bytes"
  rng_draw :: "nat \<Rightarrow> nat"

text \<open>\<open>Result::unwrap\<close> panics on an error.\<close>

definition unwrap :: "'a result \<Rightarrow> 'a option" where
  "unwrap r = (case r of Inl _ \<Rightarrow> None | Inr x \<Rightarrow> Some x)"

lemma unwrap_simps [simp]: "unwrap (Inr x) = Some x" "unwrap (Inl e) = None"
  by (simp_all add: unwrap_def)

lemma unwrap_Some [simp]: "unwrap r = Some x \<longleftrightarrow> r = Inr x"
  by (cases r) (auto simp: unwrap_def)

section \<open>MemStorage\<close>

record mem_storage =
  ms_raft_state :: raft_state
  ms_entries :: "entry list"
  ms_snapshot_metadata :: snapshot_metadata
  ms_trigger_snap_unavailable :: bool
  ms_trigger_log_unavailable :: bool
  ms_get_entries_context :: "get_entries_for option"

definition mem_new :: mem_storage where
  "mem_new =
     \<lparr>ms_raft_state = \<lparr>rs_hard_state = default_hard_state, rs_conf_state = default_conf_state\<rparr>,
      ms_entries = [], ms_snapshot_metadata = default_snapshot_metadata,
      ms_trigger_snap_unavailable = False, ms_trigger_log_unavailable = False,
      ms_get_entries_context = None\<rparr>"

abbreviation ms_hard_state :: "mem_storage \<Rightarrow> hard_state" where
  "ms_hard_state s \<equiv> rs_hard_state (ms_raft_state s)"

definition mem_set_hardstate :: "mem_storage \<Rightarrow> hard_state \<Rightarrow> mem_storage" where
  "mem_set_hardstate s hs = s\<lparr>ms_raft_state := (ms_raft_state s)\<lparr>rs_hard_state := hs\<rparr>\<rparr>"

definition mem_set_conf_state :: "mem_storage \<Rightarrow> conf_state \<Rightarrow> mem_storage" where
  "mem_set_conf_state s cs = s\<lparr>ms_raft_state := (ms_raft_state s)\<lparr>rs_conf_state := cs\<rparr>\<rparr>"

definition mem_first_index :: "mem_storage \<Rightarrow> u64 option" where
  "mem_first_index s =
     (case ms_entries s of
        e # _ \<Rightarrow> Some (e_index e)
      | [] \<Rightarrow> u64_add (sm_index (ms_snapshot_metadata s)) 1)"

definition mem_last_index :: "mem_storage \<Rightarrow> u64" where
  "mem_last_index s =
     (if ms_entries s = [] then sm_index (ms_snapshot_metadata s) else e_index (last (ms_entries s)))"

definition mem_has_entry_at :: "mem_storage \<Rightarrow> u64 \<Rightarrow> bool option" where
  "mem_has_entry_at s index =
     (if ms_entries s = [] then Some False
      else do {
        first \<leftarrow> mem_first_index s;
        Some (index \<ge> first \<and> index \<le> mem_last_index s)
      })"

definition mem_commit_to :: "mem_storage \<Rightarrow> u64 \<Rightarrow> mem_storage option" where
  "mem_commit_to s index =
     do {
       has \<leftarrow> mem_has_entry_at s index;
       rust_assert has;
       e0 \<leftarrow> vec_get (ms_entries s) 0;
       diff \<leftarrow> u64_sub index (e_index e0);
       e \<leftarrow> vec_get (ms_entries s) diff;
       Some (mem_set_hardstate s ((ms_hard_state s)\<lparr>hs_commit := index, hs_term := e_term e\<rparr>))
     }"

definition mem_apply_snapshot :: "mem_storage \<Rightarrow> snapshot \<Rightarrow> (unit result \<times> mem_storage) option" where
  "mem_apply_snapshot s sn =
     do {
       let meta = sn_metadata sn;
       let index = sm_index meta;
       first \<leftarrow> mem_first_index s;
       if first > index then Some (Inl (Store SnapshotOutOfDate), s)
       else
         (let hs = (ms_hard_state s)\<lparr>hs_term := max (hs_term (ms_hard_state s)) (sm_term meta),
                                     hs_commit := index\<rparr>
          in Some (Inr (), s\<lparr>ms_snapshot_metadata := meta,
                             ms_raft_state := \<lparr>rs_hard_state = hs, rs_conf_state = sm_conf_state meta\<rparr>,
                             ms_entries := []\<rparr>))
     }"

definition mem_core_snapshot :: "mem_storage \<Rightarrow> snapshot option" where
  "mem_core_snapshot s =
     do {
       let index = hs_commit (ms_hard_state s);
       term \<leftarrow>
         (if index = sm_index (ms_snapshot_metadata s) then Some (sm_term (ms_snapshot_metadata s))
          else if index > sm_index (ms_snapshot_metadata s) then do {
            e0 \<leftarrow> vec_get (ms_entries s) 0;
            i \<leftarrow> u64_sub index (e_index e0);
            e \<leftarrow> vec_get (ms_entries s) i;
            Some (e_term e)
          }
          else None);
       Some \<lparr>sn_data = [],
             sn_metadata = \<lparr>sm_conf_state = rs_conf_state (ms_raft_state s), sm_index = index, sm_term = term\<rparr>\<rparr>
     }"

definition mem_compact :: "mem_storage \<Rightarrow> u64 \<Rightarrow> mem_storage option" where
  "mem_compact s compact_index =
     do {
       first \<leftarrow> mem_first_index s;
       if compact_index \<le> first then Some s
       else do {
         end \<leftarrow> u64_add (mem_last_index s) 1;
         rust_assert (\<not> compact_index > end);
         (case ms_entries s of
            [] \<Rightarrow> Some s
          | e # _ \<Rightarrow> do {
              off \<leftarrow> u64_sub compact_index (e_index e);
              rest \<leftarrow> vec_from (ms_entries s) off;
              Some (s\<lparr>ms_entries := rest\<rparr>)
            })
       }
     }"

definition mem_append :: "mem_storage \<Rightarrow> entry list \<Rightarrow> mem_storage option" where
  "mem_append s ents =
     (if ents = [] then Some s
      else do {
        first \<leftarrow> mem_first_index s;
        rust_assert (\<not> first > e_index (hd ents));
        end \<leftarrow> u64_add (mem_last_index s) 1;
        rust_assert (\<not> end < e_index (hd ents));
        diff \<leftarrow> u64_sub (e_index (hd ents)) first;
        kept \<leftarrow> vec_range (ms_entries s) 0 diff;
        Some (s\<lparr>ms_entries := kept @ ents\<rparr>)
      })"

definition mem_commit_to_and_set_conf_states :: "mem_storage \<Rightarrow> u64 \<Rightarrow> conf_state option \<Rightarrow> mem_storage option" where
  "mem_commit_to_and_set_conf_states s idx cs =
     do {
       s \<leftarrow> mem_commit_to s idx;
       Some (case cs of None \<Rightarrow> s | Some c \<Rightarrow> mem_set_conf_state s c)
     }"

definition mem_trigger_snap_unavailable :: "mem_storage \<Rightarrow> mem_storage" where
  "mem_trigger_snap_unavailable s = s\<lparr>ms_trigger_snap_unavailable := True\<rparr>"

definition mem_trigger_log_unavailable :: "mem_storage \<Rightarrow> bool \<Rightarrow> mem_storage" where
  "mem_trigger_log_unavailable s v = s\<lparr>ms_trigger_log_unavailable := v\<rparr>"

definition mem_take_get_entries_context :: "mem_storage \<Rightarrow> get_entries_for option \<times> mem_storage" where
  "mem_take_get_entries_context s = (ms_get_entries_context s, s\<lparr>ms_get_entries_context := None\<rparr>)"

definition mem_initialize_with_conf_state :: "mem_storage \<Rightarrow> conf_state \<Rightarrow> mem_storage option" where
  "mem_initialize_with_conf_state s cs =
     do {
       rust_assert (\<not> raft_state_initialized (ms_raft_state s));
       Some (mem_set_conf_state s cs)
     }"

definition mem_new_with_conf_state :: "conf_state \<Rightarrow> mem_storage option" where
  "mem_new_with_conf_state cs = mem_initialize_with_conf_state mem_new cs"

definition mem_entries ::
  "(entry \<Rightarrow> u64) \<Rightarrow> mem_storage \<Rightarrow> u64 \<Rightarrow> u64 \<Rightarrow> u64 option \<Rightarrow> get_entries_for
     \<Rightarrow> (entry list result \<times> mem_storage) option" where
  "mem_entries csize s low high max_size context =
     do {
       first \<leftarrow> mem_first_index s;
       if low < first then Some (Inl (Store Compacted), s)
       else do {
         end \<leftarrow> u64_add (mem_last_index s) 1;
         rust_assert (\<not> high > end);
         if ms_trigger_log_unavailable s \<and> can_async context then
           Some (Inl (Store LogTemporarilyUnavailable), s\<lparr>ms_get_entries_context := Some context\<rparr>)
         else do {
           e0 \<leftarrow> vec_get (ms_entries s) 0;
           lo \<leftarrow> u64_sub low (e_index e0);
           hi \<leftarrow> u64_sub high (e_index e0);
           ents \<leftarrow> vec_range (ms_entries s) lo hi;
           ents \<leftarrow> limit_size csize ents max_size;
           Some (Inr ents, s)
         }
       }
     }"

definition mem_term :: "mem_storage \<Rightarrow> u64 \<Rightarrow> u64 result option" where
  "mem_term s idx =
     (if idx = sm_index (ms_snapshot_metadata s) then Some (Inr (sm_term (ms_snapshot_metadata s)))
      else do {
        offset \<leftarrow> mem_first_index s;
        if idx < offset then Some (Inl (Store Compacted))
        else if idx > mem_last_index s then Some (Inl (Store Unavailable))
        else do {
          e \<leftarrow> vec_get (ms_entries s) (idx - offset);
          Some (Inr (e_term e))
        }
      })"

definition mem_snapshot :: "mem_storage \<Rightarrow> u64 \<Rightarrow> u64 \<Rightarrow> (snapshot result \<times> mem_storage) option" where
  "mem_snapshot s request_index to =
     (if ms_trigger_snap_unavailable s then
        Some (Inl (Store SnapshotTemporarilyUnavailable), s\<lparr>ms_trigger_snap_unavailable := False\<rparr>)
      else do {
        snap \<leftarrow> mem_core_snapshot s;
        Some (Inr (if snap_index snap < request_index
                   then snap\<lparr>sn_metadata := (sn_metadata snap)\<lparr>sm_index := request_index\<rparr>\<rparr>
                   else snap), s)
      })"

text \<open>\<open>impl Storage for MemStorage\<close>, in an environment whose other parts are given.\<close>

definition mem_env :: "'t env \<Rightarrow> mem_storage env" where
  "mem_env E =
     \<lparr>st_initial_state = (\<lambda>s. Inr (ms_raft_state s)),
      st_entries = mem_entries (pb_compute_size E),
      st_term = mem_term,
      st_first_index = (\<lambda>s. map_option Inr (mem_first_index s)),
      st_last_index = (\<lambda>s. Some (Inr (mem_last_index s))),
      st_snapshot = mem_snapshot,
      pb_compute_size = pb_compute_size E,
      pb_read_conf_change = pb_read_conf_change E,
      pb_read_conf_change_v2 = pb_read_conf_change_v2 E,
      pb_write_conf_change = pb_write_conf_change E,
      pb_write_conf_change_v2 = pb_write_conf_change_v2 E,
      rng_draw = rng_draw E\<rparr>"

text \<open>A concrete choice of the foreign functions, for the witnesses.\<close>

definition sample_env :: "unit env" where
  "sample_env =
     \<lparr>st_initial_state = (\<lambda>_. Inl (Store Unavailable)), st_entries = (\<lambda>s _ _ _ _. Some (Inr [], s)),
      st_term = (\<lambda>_ _. Some (Inl (Store Unavailable))), st_first_index = (\<lambda>_. Some (Inr 1)),
      st_last_index = (\<lambda>_. Some (Inr 0)), st_snapshot = (\<lambda>s _ _. Some (Inl (Store Unavailable), s)),
      pb_compute_size = (\<lambda>e. length (e_data e) + length (e_context e) + 4),
      pb_read_conf_change = (\<lambda>_. Inl ''unreadable''), pb_read_conf_change_v2 = (\<lambda>_. Inl ''unreadable''),
      pb_write_conf_change = (\<lambda>_. Inr []), pb_write_conf_change_v2 = (\<lambda>_. Inr []), rng_draw = (\<lambda>n. n)\<rparr>"

section \<open>The contract of the trait\<close>

text \<open>Entries whose indices follow each other.\<close>

definition continuous_from :: "u64 \<Rightarrow> entry list \<Rightarrow> bool" where
  "continuous_from first es \<longleftrightarrow> (\<forall>i < length es. e_index (es ! i) = first + i)"


lemma continuous_nth: "continuous_from f es \<Longrightarrow> i < length es \<Longrightarrow> e_index (es ! i) = f + i"
  by (simp add: continuous_from_def)

lemma continuous_Nil [simp]: "continuous_from f []"
  by (simp add: continuous_from_def)

lemma continuous_Cons: "continuous_from f (e # es) \<longleftrightarrow> e_index e = f \<and> continuous_from (Suc f) es"
  by (auto simp: continuous_from_def less_Suc_eq_0_disj)

lemma continuous_append:
  "continuous_from f (xs @ ys) \<longleftrightarrow> continuous_from f xs \<and> continuous_from (f + length xs) ys"
  by (induction xs arbitrary: f) (auto simp: continuous_Cons)

lemma continuous_take [intro]: "continuous_from f es \<Longrightarrow> continuous_from f (take n es)"
  by (simp add: continuous_from_def)

lemma continuous_drop: "continuous_from f es \<Longrightarrow> n \<le> length es \<Longrightarrow> continuous_from (f + n) (drop n es)"
  by (simp add: continuous_from_def add.assoc)

lemma continuous_last:
  "continuous_from f es \<Longrightarrow> es \<noteq> [] \<Longrightarrow> e_index (last es) = f + length es - 1 \<and> e_index (hd es) = f"
  by (cases es) (auto simp: continuous_from_def last_conv_nth)

locale log_storage =
  fixes E :: "'s env" and good :: "'s \<Rightarrow> bool" and first :: "'s \<Rightarrow> u64" and ents :: "'s \<Rightarrow> entry list"
  assumes first_index: "good s \<Longrightarrow> st_first_index E s = Some (Inr (first s))"
    and last_index: "good s \<Longrightarrow> st_last_index E s = Some (Inr (first s + length (ents s) - 1))"
    and continuous: "good s \<Longrightarrow> continuous_from (first s) (ents s)"
    and bounds: "good s \<Longrightarrow> 0 < first s \<and> first s + length (ents s) \<le> U64_MAX"
    and term_in: "good s \<Longrightarrow> i < length (ents s) \<Longrightarrow> st_term E s (first s + i) = Some (Inr (e_term (ents s ! i)))"
    and term_before: "good s \<Longrightarrow> i < first s \<Longrightarrow>
          st_term E s i = Some (Inl (Store Compacted)) \<or> (\<exists>t. st_term E s i = Some (Inr t))"
    and term_after: "good s \<Longrightarrow> first s + length (ents s) \<le> i \<Longrightarrow> st_term E s i = Some (Inl (Store Unavailable))"
    and term_zero: "good s \<Longrightarrow> st_term E s 0 = Some (Inr t) \<Longrightarrow> t = 0"
    and entries_before: "good s \<Longrightarrow> low < first s \<Longrightarrow> st_entries E s low high sz c = Some (Inl (Store Compacted), s)"
    and entries_in: "good s \<Longrightarrow> first s \<le> low \<Longrightarrow> low < high \<Longrightarrow> high \<le> first s + length (ents s) \<Longrightarrow>
          \<exists>r s'. st_entries E s low high sz c = Some (r, s') \<and> good s' \<and> first s' = first s \<and> ents s' = ents s
            \<and> (can_async c \<and> r = Inl (Store LogTemporarilyUnavailable)
               \<or> map_option Inr (limit_size (pb_compute_size E) (take (high - low) (drop (low - first s) (ents s))) sz) = Some r)"
    and sizes: "good s \<Longrightarrow> sum_list (map (pb_compute_size E) (ents s)) \<le> U64_MAX"
    and snapshot: "good s \<Longrightarrow> \<exists>r s'. st_snapshot E s i to = Some (r, s') \<and> good s' \<and> first s' = first s \<and> ents s' = ents s
            \<and> (r = Inl (Store SnapshotTemporarilyUnavailable) \<or> (\<exists>sn. r = Inr sn \<and> i \<le> snap_index sn))"

section \<open>MemStorage keeps the contract\<close>

definition mem_first :: "mem_storage \<Rightarrow> u64" where
  "mem_first s =
     (case ms_entries s of e # _ \<Rightarrow> e_index e | [] \<Rightarrow> sm_index (ms_snapshot_metadata s) + 1)"

text \<open>
  A well-formed store: entries in sequence above the snapshot, the commit index of the hard state
  inside the log, and room for one more index.
\<close>

definition mem_wf :: "(entry \<Rightarrow> u64) \<Rightarrow> mem_storage \<Rightarrow> bool" where
  "mem_wf csize s \<longleftrightarrow>
     continuous_from (mem_first s) (ms_entries s)
     \<and> sm_index (ms_snapshot_metadata s) < mem_first s
     \<and> mem_first s + length (ms_entries s) \<le> U64_MAX
     \<and> (sm_index (ms_snapshot_metadata s) = 0 \<longrightarrow> sm_term (ms_snapshot_metadata s) = 0)
     \<and> sm_index (ms_snapshot_metadata s) \<le> hs_commit (ms_hard_state s)
     \<and> hs_commit (ms_hard_state s) < mem_first s + length (ms_entries s)
     \<and> (sm_index (ms_snapshot_metadata s) < hs_commit (ms_hard_state s) \<longrightarrow> mem_first s \<le> hs_commit (ms_hard_state s))
     \<and> sum_list (map csize (ms_entries s)) \<le> U64_MAX"

lemma mem_first_index_eq:
  assumes "mem_wf csize s"
  shows "mem_first_index s = Some (mem_first s)"
proof (cases "ms_entries s")
  case Nil
  with assms show ?thesis by (simp add: mem_first_index_def mem_first_def mem_wf_def)
qed (simp add: mem_first_index_def mem_first_def)

lemma mem_last_index_eq:
  assumes "mem_wf csize s"
  shows "mem_last_index s = mem_first s + length (ms_entries s) - 1"
proof (cases "ms_entries s = []")
  case True
  then show ?thesis by (simp add: mem_last_index_def mem_first_def)
next
  case False
  with assms continuous_last [of "mem_first s" "ms_entries s"] show ?thesis
    by (simp add: mem_last_index_def mem_wf_def)
qed

lemma mem_hd_index: "ms_entries s \<noteq> [] \<Longrightarrow> e_index (ms_entries s ! 0) = mem_first s"
  by (cases "ms_entries s") (simp_all add: mem_first_def)

lemma mem_term_in:
  assumes wf: "mem_wf csize s" and i: "i < length (ms_entries s)"
  shows "mem_term s (mem_first s + i) = Some (Inr (e_term (ms_entries s ! i)))"
proof -
  have "mem_first s + i \<noteq> sm_index (ms_snapshot_metadata s)" using wf by (auto simp: mem_wf_def)
  with i show ?thesis by (simp add: mem_term_def mem_first_index_eq [OF wf] mem_last_index_eq [OF wf])
qed

lemma mem_entries_in:
  assumes wf: "mem_wf csize s" and "mem_first s \<le> low" "low < high" "high \<le> mem_first s + length (ms_entries s)"
  shows "mem_entries csize s low high sz c =
     (if ms_trigger_log_unavailable s \<and> can_async c
      then Some (Inl (Store LogTemporarilyUnavailable), s\<lparr>ms_get_entries_context := Some c\<rparr>)
      else map_option (\<lambda>es. (Inr es, s))
        (limit_size csize (take (high - low) (drop (low - mem_first s) (ms_entries s))) sz))"
proof -
  have ne: "ms_entries s \<noteq> []" using assms by auto
  have "mem_last_index s + 1 = mem_first s + length (ms_entries s)"
    using mem_last_index_eq [OF wf] ne by (cases "ms_entries s") auto
  with assms ne mem_hd_index [OF ne] show ?thesis
    by (auto simp: mem_entries_def mem_first_index_eq [OF wf] mem_wf_def map_option_case bind_eq_Some_conv
        split: option.splits)
qed

lemma mem_core_snapshot_ok: "mem_wf csize s \<Longrightarrow> \<exists>sn. mem_core_snapshot s = Some sn \<and> snap_index sn = hs_commit (ms_hard_state s)"
proof -
  assume wf: "mem_wf csize s"
  show ?thesis
  proof (cases "hs_commit (ms_hard_state s) = sm_index (ms_snapshot_metadata s)")
    case True
    then show ?thesis by (simp add: mem_core_snapshot_def)
  next
    case False
    with wf have "mem_first s \<le> hs_commit (ms_hard_state s)" "sm_index (ms_snapshot_metadata s) < hs_commit (ms_hard_state s)"
      "hs_commit (ms_hard_state s) < mem_first s + length (ms_entries s)" "ms_entries s \<noteq> []"
      by (auto simp: mem_wf_def)
    with mem_hd_index [of s] show ?thesis by (simp add: mem_core_snapshot_def Let_def)
  qed
qed

lemma mem_wf_flags [simp]:
  "mem_wf csize (s\<lparr>ms_get_entries_context := c\<rparr>) = mem_wf csize s"
  "mem_wf csize (s\<lparr>ms_trigger_snap_unavailable := b\<rparr>) = mem_wf csize s"
  "mem_first (s\<lparr>ms_get_entries_context := c\<rparr>) = mem_first s"
  "mem_first (s\<lparr>ms_trigger_snap_unavailable := b\<rparr>) = mem_first s"
  by (simp_all add: mem_wf_def mem_first_def split: list.split)

lemma mem_snapshot_ok:
  assumes "mem_wf csize s"
  shows "\<exists>r s'. mem_snapshot s i to = Some (r, s') \<and> mem_wf csize s' \<and> mem_first s' = mem_first s
     \<and> ms_entries s' = ms_entries s
     \<and> (r = Inl (Store SnapshotTemporarilyUnavailable) \<or> (\<exists>sn. r = Inr sn \<and> i \<le> snap_index sn))"
  using mem_core_snapshot_ok [OF assms] assms by (auto simp: mem_snapshot_def)


interpretation mem: log_storage "mem_env E" "mem_wf (pb_compute_size E)" mem_first ms_entries for E :: "'t env"
proof
  fix s i low high sz c to
  assume wf: "mem_wf (pb_compute_size E) s"
  show "st_first_index (mem_env E) s = Some (Inr (mem_first s))"
    by (simp add: mem_env_def mem_first_index_eq [OF wf])
  show "st_last_index (mem_env E) s = Some (Inr (mem_first s + length (ms_entries s) - 1))"
    by (simp add: mem_env_def mem_last_index_eq [OF wf])
  show "continuous_from (mem_first s) (ms_entries s)" using wf by (simp add: mem_wf_def)
  show "0 < mem_first s \<and> mem_first s + length (ms_entries s) \<le> U64_MAX"
    using wf by (auto simp: mem_wf_def)
  show "sum_list (map (pb_compute_size (mem_env E)) (ms_entries s)) \<le> U64_MAX"
    using wf by (simp add: mem_wf_def mem_env_def)
  show "i < length (ms_entries s) \<Longrightarrow>
      st_term (mem_env E) s (mem_first s + i) = Some (Inr (e_term (ms_entries s ! i)))"
    using mem_term_in [OF wf] by (simp add: mem_env_def)
  show "i < mem_first s \<Longrightarrow> st_term (mem_env E) s i = Some (Inl (Store Compacted))
      \<or> (\<exists>t. st_term (mem_env E) s i = Some (Inr t))"
    by (simp add: mem_env_def mem_term_def mem_first_index_eq [OF wf])
  show "mem_first s + length (ms_entries s) \<le> i \<Longrightarrow> st_term (mem_env E) s i = Some (Inl (Store Unavailable))"
    using wf by (auto simp: mem_env_def mem_term_def mem_first_index_eq [OF wf] mem_last_index_eq [OF wf] mem_wf_def)
  show "st_term (mem_env E) s 0 = Some (Inr t) \<Longrightarrow> t = 0" for t
    using wf by (auto simp: mem_env_def mem_term_def mem_first_index_eq [OF wf] mem_wf_def split: if_splits)
  show "low < mem_first s \<Longrightarrow> st_entries (mem_env E) s low high sz c = Some (Inl (Store Compacted), s)"
    by (simp add: mem_env_def mem_entries_def mem_first_index_eq [OF wf])
  show "\<exists>r s'. st_snapshot (mem_env E) s i to = Some (r, s') \<and> mem_wf (pb_compute_size E) s'
      \<and> mem_first s' = mem_first s \<and> ms_entries s' = ms_entries s
      \<and> (r = Inl (Store SnapshotTemporarilyUnavailable) \<or> (\<exists>sn. r = Inr sn \<and> i \<le> snap_index sn))"
    using mem_snapshot_ok [OF wf] by (simp add: mem_env_def)
  assume r: "mem_first s \<le> low" "low < high" "high \<le> mem_first s + length (ms_entries s)"
  let ?es = "take (high - low) (drop (low - mem_first s) (ms_entries s))"
  have "sum_list (map (pb_compute_size E) ?es) \<le> sum_list (map (pb_compute_size E) (ms_entries s))"
    by (metis (no_types, lifting) sum_list_filter_split le_add1 le_add2 le_trans)
  then have "sum_list (map (pb_compute_size E) ?es) \<le> U64_MAX" using wf by (simp add: mem_wf_def)
  then obtain es where es: "limit_size (pb_compute_size E) ?es sz = Some es" using limit_size_ok by blast
  have ps: "pb_compute_size (mem_env E) = pb_compute_size E" by (simp add: mem_env_def)
  have eq: "st_entries (mem_env E) s low high sz c =
      (if ms_trigger_log_unavailable s \<and> can_async c
       then Some (Inl (Store LogTemporarilyUnavailable), s\<lparr>ms_get_entries_context := Some c\<rparr>)
       else Some (Inr es, s))"
    using mem_entries_in [OF wf r, of sz c] es by (simp add: mem_env_def)
  show "\<exists>r s'. st_entries (mem_env E) s low high sz c = Some (r, s') \<and> mem_wf (pb_compute_size E) s'
      \<and> mem_first s' = mem_first s \<and> ms_entries s' = ms_entries s
      \<and> (can_async c \<and> r = Inl (Store LogTemporarilyUnavailable)
         \<or> map_option Inr (limit_size (pb_compute_size (mem_env E)) ?es sz) = Some r)"
    unfolding eq ps es using wf by auto
qed

section \<open>The operations on the view\<close>

lemma mem_append_view:
  assumes wf: "mem_wf csize s" and "es \<noteq> []" and "mem_first s \<le> e_index (hd es)"
    and "e_index (hd es) \<le> mem_first s + length (ms_entries s)"
  shows "mem_append s es = Some (s\<lparr>ms_entries := take (e_index (hd es) - mem_first s) (ms_entries s) @ es\<rparr>)"
proof -
  have "mem_last_index s + 1 = mem_first s + length (ms_entries s)"
    using mem_last_index_eq [OF wf] wf by (auto simp: mem_wf_def)
  with assms show ?thesis
    by (simp add: mem_append_def mem_first_index_eq [OF wf] mem_wf_def)
qed

lemma mem_append_wf:
  assumes wf: "mem_wf csize s" and ne: "es \<noteq> []" and lo: "mem_first s \<le> e_index (hd es)"
    and hi: "e_index (hd es) \<le> mem_first s + length (ms_entries s)"
    and cont: "continuous_from (e_index (hd es)) es" and bound: "e_index (hd es) + length es \<le> U64_MAX"
    and keep: "hs_commit (ms_hard_state s) < e_index (hd es) + length es"
    and sz: "sum_list (map csize (ms_entries s)) + sum_list (map csize es) \<le> U64_MAX"
    and t: "mem_append s es = Some t"
  shows "mem_wf csize t \<and> mem_first t = mem_first s"
proof -
  let ?d = "e_index (hd es) - mem_first s"
  have t: "t = s\<lparr>ms_entries := take ?d (ms_entries s) @ es\<rparr>"
    using mem_append_view [OF wf ne lo hi] t by simp
  have d: "?d \<le> length (ms_entries s)" "mem_first s + ?d = e_index (hd es)" using lo hi by auto
  have f: "mem_first t = mem_first s"
  proof (cases "take ?d (ms_entries s)")
    case Nil
    with d lo have "e_index (hd es) = mem_first s" by auto
    with Nil t ne show ?thesis by (cases es) (auto simp: mem_first_def)
  next
    case (Cons a list)
    then have "hd (ms_entries s) = a" "ms_entries s \<noteq> []" by (cases "ms_entries s"; cases ?d; simp)+
    with Cons t show ?thesis by (cases "ms_entries s") (auto simp: mem_first_def)
  qed
  have "continuous_from (mem_first s) (take ?d (ms_entries s) @ es)"
    using wf cont d by (auto simp: continuous_append mem_wf_def min_def)
  moreover have "sum_list (map csize (take ?d (ms_entries s))) \<le> sum_list (map csize (ms_entries s))"
    by (metis sum_list_filter_split le_add1)
  ultimately show ?thesis
    using wf f t d bound keep sz by (auto simp: mem_wf_def min_def)
qed

lemma mem_compact_view:
  assumes wf: "mem_wf csize s" and c: "compact_index \<le> mem_last_index s"
  shows "mem_compact s compact_index = Some (s\<lparr>ms_entries := drop (compact_index - mem_first s) (ms_entries s)\<rparr>)"
proof (cases "compact_index \<le> mem_first s")
  case True
  then show ?thesis by (simp add: mem_compact_def mem_first_index_eq [OF wf])
next
  case False
  then have ne: "ms_entries s \<noteq> []" using c mem_last_index_eq [OF wf] by (cases "ms_entries s") auto
  then obtain e es where es: "ms_entries s = e # es" by (cases "ms_entries s") auto
  then have "e_index e = mem_first s" by (simp add: mem_first_def)
  moreover have "mem_last_index s + 1 \<le> U64_MAX" using wf mem_last_index_eq [OF wf] es by (auto simp: mem_wf_def)
  moreover have "compact_index - mem_first s \<le> length (ms_entries s)" using c mem_last_index_eq [OF wf] by auto
  ultimately show ?thesis using False c es
    by (simp add: mem_compact_def mem_first_index_eq [OF wf])
qed

lemma mem_compact_wf:
  assumes wf: "mem_wf csize s" and c: "compact_index \<le> hs_commit (ms_hard_state s)"
    and t: "mem_compact s compact_index = Some t"
  shows "mem_wf csize t \<and> mem_first t = max (mem_first s) compact_index"
proof -
  let ?d = "compact_index - mem_first s"
  have last: "compact_index \<le> mem_last_index s" using c wf mem_last_index_eq [OF wf] by (auto simp: mem_wf_def)
  then have t: "t = s\<lparr>ms_entries := drop ?d (ms_entries s)\<rparr>" using mem_compact_view [OF wf last] t by simp
  show ?thesis
  proof (cases "?d = 0")
    case True
    with t wf show ?thesis by (auto simp: mem_first_def)
  next
    case False
    then have d: "?d < length (ms_entries s)" "mem_first s + ?d = compact_index"
      using last mem_last_index_eq [OF wf] by auto
    then obtain e es where es: "drop ?d (ms_entries s) = e # es"
      by (metis Cons_nth_drop_Suc)
    have "e = ms_entries s ! ?d" using es d by (metis Cons_nth_drop_Suc list.inject)
    then have e: "e_index e = compact_index" using continuous_nth [of "mem_first s" "ms_entries s" ?d] wf d
      by (simp add: mem_wf_def)
    then have f: "mem_first t = compact_index" using t es by (simp add: mem_first_def)
    have "continuous_from compact_index (drop ?d (ms_entries s))"
      using continuous_drop [of "mem_first s" "ms_entries s" ?d] wf d by (simp add: mem_wf_def)
    moreover have "sum_list (map csize (drop ?d (ms_entries s))) \<le> sum_list (map csize (ms_entries s))"
      by (metis sum_list_filter_split le_add2)
    ultimately show ?thesis using wf f t d c by (auto simp: mem_wf_def max_def)
  qed
qed


lemma mem_apply_snapshot_view:
  assumes wf: "mem_wf csize s" and i: "snap_index sn < U64_MAX" and t: "mem_apply_snapshot s sn = Some (r, t)"
  shows "if snap_index sn < mem_first s then r = Inl (Store SnapshotOutOfDate) \<and> t = s
         else r = Inr () \<and> mem_wf csize t \<and> mem_first t = snap_index sn + 1 \<and> ms_entries t = []
           \<and> rs_conf_state (ms_raft_state t) = sm_conf_state (sn_metadata sn)"
  using t wf i by (auto simp: mem_apply_snapshot_def mem_first_index_eq [OF wf] mem_wf_def mem_first_def Let_def)

lemma mem_commit_to_wf:
  assumes wf: "mem_wf csize s" and t: "mem_commit_to s i = Some t"
  shows "mem_wf csize t \<and> mem_first t = mem_first s \<and> ms_entries t = ms_entries s \<and> hs_commit (ms_hard_state t) = i"
proof -
  have "ms_entries s \<noteq> [] \<and> mem_first s \<le> i \<and> i \<le> mem_last_index s"
    using t by (auto simp: mem_commit_to_def mem_has_entry_at_def mem_first_index_eq [OF wf] bind_eq_Some_conv split: if_splits)
  moreover have "\<exists>c. t = s\<lparr>ms_raft_state := (ms_raft_state s)\<lparr>rs_hard_state := (ms_hard_state s)\<lparr>hs_commit := i, hs_term := c\<rparr>\<rparr>\<rparr>"
    using t by (auto simp: mem_commit_to_def mem_set_hardstate_def bind_eq_Some_conv)
  ultimately show ?thesis
    using wf mem_last_index_eq [OF wf] by (auto simp: mem_wf_def mem_first_def split: list.splits)
qed

section \<open>Properties\<close>

text \<open>
  (C38) Appending to the memory storage and reading back: entries that follow or overwrite the log
  replace everything from their first index on, reading from there gives exactly the appended
  entries, and the terms below are untouched.
\<close>

theorem mem_append_read_back:
  assumes "mem_wf csize s" and "es \<noteq> []" and "mem_first s \<le> e_index (hd es)"
    and "e_index (hd es) \<le> mem_first s + length (ms_entries s)"
    and "continuous_from (e_index (hd es)) es" and "e_index (hd es) + length es \<le> U64_MAX"
    and "hs_commit (ms_hard_state s) < e_index (hd es) + length es"
    and "sum_list (map csize (ms_entries s)) + sum_list (map csize es) \<le> U64_MAX"
    and "\<not> can_async c"
  shows "\<exists>t. mem_append s es = Some t \<and> mem_wf csize t
     \<and> mem_last_index t = e_index (hd es) + length es - 1
     \<and> mem_entries csize t (e_index (hd es)) (mem_last_index t + 1) None c = Some (Inr es, t)
     \<and> (\<forall>i < e_index (hd es). mem_term t i = mem_term s i)"
proof -
  let ?d = "e_index (hd es) - mem_first s"
  let ?t = "s\<lparr>ms_entries := take ?d (ms_entries s) @ es\<rparr>"
  have a: "mem_append s es = Some ?t" by (rule mem_append_view [OF assms(1-4)])
  have wf: "mem_wf csize ?t" "mem_first ?t = mem_first s" using mem_append_wf [OF assms(1-8) a] by auto
  have last: "mem_last_index ?t = e_index (hd es) + length es - 1"
  proof -
    have "min (length (ms_entries s)) ?d = ?d" using assms(3,4) by simp
    then show ?thesis using mem_last_index_eq [OF wf(1)] wf(2) assms(3) by simp
  qed
  have pos: "0 < length es" using assms(2) by simp
  have "mem_entries csize ?t (e_index (hd es)) (e_index (hd es) + length es) None c = Some (Inr es, ?t)"
    using mem_entries_in [OF wf(1), of "e_index (hd es)" "e_index (hd es) + length es" None c] wf(2) assms(3,4,9) pos
    by simp
  moreover have "mem_last_index ?t + 1 = e_index (hd es) + length es" using last pos by simp
  moreover have "mem_term ?t i = mem_term s i" if "i < e_index (hd es)" for i
  proof (cases "i < mem_first s")
    case True
    then show ?thesis
      by (simp add: mem_term_def mem_first_index_eq [OF wf(1)] mem_first_index_eq [OF assms(1)] wf(2))
  next
    case False
    define k where "k = i - mem_first s"
    have k: "i = mem_first s + k" "k < ?d" using False that by (auto simp: k_def)
    have "mem_term ?t i = Some (Inr (e_term ((take ?d (ms_entries s) @ es) ! k)))"
      using mem_term_in [OF wf(1), of k] wf(2) assms(4) k by simp
    also have "(take ?d (ms_entries s) @ es) ! k = ms_entries s ! k" using k(2) assms(4) by (simp add: nth_append)
    finally show ?thesis using mem_term_in [OF assms(1), of k] k assms(4) by simp
  qed
  ultimately show ?thesis using a wf(1) last by auto
qed

lemma mem_append_read_back_witness:
  "\<exists>t. mem_append mem_new [default_entry\<lparr>e_index := 1, e_term := 7\<rparr>] = Some t \<and> mem_last_index t = 1"
proof -
  let ?e = "default_entry\<lparr>e_index := 1, e_term := 7\<rparr>"
  have "mem_wf (\<lambda>_. 0) mem_new"
    by (simp add: mem_wf_def mem_new_def mem_first_def default_snapshot_metadata_def default_hard_state_def)
  from mem_append_read_back [OF this, of "[?e]" GenReady] show ?thesis
    by (auto simp: mem_new_def mem_first_def default_snapshot_metadata_def continuous_from_def
        default_hard_state_def can_async_def)
qed

text \<open>
  (C39) Compacting a non-empty memory log up to one past its last index, which the documentation of
  \<open>compact\<close> allows, makes the store forget where it was: the first index falls back to the one after
  the last snapshot, below the compaction index and even below the old first index.
\<close>

theorem mem_compact_all_forgets_position:
  assumes "mem_wf csize s" and "ms_entries s \<noteq> []"
  shows "\<exists>t. mem_compact s (mem_last_index s + 1) = Some t \<and> ms_entries t = []
     \<and> mem_first_index t = Some (sm_index (ms_snapshot_metadata s) + 1)
     \<and> mem_last_index t = sm_index (ms_snapshot_metadata s)
     \<and> sm_index (ms_snapshot_metadata s) + 1 < mem_last_index s + 1"
proof -
  obtain e es where es: "ms_entries s = e # es" using assms(2) by (cases "ms_entries s") auto
  have l: "mem_last_index s = mem_first s + length es" using mem_last_index_eq [OF assms(1)] es by simp
  have f: "e_index e = mem_first s" using es by (simp add: mem_first_def)
  have lt: "sm_index (ms_snapshot_metadata s) < mem_first s" "mem_first s + length es + 1 \<le> U64_MAX"
    using assms(1) es by (auto simp: mem_wf_def)
  have "mem_compact s (mem_last_index s + 1) = Some (s\<lparr>ms_entries := []\<rparr>)"
    using l f es lt by (simp add: mem_compact_def mem_first_index_eq [OF assms(1)])
  with l lt show ?thesis by (simp add: mem_first_index_def mem_last_index_def)
qed

lemma mem_compact_all_forgets_position_witness:
  "\<exists>t. mem_compact (mem_new\<lparr>ms_entries := [default_entry\<lparr>e_index := 1\<rparr>, default_entry\<lparr>e_index := 2\<rparr>]\<rparr>) 3 = Some t
     \<and> mem_first_index t = Some 1"
proof -
  let ?s = "mem_new\<lparr>ms_entries := [default_entry\<lparr>e_index := 1\<rparr>, default_entry\<lparr>e_index := 2\<rparr>]\<rparr>"
  have "mem_wf (\<lambda>_. 0) ?s"
    by (simp add: mem_wf_def mem_new_def mem_first_def default_snapshot_metadata_def default_hard_state_def
        continuous_Cons)
  from mem_compact_all_forgets_position [OF this] show ?thesis
    by (auto simp: mem_last_index_def mem_new_def default_snapshot_metadata_def)
qed

end
