(* ===== verification/Log_Unstable.thy ===== *)
theory Log_Unstable
  imports Storage
begin

text \<open>
  \<open>src/log_unstable.rs\<close>: the part of the log that is not in storage yet, a suffix of entries from
  \<open>offset\<close> on and possibly a snapshot that waits to be applied.

  \<open>unstable_inv\<close> is the invariant: the entries follow each other from \<open>offset\<close>, their recorded size
  is the sum of their sizes, and a pending snapshot ends right below \<open>offset\<close>.
\<close>

section \<open>State and operations\<close>

record unstable =
  un_snapshot :: "snapshot option"
  un_entries :: "entry list"
  un_entries_size :: usize
  un_offset :: u64

definition unstable_new :: "u64 \<Rightarrow> unstable" where
  "unstable_new offset =
     \<lparr>un_snapshot = None, un_entries = [], un_entries_size = 0, un_offset = offset\<rparr>"

text \<open>The outer option is a panic, the inner one the answer.\<close>

definition maybe_first_index :: "unstable \<Rightarrow> u64 option option" where
  "maybe_first_index u =
     (case un_snapshot u of
        None \<Rightarrow> Some None
      | Some snap \<Rightarrow> do { i \<leftarrow> u64_add (snap_index snap) 1; Some (Some i) })"

definition maybe_last_index :: "unstable \<Rightarrow> u64 option option" where
  "maybe_last_index u =
     (if length (un_entries u) = 0 then Some (map_option (\<lambda>snap. snap_index snap) (un_snapshot u))
      else do {
        s \<leftarrow> u64_add (un_offset u) (length (un_entries u));
        l \<leftarrow> u64_sub s 1;
        Some (Some l)
      })"

definition maybe_term :: "unstable \<Rightarrow> u64 \<Rightarrow> u64 option option" where
  "maybe_term u idx =
     (if idx < un_offset u then
        (case un_snapshot u of
           None \<Rightarrow> Some None
         | Some snap \<Rightarrow> Some (if idx = snap_index snap then Some (snap_term snap) else None))
      else do {
        l \<leftarrow> maybe_last_index u;
        (case l of
           None \<Rightarrow> Some None
         | Some last_idx \<Rightarrow>
             if idx > last_idx then Some None
             else do {
               e \<leftarrow> vec_get (un_entries u) (idx - un_offset u);
               Some (Some (e_term e))
             })
      })"

definition unstable_stable_entries :: "unstable \<Rightarrow> u64 \<Rightarrow> u64 \<Rightarrow> unstable option" where
  "unstable_stable_entries u index term =
     do {
       rust_assert (un_snapshot u = None);
       e \<leftarrow> vec_last (un_entries u);
       rust_assert (\<not> (e_index e \<noteq> index \<or> e_term e \<noteq> term));
       off \<leftarrow> u64_add (e_index e) 1;
       Some (u\<lparr>un_offset := off, un_entries := [], un_entries_size := 0\<rparr>)
     }"

definition unstable_stable_snap :: "unstable \<Rightarrow> u64 \<Rightarrow> unstable option" where
  "unstable_stable_snap u index =
     (case un_snapshot u of
        None \<Rightarrow> None
      | Some snap \<Rightarrow> if snap_index snap \<noteq> index then None else Some (u\<lparr>un_snapshot := None\<rparr>))"

definition unstable_restore :: "unstable \<Rightarrow> snapshot \<Rightarrow> unstable option" where
  "unstable_restore u snap =
     do {
       off \<leftarrow> u64_add (snap_index snap) 1;
       Some (u\<lparr>un_entries := [], un_entries_size := 0, un_offset := off, un_snapshot := Some snap\<rparr>)
     }"

definition unstable_must_check_outofbounds :: "unstable \<Rightarrow> u64 \<Rightarrow> u64 \<Rightarrow> unit option" where
  "unstable_must_check_outofbounds u lo hi =
     do {
       rust_assert (\<not> lo > hi);
       upper \<leftarrow> u64_add (un_offset u) (length (un_entries u));
       rust_assert (\<not> (lo < un_offset u \<or> hi > upper))
     }"

fun sum_sizes :: "usize \<Rightarrow> entry list \<Rightarrow> usize option" where
  "sum_sizes acc [] = Some acc"
| "sum_sizes acc (e # es) =
     do { n \<leftarrow> entry_approximate_size e; acc \<leftarrow> u64_add acc n; sum_sizes acc es }"

fun sub_sizes :: "usize \<Rightarrow> entry list \<Rightarrow> usize option" where
  "sub_sizes acc [] = Some acc"
| "sub_sizes acc (e # es) =
     do { n \<leftarrow> entry_approximate_size e; acc \<leftarrow> u64_sub acc n; sub_sizes acc es }"

definition truncate_and_append :: "unstable \<Rightarrow> entry list \<Rightarrow> unstable option" where
  "truncate_and_append u ents =
     do {
       e0 \<leftarrow> vec_get ents 0;
       let after = e_index e0;
       end \<leftarrow> u64_add (un_offset u) (length (un_entries u));
       u \<leftarrow>
         (if after = end then Some u
          else if after \<le> un_offset u then
            Some (u\<lparr>un_offset := after, un_entries := [], un_entries_size := 0\<rparr>)
          else do {
            unstable_must_check_outofbounds u (un_offset u) after;
            dropped \<leftarrow> vec_from (un_entries u) (after - un_offset u);
            sz \<leftarrow> sub_sizes (un_entries_size u) dropped;
            Some (u\<lparr>un_entries_size := sz, un_entries := take (after - un_offset u) (un_entries u)\<rparr>)
          });
       added \<leftarrow> sum_sizes 0 ents;
       sz \<leftarrow> u64_add (un_entries_size u) added;
       Some (u\<lparr>un_entries := un_entries u @ ents, un_entries_size := sz\<rparr>)
     }"

definition unstable_slice :: "unstable \<Rightarrow> u64 \<Rightarrow> u64 \<Rightarrow> entry list option" where
  "unstable_slice u lo hi =
     do {
       unstable_must_check_outofbounds u lo hi;
       l \<leftarrow> u64_sub lo (un_offset u);
       h \<leftarrow> u64_sub hi (un_offset u);
       vec_range (un_entries u) l h
     }"

section \<open>Sizes\<close>

definition entry_size :: "entry \<Rightarrow> nat" where
  "entry_size e = length (e_data e) + length (e_context e) + 12"

abbreviation total_size :: "entry list \<Rightarrow> nat" where
  "total_size es \<equiv> sum_list (map entry_size es)"

lemma entry_approximate_size_Some:
  "entry_approximate_size e = Some n \<longleftrightarrow> n = entry_size e \<and> entry_size e \<le> U64_MAX"
  by (auto simp: entry_approximate_size_def entry_size_def bind_eq_Some_conv)

lemma entry_approximate_size_ok: "entry_size e \<le> U64_MAX \<Longrightarrow> entry_approximate_size e = Some (entry_size e)"
  by (simp add: entry_approximate_size_Some)

lemma sum_sizes_ok: "acc + total_size es \<le> U64_MAX \<Longrightarrow> sum_sizes acc es = Some (acc + total_size es)"
  by (induction es arbitrary: acc) (simp_all add: entry_approximate_size_ok add.assoc)

lemma sum_sizes_Some: "sum_sizes acc es = Some n \<Longrightarrow> n = acc + total_size es"
  by (induction es arbitrary: acc) (fastforce simp: bind_eq_Some_conv entry_approximate_size_Some)+

lemma sub_sizes_ok:
  "total_size es \<le> acc \<Longrightarrow> acc \<le> U64_MAX \<Longrightarrow> sub_sizes acc es = Some (acc - total_size es)"
  by (induction es arbitrary: acc) (simp_all add: entry_approximate_size_ok)

lemma sub_sizes_Some: "sub_sizes acc es = Some n \<Longrightarrow> total_size es \<le> acc \<and> n = acc - total_size es"
  by (induction es arbitrary: acc) (fastforce simp: bind_eq_Some_conv entry_approximate_size_Some)+

section \<open>Invariant\<close>

definition unstable_inv :: "unstable \<Rightarrow> bool" where
  "unstable_inv u \<longleftrightarrow>
     continuous_from (un_offset u) (un_entries u)
     \<and> 0 < un_offset u \<and> un_offset u + length (un_entries u) \<le> U64_MAX
     \<and> un_entries_size u = total_size (un_entries u) \<and> un_entries_size u \<le> U64_MAX
     \<and> (case un_snapshot u of None \<Rightarrow> True | Some snap \<Rightarrow> snap_index snap + 1 = un_offset u)"

lemma unstable_new_inv: "0 < offset \<Longrightarrow> offset \<le> U64_MAX \<Longrightarrow> unstable_inv (unstable_new offset)"
  by (simp add: unstable_inv_def unstable_new_def)

lemma maybe_first_index_eq:
  "unstable_inv u \<Longrightarrow> maybe_first_index u = Some (map_option (\<lambda>_. un_offset u) (un_snapshot u))"
  by (auto simp: unstable_inv_def maybe_first_index_def split: option.splits)

lemma maybe_last_index_eq:
  assumes "unstable_inv u"
  shows "maybe_last_index u =
     Some (if un_entries u = [] \<and> un_snapshot u = None then None
           else Some (un_offset u + length (un_entries u) - 1))"
  using assms by (cases "un_entries u") (auto simp: unstable_inv_def maybe_last_index_def split: option.splits)

lemma maybe_term_eq:
  assumes inv: "unstable_inv u"
  shows "maybe_term u idx =
     Some (if idx < un_offset u then
             (case un_snapshot u of
                None \<Rightarrow> None | Some snap \<Rightarrow> if idx + 1 = un_offset u then Some (snap_term snap) else None)
           else if idx < un_offset u + length (un_entries u)
           then Some (e_term (un_entries u ! (idx - un_offset u))) else None)"
proof (cases "idx < un_offset u")
  case True
  with inv show ?thesis by (auto simp: maybe_term_def unstable_inv_def split: option.splits)
next
  case False
  with inv show ?thesis
    by (auto simp: maybe_term_def maybe_last_index_eq [OF inv] unstable_inv_def)
qed

lemma unstable_stable_entries_inv:
  assumes inv: "unstable_inv u" and "unstable_stable_entries u i t = Some v" and "i < U64_MAX"
  shows "unstable_inv v \<and> un_offset v = un_offset u + length (un_entries u) \<and> un_entries v = []
     \<and> un_snapshot v = None \<and> un_snapshot u = None \<and> i + 1 = un_offset v"
proof -
  have v: "un_entries u \<noteq> []" "e_index (last (un_entries u)) = i" "un_snapshot u = None"
    "v = u\<lparr>un_offset := i + 1, un_entries := [], un_entries_size := 0\<rparr>"
    using assms(2) by (auto simp: unstable_stable_entries_def bind_eq_Some_conv)
  then have "i + 1 = un_offset u + length (un_entries u)"
    using continuous_last [of "un_offset u" "un_entries u"] inv by (cases "un_entries u") (auto simp: unstable_inv_def)
  with v inv show ?thesis by (simp add: unstable_inv_def)
qed

lemma unstable_stable_snap_inv:
  "unstable_inv u \<Longrightarrow> unstable_stable_snap u i = Some v \<Longrightarrow> unstable_inv v \<and> v = u\<lparr>un_snapshot := None\<rparr>"
  by (auto simp: unstable_stable_snap_def unstable_inv_def split: option.splits if_splits)

lemma unstable_restore_inv:
  "unstable_restore u sn = Some v \<Longrightarrow>
     unstable_inv v \<and> un_offset v = snap_index sn + 1 \<and> un_entries v = [] \<and> un_snapshot v = Some sn"
  by (auto simp: unstable_restore_def unstable_inv_def bind_eq_Some_conv)

text \<open>
  Appending keeps what is below the first new index and replaces the rest, whether the new entries
  extend the buffer, cut into it or start below it.
\<close>

lemma truncate_and_append_eq:
  assumes inv: "unstable_inv u" and ne: "ents \<noteq> []" and hi: "e_index (hd ents) \<le> un_offset u + length (un_entries u)"
    and sz: "total_size (un_entries u) + total_size ents \<le> U64_MAX"
  shows "\<exists>n. truncate_and_append u ents = Some (u\<lparr>un_offset := min (un_offset u) (e_index (hd ents)),
     un_entries := take (e_index (hd ents) - un_offset u) (un_entries u) @ ents, un_entries_size := n\<rparr>)
     \<and> n = total_size (take (e_index (hd ents) - un_offset u) (un_entries u)) + total_size ents"
proof -
  let ?a = "e_index (hd ents)" and ?k = "e_index (hd ents) - un_offset u"
  have g: "vec_get ents 0 = Some (hd ents)" using ne by (cases ents) auto
  have added: "sum_sizes 0 ents = Some (total_size ents)" using sum_sizes_ok [of 0 ents] sz by simp
  have b: "un_offset u + length (un_entries u) \<le> U64_MAX" "un_entries_size u = total_size (un_entries u)"
    using inv by (auto simp: unstable_inv_def)
  consider (ext) "?a = un_offset u + length (un_entries u)" | (below) "?a \<le> un_offset u" "?a \<noteq> un_offset u + length (un_entries u)"
    | (cut) "un_offset u < ?a" "?a < un_offset u + length (un_entries u)"
    using hi by linarith
  then show ?thesis
  proof cases
    case ext
    then show ?thesis using g added b sz by (simp add: truncate_and_append_def Let_def min_def)
  next
    case below
    then show ?thesis using g added b sz by (simp add: truncate_and_append_def Let_def min_def)
  next
    case cut
    have split: "total_size (un_entries u) = total_size (take ?k (un_entries u)) + total_size (drop ?k (un_entries u))"
      by (rule sum_list_filter_split)
    then have "sub_sizes (un_entries_size u) (drop ?k (un_entries u)) = Some (total_size (take ?k (un_entries u)))"
      using sub_sizes_ok [of "drop ?k (un_entries u)" "un_entries_size u"] b(2) sz by simp
    with cut g added b sz split show ?thesis
      by (simp add: truncate_and_append_def unstable_must_check_outofbounds_def Let_def min_def)
  qed
qed

lemma truncate_and_append_inv:
  assumes inv: "unstable_inv u" and ne: "ents \<noteq> []" and hi: "e_index (hd ents) \<le> un_offset u + length (un_entries u)"
    and sz: "total_size (un_entries u) + total_size ents \<le> U64_MAX"
    and cont: "continuous_from (e_index (hd ents)) ents" "0 < e_index (hd ents)"
    and bd: "e_index (hd ents) + length ents \<le> U64_MAX"
    and snap: "un_snapshot u \<noteq> None \<longrightarrow> un_offset u \<le> e_index (hd ents)"
    and v: "truncate_and_append u ents = Some v"
  shows "unstable_inv v"
proof -
  let ?k = "e_index (hd ents) - un_offset u"
  have v: "un_offset v = min (un_offset u) (e_index (hd ents))" "un_entries v = take ?k (un_entries u) @ ents"
    "un_snapshot v = un_snapshot u" "un_entries_size v = total_size (take ?k (un_entries u)) + total_size ents"
    using truncate_and_append_eq [OF inv ne hi sz] v by auto
  have "continuous_from (un_offset v) (un_entries v)"
  proof (cases "e_index (hd ents) \<le> un_offset u")
    case True
    with v cont show ?thesis by (simp add: min_def)
  next
    case False
    then have "length (take ?k (un_entries u)) = ?k" "un_offset u + ?k = e_index (hd ents)" using hi by auto
    with False v cont inv show ?thesis by (auto simp: continuous_append unstable_inv_def min_def)
  qed
  moreover have "total_size (take ?k (un_entries u)) \<le> total_size (un_entries u)"
    by (metis sum_list_filter_split le_add1)
  ultimately show ?thesis using inv v cont bd snap sz hi
    by (auto simp: unstable_inv_def min_def split: option.splits)
qed

lemma unstable_slice_eq:
  assumes "unstable_inv u" and "un_offset u \<le> lo" and "lo \<le> hi" and "hi \<le> un_offset u + length (un_entries u)"
  shows "unstable_slice u lo hi = Some (take (hi - lo) (drop (lo - un_offset u) (un_entries u)))"
proof -
  have "hi - un_offset u - (lo - un_offset u) = hi - lo" using assms by simp
  with assms show ?thesis
    by (simp add: unstable_slice_def unstable_must_check_outofbounds_def unstable_inv_def)
qed

end
