(* ===== verification/Raft_Log.thy ===== *)
theory Raft_Log
  imports Log_Unstable
begin

text \<open>
  \<open>src/raft_log.rs\<close>: the log of a node, its stored part read through the \<open>Storage\<close> trait and its
  unstable suffix, with the committed, persisted and applied positions.

  The view of a log is its first index and the list of its entries (\<open>log_first\<close>, \<open>log_ents\<close>), over
  any store that keeps the contract \<open>log_storage\<close>; the lemmas in that locale say what every
  operation does to the view.
\<close>

section \<open>State and operations\<close>

record 's raft_log =
  rl_store :: 's
  rl_unstable :: unstable
  rl_committed :: u64
  rl_persisted :: u64
  rl_applied :: u64
  rl_max_apply_unpersisted_log_limit :: u64

definition raft_log_new :: "'s env \<Rightarrow> 's \<Rightarrow> config \<Rightarrow> 's raft_log option" where
  "raft_log_new E store cfg =
     do {
       fr \<leftarrow> st_first_index E store;
       first_index \<leftarrow> unwrap fr;
       lr \<leftarrow> st_last_index E store;
       last_index \<leftarrow> unwrap lr;
       start \<leftarrow> u64_sub first_index 1;
       off \<leftarrow> u64_add last_index 1;
       Some \<lparr>rl_store = store, rl_unstable = unstable_new off, rl_committed = start,
             rl_persisted = last_index, rl_applied = start,
             rl_max_apply_unpersisted_log_limit = cf_max_apply_unpersisted_log_limit cfg\<rparr>
     }"

definition log_first_index :: "'s env \<Rightarrow> 's raft_log \<Rightarrow> u64 option" where
  "log_first_index E l =
     do {
       m \<leftarrow> maybe_first_index (rl_unstable l);
       (case m of
          Some idx \<Rightarrow> Some idx
        | None \<Rightarrow> do { r \<leftarrow> st_first_index E (rl_store l); unwrap r })
     }"

definition log_last_index :: "'s env \<Rightarrow> 's raft_log \<Rightarrow> u64 option" where
  "log_last_index E l =
     do {
       m \<leftarrow> maybe_last_index (rl_unstable l);
       (case m of
          Some idx \<Rightarrow> Some idx
        | None \<Rightarrow> do { r \<leftarrow> st_last_index E (rl_store l); unwrap r })
     }"

definition log_term :: "'s env \<Rightarrow> 's raft_log \<Rightarrow> u64 \<Rightarrow> u64 result option" where
  "log_term E l idx =
     do {
       first_index \<leftarrow> log_first_index E l;
       dummy_idx \<leftarrow> u64_sub first_index 1;
       last_index \<leftarrow> log_last_index E l;
       if idx < dummy_idx \<or> idx > last_index then Some (Inr 0)
       else do {
         m \<leftarrow> maybe_term (rl_unstable l) idx;
         (case m of
            Some t \<Rightarrow> Some (Inr t)
          | None \<Rightarrow> do {
              r \<leftarrow> st_term E (rl_store l) idx;
              (case r of
                 Inr t \<Rightarrow> Some (Inr t)
               | Inl e \<Rightarrow> if e = Store Compacted \<or> e = Store Unavailable then Some (Inl e) else None)
            })
       }
     }"

definition log_last_term :: "'s env \<Rightarrow> 's raft_log \<Rightarrow> u64 option" where
  "log_last_term E l = do { last_index \<leftarrow> log_last_index E l; r \<leftarrow> log_term E l last_index; unwrap r }"

definition match_term :: "'s env \<Rightarrow> 's raft_log \<Rightarrow> u64 \<Rightarrow> u64 \<Rightarrow> bool option" where
  "match_term E l idx term =
     do { r \<leftarrow> log_term E l idx; Some (case r of Inl _ \<Rightarrow> False | Inr t \<Rightarrow> t = term) }"

fun find_conflict :: "'s env \<Rightarrow> 's raft_log \<Rightarrow> entry list \<Rightarrow> u64 option" where
  "find_conflict E l [] = Some 0"
| "find_conflict E l (e # es) =
     do {
       same \<leftarrow> match_term E l (e_index e) (e_term e);
       if \<not> same then do {
         last_index \<leftarrow> log_last_index E l;
         Some (e_index e)
       }
       else find_conflict E l es
     }"

text \<open>The loop of \<open>find_conflict_by_term\<close> walks down one index at a time.\<close>

function conflict_scan :: "'s env \<Rightarrow> 's raft_log \<Rightarrow> u64 \<Rightarrow> u64 \<Rightarrow> (u64 \<times> u64 option) option" where
  "conflict_scan E l term conflict_index =
     do {
       r \<leftarrow> log_term E l conflict_index;
       (case r of
          Inl _ \<Rightarrow> Some (conflict_index, None)
        | Inr t \<Rightarrow>
            if t > term then
              (if 1 \<le> conflict_index then conflict_scan E l term (conflict_index - 1) else None)
            else Some (conflict_index, Some t))
     }"
  by pat_completeness auto
termination by (relation "measure (\<lambda>(_, _, _, i). i)") auto

declare conflict_scan.simps [simp del]

definition find_conflict_by_term :: "'s env \<Rightarrow> 's raft_log \<Rightarrow> u64 \<Rightarrow> u64 \<Rightarrow> (u64 \<times> u64 option) option" where
  "find_conflict_by_term E l index term =
     do {
       last_index \<leftarrow> log_last_index E l;
       if index > last_index then Some (index, None)
       else conflict_scan E l term index
     }"

definition commit_to :: "'s env \<Rightarrow> 's raft_log \<Rightarrow> u64 \<Rightarrow> 's raft_log option" where
  "commit_to E l to_commit =
     (if rl_committed l \<ge> to_commit then Some l
      else do {
        last_index \<leftarrow> log_last_index E l;
        rust_assert (\<not> last_index < to_commit);
        Some (l\<lparr>rl_committed := to_commit\<rparr>)
      })"

definition log_append :: "'s env \<Rightarrow> 's raft_log \<Rightarrow> entry list \<Rightarrow> (u64 \<times> 's raft_log) option" where
  "log_append E l ents =
     (if ents = [] then do { i \<leftarrow> log_last_index E l; Some (i, l) }
      else do {
        after \<leftarrow> u64_sub (e_index (hd ents)) 1;
        rust_assert (\<not> after < rl_committed l);
        u \<leftarrow> truncate_and_append (rl_unstable l) ents;
        let l = l\<lparr>rl_unstable := u\<rparr>;
        i \<leftarrow> log_last_index E l;
        Some (i, l)
      })"

definition maybe_append ::
  "'s env \<Rightarrow> 's raft_log \<Rightarrow> u64 \<Rightarrow> u64 \<Rightarrow> u64 \<Rightarrow> entry list \<Rightarrow> ((u64 \<times> u64) option \<times> 's raft_log) option" where
  "maybe_append E l idx term committed ents =
     do {
       same \<leftarrow> match_term E l idx term;
       if same then do {
         conflict_idx \<leftarrow> find_conflict E l ents;
         l \<leftarrow>
           (if conflict_idx = 0 then Some l
            else if conflict_idx \<le> rl_committed l then None
            else do {
              nxt \<leftarrow> u64_add idx 1;
              start \<leftarrow> u64_sub conflict_idx nxt;
              rest \<leftarrow> vec_from ents start;
              (_, l) \<leftarrow> log_append E l rest;
              prev \<leftarrow> u64_sub conflict_idx 1;
              Some (if rl_persisted l > prev then l\<lparr>rl_persisted := prev\<rparr> else l)
            });
         last_new_index \<leftarrow> u64_add idx (length ents);
         l \<leftarrow> commit_to E l (min committed last_new_index);
         Some (Some (conflict_idx, last_new_index), l)
       }
       else Some (None, l)
     }"

definition applied_to_unchecked :: "'s raft_log \<Rightarrow> u64 \<Rightarrow> 's raft_log" where
  "applied_to_unchecked l idx = l\<lparr>rl_applied := idx\<rparr>"

definition applied_to :: "'s raft_log \<Rightarrow> u64 \<Rightarrow> 's raft_log option" where
  "applied_to l idx =
     (if idx = 0 then Some l
      else do {
        rust_assert (\<not> (idx > rl_committed l \<or> idx < rl_applied l));
        Some (applied_to_unchecked l idx)
      })"

definition log_stable_entries :: "'s raft_log \<Rightarrow> u64 \<Rightarrow> u64 \<Rightarrow> 's raft_log option" where
  "log_stable_entries l index term =
     do { u \<leftarrow> unstable_stable_entries (rl_unstable l) index term; Some (l\<lparr>rl_unstable := u\<rparr>) }"

definition log_stable_snap :: "'s raft_log \<Rightarrow> u64 \<Rightarrow> 's raft_log option" where
  "log_stable_snap l index =
     do { u \<leftarrow> unstable_stable_snap (rl_unstable l) index; Some (l\<lparr>rl_unstable := u\<rparr>) }"

definition log_must_check_outofbounds :: "'s env \<Rightarrow> 's raft_log \<Rightarrow> u64 \<Rightarrow> u64 \<Rightarrow> raft_error option option" where
  "log_must_check_outofbounds E l low high =
     do {
       rust_assert (\<not> low > high);
       first_index \<leftarrow> log_first_index E l;
       if low < first_index then Some (Some (Store Compacted))
       else do {
         last_index \<leftarrow> log_last_index E l;
         end \<leftarrow> u64_add last_index 1;
         len \<leftarrow> u64_sub end first_index;
         upper \<leftarrow> u64_add first_index len;
         rust_assert (\<not> (low < first_index \<or> high > upper));
         Some None
       }
     }"

definition log_slice ::
  "'s env \<Rightarrow> 's raft_log \<Rightarrow> u64 \<Rightarrow> u64 \<Rightarrow> u64 option \<Rightarrow> get_entries_for
     \<Rightarrow> (entry list result \<times> 's raft_log) option" where
  "log_slice E l low high max_size context =
     do {
       err \<leftarrow> log_must_check_outofbounds E l low high;
       (case err of
          Some e \<Rightarrow> Some (Inl e, l)
        | None \<Rightarrow>
            if low = high then Some (Inr [], l)
            else do {
              let off = un_offset (rl_unstable l);
              (early, ents, l) \<leftarrow>
                (if low < off then do {
                   let unstable_high = min high off;
                   (r, store) \<leftarrow> st_entries E (rl_store l) low unstable_high max_size context;
                   let l = l\<lparr>rl_store := store\<rparr>;
                   (case r of
                      Inl e \<Rightarrow>
                        if e = Store Compacted \<or> e = Store LogTemporarilyUnavailable
                        then Some (Some (Inl e), [], l) else None
                    | Inr ents \<Rightarrow> do {
                        n \<leftarrow> u64_sub unstable_high low;
                        Some (if length ents < n then Some (Inr ents) else None, ents, l)
                      })
                 } else Some (None, [], l));
              (case early of
                 Some r \<Rightarrow> Some (r, l)
               | None \<Rightarrow> do {
                   ents \<leftarrow>
                     (if high > off then do {
                        more \<leftarrow> unstable_slice (rl_unstable l) (max low off) high;
                        Some (ents @ more)
                      } else Some ents);
                   ents \<leftarrow> limit_size (pb_compute_size E) ents max_size;
                   Some (Inr ents, l)
                 })
            })
     }"

definition log_entries ::
  "'s env \<Rightarrow> 's raft_log \<Rightarrow> u64 \<Rightarrow> u64 option \<Rightarrow> get_entries_for \<Rightarrow> (entry list result \<times> 's raft_log) option" where
  "log_entries E l idx max_size context =
     do {
       last_index \<leftarrow> log_last_index E l;
       if idx > last_index then Some (Inr [], l)
       else do {
         high \<leftarrow> u64_add last_index 1;
         log_slice E l idx high max_size context
       }
     }"

definition is_up_to_date :: "'s env \<Rightarrow> 's raft_log \<Rightarrow> u64 \<Rightarrow> u64 \<Rightarrow> bool option" where
  "is_up_to_date E l last_index term =
     do {
       lt \<leftarrow> log_last_term E l;
       if term > lt then Some True
       else if term = lt then do { li \<leftarrow> log_last_index E l; Some (last_index \<ge> li) }
       else Some False
     }"

definition applied_index_upper_bound :: "'s raft_log \<Rightarrow> u64 option" where
  "applied_index_upper_bound l =
     do {
       p \<leftarrow> u64_add (rl_persisted l) (rl_max_apply_unpersisted_log_limit l);
       Some (min (rl_committed l) p)
     }"

definition has_next_entries_since :: "'s env \<Rightarrow> 's raft_log \<Rightarrow> u64 \<Rightarrow> bool option" where
  "has_next_entries_since E l since_idx =
     do {
       s \<leftarrow> u64_add since_idx 1;
       first_index \<leftarrow> log_first_index E l;
       ub \<leftarrow> applied_index_upper_bound l;
       high \<leftarrow> u64_add ub 1;
       Some (high > max s first_index)
     }"

definition has_next_entries :: "'s env \<Rightarrow> 's raft_log \<Rightarrow> bool option" where
  "has_next_entries E l = has_next_entries_since E l (rl_applied l)"

definition next_entries_since ::
  "'s env \<Rightarrow> 's raft_log \<Rightarrow> u64 \<Rightarrow> u64 option \<Rightarrow> (entry list option \<times> 's raft_log) option" where
  "next_entries_since E l since_idx max_size =
     do {
       s \<leftarrow> u64_add since_idx 1;
       first_index \<leftarrow> log_first_index E l;
       let off = max s first_index;
       ub \<leftarrow> applied_index_upper_bound l;
       high \<leftarrow> u64_add ub 1;
       if high > off then do {
         (r, l) \<leftarrow> log_slice E l off high max_size GenReady;
         ents \<leftarrow> unwrap r;
         Some (Some ents, l)
       }
       else Some (None, l)
     }"

definition next_entries :: "'s env \<Rightarrow> 's raft_log \<Rightarrow> u64 option \<Rightarrow> (entry list option \<times> 's raft_log) option" where
  "next_entries E l max_size = next_entries_since E l (rl_applied l) max_size"

definition log_snapshot :: "'s env \<Rightarrow> 's raft_log \<Rightarrow> u64 \<Rightarrow> u64 \<Rightarrow> (snapshot result \<times> 's raft_log) option" where
  "log_snapshot E l request_index to =
     (case un_snapshot (rl_unstable l) of
        Some snap \<Rightarrow>
          if snap_index snap \<ge> request_index then Some (Inr snap, l)
          else do {
            (r, store) \<leftarrow> st_snapshot E (rl_store l) request_index to;
            Some (r, l\<lparr>rl_store := store\<rparr>)
          }
      | None \<Rightarrow> do {
          (r, store) \<leftarrow> st_snapshot E (rl_store l) request_index to;
          Some (r, l\<lparr>rl_store := store\<rparr>)
        })"

definition pending_snapshot :: "'s raft_log \<Rightarrow> snapshot option" where
  "pending_snapshot l = un_snapshot (rl_unstable l)"

definition log_maybe_commit :: "'s env \<Rightarrow> 's raft_log \<Rightarrow> u64 \<Rightarrow> u64 \<Rightarrow> (bool \<times> 's raft_log) option" where
  "log_maybe_commit E l max_index term =
     (if max_index > rl_committed l then do {
        r \<leftarrow> log_term E l max_index;
        if r = Inr term then do {
          l \<leftarrow> commit_to E l max_index;
          Some (True, l)
        }
        else Some (False, l)
      }
      else Some (False, l))"

definition log_maybe_persist :: "'s env \<Rightarrow> 's raft_log \<Rightarrow> u64 \<Rightarrow> u64 \<Rightarrow> (bool \<times> 's raft_log) option" where
  "log_maybe_persist E l index term =
     (let first_update_index =
            (case un_snapshot (rl_unstable l) of
               Some s \<Rightarrow> snap_index s | None \<Rightarrow> un_offset (rl_unstable l))
      in if index > rl_persisted l \<and> index < first_update_index then do {
           r \<leftarrow> st_term E (rl_store l) index;
           if r = Inr term then Some (True, l\<lparr>rl_persisted := index\<rparr>) else Some (False, l)
         }
         else Some (False, l))"

definition log_maybe_persist_snap :: "'s raft_log \<Rightarrow> u64 \<Rightarrow> (bool \<times> 's raft_log) option" where
  "log_maybe_persist_snap l index =
     (if index > rl_persisted l then do {
        rust_assert (\<not> index > rl_committed l);
        rust_assert (\<not> index \<ge> un_offset (rl_unstable l));
        Some (True, l\<lparr>rl_persisted := index\<rparr>)
      }
      else Some (False, l))"

text \<open>
  \<open>scan\<close> with a callback that threads a state \<open>'a\<close> and answers whether to go on; it ends because
  every page has at least one entry.
\<close>

function log_scan ::
  "'s env \<Rightarrow> 's raft_log \<Rightarrow> u64 \<Rightarrow> u64 \<Rightarrow> u64 \<Rightarrow> get_entries_for \<Rightarrow> (entry list \<Rightarrow> 'a \<Rightarrow> bool \<times> 'a) \<Rightarrow> 'a
     \<Rightarrow> (unit result \<times> 'a \<times> 's raft_log) option" where
  "log_scan E l lo hi page_size context v acc =
     (if lo < hi then do {
        (r, l) \<leftarrow> log_slice E l lo hi (Some page_size) context;
        (case r of
           Inl e \<Rightarrow> Some (Inl e, acc, l)
         | Inr ents \<Rightarrow>
             if ents = [] then
               Some (Inl (Store (Other (''got 0 entries in ['' @ show_u64 lo @ '', '' @ show_u64 hi @ '')''))), acc, l)
             else do {
               lo' \<leftarrow> u64_add lo (length ents);
               (case v ents acc of
                  (False, acc) \<Rightarrow> Some (Inr (), acc, l)
                | (True, acc) \<Rightarrow> log_scan E l lo' hi page_size context v acc)
             })
      }
      else Some (Inr (), acc, l))"
  by pat_completeness auto
termination by (relation "measure (\<lambda>(_, _, lo, hi, _). hi - lo)") (auto split: if_splits intro!: diff_less_mono2)

declare log_scan.simps [simp del]

definition log_restore :: "'s raft_log \<Rightarrow> snapshot \<Rightarrow> 's raft_log option" where
  "log_restore l sn =
     do {
       let index = snap_index sn;
       rust_assert (index \<ge> rl_committed l);
       let l = (if rl_persisted l > rl_committed l then l\<lparr>rl_persisted := rl_committed l\<rparr> else l);
       u \<leftarrow> unstable_restore (rl_unstable l) sn;
       Some (l\<lparr>rl_committed := index, rl_unstable := u\<rparr>)
     }"

definition commit_info :: "'s env \<Rightarrow> 's raft_log \<Rightarrow> (u64 \<times> u64) option" where
  "commit_info E l = do { r \<leftarrow> log_term E l (rl_committed l); t \<leftarrow> unwrap r; Some (rl_committed l, t) }"


section \<open>The view of a log\<close>

definition log_first :: "('s \<Rightarrow> u64) \<Rightarrow> 's raft_log \<Rightarrow> u64" where
  "log_first first l =
     (case un_snapshot (rl_unstable l) of None \<Rightarrow> first (rl_store l) | Some _ \<Rightarrow> un_offset (rl_unstable l))"

definition log_ents :: "('s \<Rightarrow> u64) \<Rightarrow> ('s \<Rightarrow> entry list) \<Rightarrow> 's raft_log \<Rightarrow> entry list" where
  "log_ents first ents l =
     (case un_snapshot (rl_unstable l) of
        None \<Rightarrow> take (un_offset (rl_unstable l) - first (rl_store l)) (ents (rl_store l)) @ un_entries (rl_unstable l)
      | Some _ \<Rightarrow> un_entries (rl_unstable l))"

definition log_inv ::
  "(entry \<Rightarrow> u64) \<Rightarrow> ('s \<Rightarrow> bool) \<Rightarrow> ('s \<Rightarrow> u64) \<Rightarrow> ('s \<Rightarrow> entry list) \<Rightarrow> 's raft_log \<Rightarrow> bool" where
  "log_inv csize good first ents l \<longleftrightarrow>
     good (rl_store l) \<and> unstable_inv (rl_unstable l)
     \<and> (un_snapshot (rl_unstable l) = None \<longrightarrow>
          first (rl_store l) \<le> un_offset (rl_unstable l)
          \<and> un_offset (rl_unstable l) \<le> first (rl_store l) + length (ents (rl_store l)))
     \<and> (un_snapshot (rl_unstable l) = None \<and> un_entries (rl_unstable l) = [] \<longrightarrow>
          un_offset (rl_unstable l) = first (rl_store l) + length (ents (rl_store l)))
     \<and> log_first first l \<le> rl_committed l + 1
     \<and> rl_committed l < log_first first l + length (log_ents first ents l)
     \<and> rl_persisted l < un_offset (rl_unstable l)
     \<and> sum_list (map csize (log_ents first ents l)) \<le> U64_MAX"

text \<open>An append in memory that does not panic leaves no gap.\<close>

lemma truncate_and_append_reach:
  assumes "truncate_and_append u es = Some v" and "es \<noteq> []"
  shows "e_index (hd es) \<le> un_offset u + length (un_entries u)"
proof (cases "e_index (hd es) \<le> un_offset u")
  case False
  then show ?thesis
    using assms by (auto simp: truncate_and_append_def unstable_must_check_outofbounds_def hd_conv_nth Let_def bind_eq_Some_conv
        split: if_splits)
qed simp

context log_storage
begin

abbreviation lfirst :: "'s raft_log \<Rightarrow> u64" where
  "lfirst \<equiv> log_first first"

abbreviation lents :: "'s raft_log \<Rightarrow> entry list" where
  "lents \<equiv> log_ents first ents"

abbreviation linv :: "'s raft_log \<Rightarrow> bool" where
  "linv \<equiv> log_inv (pb_compute_size E) good first ents"

lemma linv_wf: "linv l \<Longrightarrow> good (rl_store l)" and linv_unstable: "linv l \<Longrightarrow> unstable_inv (rl_unstable l)"
  by (simp_all add: log_inv_def)

lemma lfirst_pos: "linv l \<Longrightarrow> 0 < lfirst l"
  using bounds by (auto simp: log_inv_def log_first_def unstable_inv_def split: option.splits)

text \<open>Where the unstable part starts in the list of entries.\<close>

lemma stable_length:
  assumes "linv l"
  shows "lfirst l \<le> un_offset (rl_unstable l)
     \<and> length (lents l) = un_offset (rl_unstable l) - lfirst l + length (un_entries (rl_unstable l))
     \<and> drop (un_offset (rl_unstable l) - lfirst l) (lents l) = un_entries (rl_unstable l)"
  using assms by (auto simp: log_inv_def log_first_def log_ents_def min_def split: option.splits)

lemma stable_part:
  assumes "linv l" and "un_snapshot (rl_unstable l) = None"
  shows "take (un_offset (rl_unstable l) - lfirst l) (lents l)
       = take (un_offset (rl_unstable l) - first (rl_store l)) (ents (rl_store l))"
  using assms by (auto simp: log_inv_def log_first_def log_ents_def min_def)

lemma lend:
  assumes "linv l"
  shows "lfirst l + length (lents l) = un_offset (rl_unstable l) + length (un_entries (rl_unstable l))"
  using stable_length [OF assms] by simp

lemma lbound: "linv l \<Longrightarrow> lfirst l + length (lents l) \<le> U64_MAX"
  using lend linv_unstable by (simp add: unstable_inv_def)

lemma lcontinuous:
  assumes "linv l"
  shows "continuous_from (lfirst l) (lents l)"
proof (cases "un_snapshot (rl_unstable l)")
  case None
  have "continuous_from (first (rl_store l)) (ents (rl_store l))" by (rule continuous [OF linv_wf [OF assms]])
  moreover have "length (take (un_offset (rl_unstable l) - first (rl_store l)) (ents (rl_store l)))
      = un_offset (rl_unstable l) - first (rl_store l)" "first (rl_store l) \<le> un_offset (rl_unstable l)"
    using assms None by (auto simp: log_inv_def)
  ultimately show ?thesis
    using linv_unstable [OF assms] None
    by (auto simp: log_first_def log_ents_def continuous_append unstable_inv_def simp del: length_take)
next
  case (Some sn)
  with assms show ?thesis by (simp add: log_inv_def log_first_def log_ents_def unstable_inv_def)
qed

lemma log_first_index_eq: "linv l \<Longrightarrow> log_first_index E l = Some (lfirst l)"
  using maybe_first_index_eq [OF linv_unstable] first_index [OF linv_wf]
  by (auto simp: log_first_index_def log_first_def split: option.splits)

lemma log_last_index_eq:
  assumes "linv l"
  shows "log_last_index E l = Some (lfirst l + length (lents l) - 1)"
proof (cases "un_entries (rl_unstable l) = [] \<and> un_snapshot (rl_unstable l) = None")
  case True
  with assms lend [OF assms] maybe_last_index_eq [OF linv_unstable [OF assms]] last_index [OF linv_wf [OF assms]]
  show ?thesis by (simp add: log_last_index_def log_inv_def)
next
  case False
  with lend [OF assms] maybe_last_index_eq [OF linv_unstable [OF assms]] show ?thesis
    by (auto simp: log_last_index_def)
qed

text \<open>
  Every index has a term: inside the log that of the entry, outside 0, and right below the first
  entry whatever the store or the pending snapshot kept.
\<close>

lemma log_term_in:
  assumes inv: "linv l" and i: "i < length (lents l)"
  shows "log_term E l (lfirst l + i) = Some (Inr (e_term (lents l ! i)))"
proof -
  let ?u = "rl_unstable l" and ?idx = "lfirst l + i"
  have ends: "log_first_index E l = Some (lfirst l)" "log_last_index E l = Some (lfirst l + length (lents l) - 1)"
    by (rule log_first_index_eq [OF inv], rule log_last_index_eq [OF inv])
  have in_range: "\<not> (?idx < lfirst l - 1 \<or> ?idx > lfirst l + length (lents l) - 1)" using i by auto
  note st = stable_length [OF inv]
  show ?thesis
  proof (cases "?idx < un_offset ?u")
    case True
    then have k: "i < un_offset ?u - lfirst l" by simp
    have none: "un_snapshot ?u = None"
      using True i by (cases "un_snapshot ?u") (auto simp: log_first_def)
    have "lents l ! i = take (un_offset ?u - lfirst l) (lents l) ! i" using k by simp
    also have "\<dots> = ents (rl_store l) ! i" unfolding stable_part [OF inv none] using k none by (simp add: log_first_def)
    finally have e: "lents l ! i = ents (rl_store l) ! i" .
    have "i < length (ents (rl_store l))" using inv none k by (auto simp: log_inv_def log_first_def)
    then have "st_term E (rl_store l) ?idx = Some (Inr (e_term (lents l ! i)))"
      using term_in [OF linv_wf [OF inv]] e none by (simp add: log_first_def)
    with True none ends in_range lfirst_pos [OF inv] show ?thesis
      by (simp add: log_term_def maybe_term_eq [OF linv_unstable [OF inv]])
  next
    case False
    have "un_entries ?u ! (?idx - un_offset ?u) = drop (un_offset ?u - lfirst l) (lents l) ! (?idx - un_offset ?u)"
      using st by simp
    also have "\<dots> = lents l ! (un_offset ?u - lfirst l + (?idx - un_offset ?u))" by (rule nth_drop) (use st in linarith)
    also have "un_offset ?u - lfirst l + (?idx - un_offset ?u) = i" using False st by linarith
    finally have "lents l ! i = un_entries ?u ! (?idx - un_offset ?u)" by (rule sym)
    moreover have "?idx < un_offset ?u + length (un_entries ?u)" using lend [OF inv] i by linarith
    ultimately show ?thesis using False ends in_range lfirst_pos [OF inv]
      by (simp add: log_term_def maybe_term_eq [OF linv_unstable [OF inv]])
  qed
qed

lemma log_term_out:
  assumes inv: "linv l" and "i + 1 < lfirst l \<or> lfirst l + length (lents l) \<le> i"
  shows "log_term E l i = Some (Inr 0)"
  using assms(2) lfirst_pos [OF inv]
  by (auto simp: log_term_def log_first_index_eq [OF inv] log_last_index_eq [OF inv])

lemma log_term_dummy:
  assumes inv: "linv l"
  shows "log_term E l (lfirst l - 1) = Some (Inl (Store Compacted)) \<or> (\<exists>t. log_term E l (lfirst l - 1) = Some (Inr t))"
proof -
  have ends: "log_first_index E l = Some (lfirst l)" "log_last_index E l = Some (lfirst l + length (lents l) - 1)"
    by (rule log_first_index_eq [OF inv], rule log_last_index_eq [OF inv])
  note pos = lfirst_pos [OF inv]
  have "lfirst l - 1 < un_offset (rl_unstable l)" using stable_length [OF inv] pos by linarith
  then show ?thesis
  proof (cases "un_snapshot (rl_unstable l)")
    case None
    then have "lfirst l - 1 < first (rl_store l)" using pos by (simp add: log_first_def)
    from term_before [OF linv_wf [OF inv] this] None ends pos \<open>lfirst l - 1 < un_offset (rl_unstable l)\<close>
    show ?thesis by (auto simp: log_term_def maybe_term_eq [OF linv_unstable [OF inv]])
  next
    case (Some sn)
    then have "lfirst l = un_offset (rl_unstable l)" by (simp add: log_first_def)
    with Some ends pos show ?thesis
      by (auto simp: log_term_def maybe_term_eq [OF linv_unstable [OF inv]])
  qed
qed

lemma log_term_total:
  assumes inv: "linv l"
  shows "\<exists>t. log_term E l i = Some (Inr t) \<or> log_term E l i = Some (Inl (Store Compacted)) \<and> i + 1 = lfirst l"
proof -
  consider (out) "i + 1 < lfirst l \<or> lfirst l + length (lents l) \<le> i" | (dummy) "i = lfirst l - 1" "i + 1 = lfirst l"
    | (entry) "lfirst l \<le> i" "i < lfirst l + length (lents l)"
    by linarith
  then show ?thesis
  proof cases
    case out
    then show ?thesis using log_term_out [OF inv] by blast
  next
    case dummy
    then show ?thesis using log_term_dummy [OF inv] by auto
  next
    case entry
    then show ?thesis using log_term_in [OF inv, of "i - lfirst l"] by simp
  qed
qed

lemma log_append_view:
  assumes inv: "linv l" and ne: "es \<noteq> []" and cont: "continuous_from (e_index (hd es)) es"
    and lo: "rl_committed l < e_index (hd es)" and hi: "e_index (hd es) \<le> lfirst l + length (lents l)"
    and bd: "e_index (hd es) + length es \<le> U64_MAX"
    and sz: "total_size (un_entries (rl_unstable l)) + total_size es \<le> U64_MAX"
    and cs: "sum_list (map (pb_compute_size E) (lents l)) + sum_list (map (pb_compute_size E) es) \<le> U64_MAX"
    and p: "p < un_offset (rl_unstable l)" "p < e_index (hd es)"
  shows "\<exists>u. truncate_and_append (rl_unstable l) es = Some u
     \<and> linv (l\<lparr>rl_unstable := u, rl_persisted := p\<rparr>)
     \<and> lfirst (l\<lparr>rl_unstable := u\<rparr>) = lfirst l
     \<and> lents (l\<lparr>rl_unstable := u\<rparr>) = take (e_index (hd es) - lfirst l) (lents l) @ es"
proof -
  let ?u = "rl_unstable l" and ?a = "e_index (hd es)"
  note ui = linv_unstable [OF inv]
  have hi': "?a \<le> un_offset ?u + length (un_entries ?u)" using hi lend [OF inv] by simp
  obtain u where u: "truncate_and_append ?u es = Some u"
    "un_offset u = min (un_offset ?u) ?a" "un_entries u = take (?a - un_offset ?u) (un_entries ?u) @ es"
    "un_snapshot u = un_snapshot ?u"
    using truncate_and_append_eq [OF ui ne hi' sz] by auto
  let ?l = "l\<lparr>rl_unstable := u\<rparr>"
  have a_first: "lfirst l \<le> ?a" using inv lo by (simp add: log_inv_def)
  have snap: "un_snapshot ?u \<noteq> None \<longrightarrow> un_offset ?u \<le> ?a" using a_first by (auto simp: log_first_def)
  have uinv: "unstable_inv u" using truncate_and_append_inv [OF ui ne hi' sz cont _ bd snap u(1)] lo by simp
  have f: "lfirst ?l = lfirst l"
    using u snap by (auto simp: log_first_def min_def split: option.splits)
  have e: "lents ?l = take (?a - lfirst l) (lents l) @ es"
  proof (cases "un_snapshot ?u")
    case None
    have off: "first (rl_store l) \<le> un_offset ?u" "un_offset ?u \<le> first (rl_store l) + length (ents (rl_store l))"
      using inv None by (auto simp: log_inv_def)
    have lf: "lfirst l = first (rl_store l)" using None by (simp add: log_first_def)
    show ?thesis
    proof (cases "?a \<le> un_offset ?u")
      case True
      then have "take (?a - lfirst l) (lents l) = take (?a - lfirst l) (ents (rl_store l))"
        using None lf off by (simp add: log_ents_def min_def)
      with True None u lf show ?thesis by (simp add: log_ents_def min_def)
    next
      case False
      define T where "T = take (un_offset ?u - first (rl_store l)) (ents (rl_store l))"
      have T: "length T = un_offset ?u - first (rl_store l)" using off by (simp add: T_def)
      have "take (?a - lfirst l) (T @ un_entries ?u) = T @ take (?a - un_offset ?u) (un_entries ?u)"
        using T False lf off by simp
      with False None u show ?thesis by (simp add: log_ents_def T_def [symmetric])
    qed
  next
    case (Some sn)
    with u snap show ?thesis by (simp add: log_ents_def log_first_def)
  qed
  have len: "length (lents ?l) = ?a - lfirst l + length es" using e hi a_first by simp
  have "sum_list (map (pb_compute_size E) (take (?a - lfirst l) (lents l))) \<le> sum_list (map (pb_compute_size E) (lents l))"
    by (metis sum_list_filter_split le_add1)
  then have csl: "sum_list (map (pb_compute_size E) (lents ?l)) \<le> U64_MAX" using e cs by simp
  have "linv (?l\<lparr>rl_persisted := p\<rparr>)"
  proof -
    have v: "log_first first (?l\<lparr>rl_persisted := p\<rparr>) = lfirst ?l" "log_ents first ents (?l\<lparr>rl_persisted := p\<rparr>) = lents ?l"
      by (simp_all add: log_first_def log_ents_def split: option.split)
    have "un_snapshot u = None \<longrightarrow> first (rl_store l) \<le> un_offset u
        \<and> un_offset u \<le> first (rl_store l) + length (ents (rl_store l))"
      using inv u a_first by (auto simp: log_inv_def log_first_def min_def)
    with inv uinv u f len csl v lo p ne a_first show ?thesis by (simp add: log_inv_def min_def)
  qed
  with u(1) f e show ?thesis by auto
qed

text \<open>An append that does not panic starts above the committed index and leaves no gap.\<close>

lemma log_append_some:
  assumes inv: "linv l" and es: "es \<noteq> []" "continuous_from (e_index (hd es)) es" and a: "log_append E l es = Some (i, l')"
    and bd: "e_index (hd es) + length es \<le> U64_MAX"
    and sz: "total_size (un_entries (rl_unstable l)) + total_size es \<le> U64_MAX"
    and cs: "sum_list (map (pb_compute_size E) (lents l)) + sum_list (map (pb_compute_size E) es) \<le> U64_MAX"
  shows "rl_committed l < e_index (hd es) \<and> e_index (hd es) \<le> lfirst l + length (lents l)
     \<and> lfirst l' = lfirst l \<and> lents l' = take (e_index (hd es) - lfirst l) (lents l) @ es
     \<and> rl_committed l' = rl_committed l \<and> rl_persisted l' = rl_persisted l
     \<and> (\<forall>p \<le> rl_persisted l. p < e_index (hd es) \<longrightarrow> linv (l'\<lparr>rl_persisted := p\<rparr>))"
proof -
  from a es(1) obtain u where u: "truncate_and_append (rl_unstable l) es = Some u" "l' = l\<lparr>rl_unstable := u\<rparr>"
    and lo: "rl_committed l < e_index (hd es)"
    by (auto simp: log_append_def Let_def bind_eq_Some_conv)
  have hi: "e_index (hd es) \<le> lfirst l + length (lents l)"
    using truncate_and_append_reach [OF u(1) es(1)] lend [OF inv] by simp
  have p: "p < un_offset (rl_unstable l)" if "p \<le> rl_persisted l" for p using inv that by (simp add: log_inv_def)
  have view: "linv (l'\<lparr>rl_persisted := p\<rparr>) \<and> lfirst l' = lfirst l \<and> lents l' = take (e_index (hd es) - lfirst l) (lents l) @ es"
    if "p \<le> rl_persisted l" "p < e_index (hd es)" for p
    using log_append_view [OF inv es lo hi bd sz cs p [OF that(1)] that(2)] u by auto
  have "0 \<le> rl_persisted l" "0 < e_index (hd es)" using lo by simp_all
  from view [OF this] view lo hi u(2) show ?thesis by auto
qed

lemma match_term_eq: "linv l \<Longrightarrow> match_term E l i t = Some (log_term E l i = Some (Inr t))"
  using log_term_total [of l i] by (auto simp: match_term_def)

abbreviation conflicts :: "'s raft_log \<Rightarrow> entry \<Rightarrow> bool" where
  "conflicts l e \<equiv> log_term E l (e_index e) \<noteq> Some (Inr (e_term e))"

lemma find_conflict_eq:
  "linv l \<Longrightarrow> find_conflict E l es = Some (case find (conflicts l) es of None \<Rightarrow> 0 | Some e \<Rightarrow> e_index e)"
  by (induction es) (simp_all add: match_term_eq log_last_index_eq)

lemma commit_to_eq:
  assumes "linv l" and "i < lfirst l + length (lents l)"
  shows "commit_to E l i = Some (l\<lparr>rl_committed := max (rl_committed l) i\<rparr>)"
proof (cases "i \<le> rl_committed l")
  case False
  moreover from assms(2) have "\<not> lfirst l + length (lents l) - 1 < i" by linarith
  ultimately show ?thesis using assms by (simp add: commit_to_def log_last_index_eq max_def)
qed (simp add: commit_to_def max_def)

lemma view_committed [simp]:
  "lfirst (l\<lparr>rl_committed := c\<rparr>) = lfirst l" "lents (l\<lparr>rl_committed := c\<rparr>) = lents l"
  "lfirst (l\<lparr>rl_persisted := c\<rparr>) = lfirst l" "lents (l\<lparr>rl_persisted := c\<rparr>) = lents l"
  "lfirst (l\<lparr>rl_applied := c\<rparr>) = lfirst l" "lents (l\<lparr>rl_applied := c\<rparr>) = lents l"
  by (simp_all add: log_first_def log_ents_def split: option.split)

lemma linv_committed:
  "linv l \<Longrightarrow> rl_committed l \<le> c \<Longrightarrow> c < lfirst l + length (lents l) \<Longrightarrow> linv (l\<lparr>rl_committed := c\<rparr>)"
  by (simp add: log_inv_def)

lemma log_reads_cong:
  assumes "rl_store l' = rl_store l" and "rl_unstable l' = rl_unstable l"
  shows "log_first_index E l' = log_first_index E l" "log_last_index E l' = log_last_index E l"
    "log_term E l' i = log_term E l i"
  unfolding log_term_def log_first_index_def log_last_index_def assms by (rule refl)+

lemma log_term_committed [simp]:
  "log_term E (l\<lparr>rl_committed := c\<rparr>) i = log_term E l i" "log_term E (l\<lparr>rl_persisted := c\<rparr>) i = log_term E l i"
  by (rule log_reads_cong; simp)+

text \<open>A matching entry with a term above 0 lies inside the log.\<close>

lemma match_in_log:
  assumes "linv l" and "log_term E l i = Some (Inr t)" and "0 < t" and "lfirst l \<le> i"
  shows "i < lfirst l + length (lents l) \<and> e_term (lents l ! (i - lfirst l)) = t"
proof -
  have "i < lfirst l + length (lents l)"
    by (rule ccontr) (use log_term_out [OF assms(1), of i] assms in simp)
  with log_term_in [OF assms(1), of "i - lfirst l"] assms show ?thesis by simp
qed

text \<open>An index with a term above 0 does not lie beyond the log.\<close>

lemma term_below_end:
  assumes "linv l" and "log_term E l i = Some (Inr t)" and "0 < t \<or> i = 0"
  shows "i < lfirst l + length (lents l)"
proof (rule ccontr)
  assume "\<not> i < lfirst l + length (lents l)"
  then show False using log_term_out [OF assms(1), of i] lfirst_pos [OF assms(1)] assms(2,3) by auto
qed

lemma find_conflict_position:
  assumes cont: "continuous_from (idx + 1) es" and f: "find (conflicts l) es = Some e"
  shows "\<exists>k < length es. e = es ! k \<and> e_index e = idx + 1 + k
     \<and> (\<forall>j < k. log_term E l (idx + 1 + j) = Some (Inr (e_term (es ! j))))"
proof -
  obtain k where k: "k < length es" "e = es ! k" "\<forall>j < k. \<not> conflicts l (es ! j)"
    using f by (auto simp: find_Some_iff)
  have "e_index (es ! j) = idx + 1 + j" if "j < length es" for j using continuous_nth [OF cont that] .
  with k show ?thesis by (metis less_trans)
qed

lemma matching_end:
  assumes inv: "linv l" and cont: "continuous_from (idx + 1) es" and tm: "\<forall>e \<in> set es. 0 < e_term e"
    and idx: "idx < lfirst l + length (lents l)" and k: "k \<le> length es"
    and m: "\<forall>j < k. log_term E l (idx + 1 + j) = Some (Inr (e_term (es ! j)))"
  shows "idx + k < lfirst l + length (lents l)"
proof (cases k)
  case (Suc j)
  then show ?thesis using term_below_end [OF inv, of "idx + 1 + j"] m tm k by simp
qed (use idx in simp)

lemma size_of_rest:
  "total_size (drop k es) \<le> total_size es" "sum_list (map (pb_compute_size E) (drop k es)) \<le> sum_list (map (pb_compute_size E) es)"
  by (metis sum_list_filter_split le_add2)+

text \<open>The append of a follower, in one statement.\<close>

lemma maybe_append_ok:
  assumes inv: "linv l" and cont: "continuous_from (idx + 1) es" and tm: "\<forall>e \<in> set es. 0 < e_term e"
    and m: "log_term E l idx = Some (Inr t)" and t: "0 < t \<or> idx = 0"
    and bd: "idx + 1 + length es \<le> U64_MAX"
    and sz: "total_size (un_entries (rl_unstable l)) + total_size es \<le> U64_MAX"
    and cs: "sum_list (map (pb_compute_size E) (lents l)) + sum_list (map (pb_compute_size E) es) \<le> U64_MAX"
    and nc: "\<And>e. find (conflicts l) es = Some e \<Longrightarrow> rl_committed l < e_index e"
  shows "\<exists>l'. maybe_append E l idx t committed es =
       Some (Some (case find (conflicts l) es of None \<Rightarrow> 0 | Some e \<Rightarrow> e_index e, idx + length es), l')
     \<and> linv l' \<and> lfirst l' = lfirst l
     \<and> rl_committed l' = max (rl_committed l) (min committed (idx + length es)) \<and> rl_applied l' = rl_applied l
     \<and> (case find (conflicts l) es of
          None \<Rightarrow> lents l' = lents l \<and> rl_persisted l' = rl_persisted l
        | Some e \<Rightarrow> lents l' = take (e_index e - lfirst l) (lents l) @ drop (e_index e - (idx + 1)) es
            \<and> rl_persisted l' = min (rl_persisted l) (e_index e - 1))"
proof (cases "find (conflicts l) es")
  case None
  have fc: "find_conflict E l es = Some 0" using find_conflict_eq [OF inv] None by simp
  have "log_term E l (idx + 1 + j) = Some (Inr (e_term (es ! j)))" if "j < length es" for j
  proof -
    have "\<not> conflicts l (es ! j)" using None that by (simp add: find_None_iff)
    then show ?thesis using continuous_nth [OF cont that] by simp
  qed
  then have "\<forall>j < length es. log_term E l (idx + 1 + j) = Some (Inr (e_term (es ! j)))" by blast
  from matching_end [OF inv cont tm term_below_end [OF inv m t] order_refl this]
  have e: "min committed (idx + length es) < lfirst l + length (lents l)" by simp
  let ?l = "l\<lparr>rl_committed := max (rl_committed l) (min committed (idx + length es))\<rparr>"
  have "maybe_append E l idx t committed es = Some (Some (0, idx + length es), ?l)"
    using fc m bd match_term_eq [OF inv] commit_to_eq [OF inv e] by (simp add: maybe_append_def)
  moreover have "linv ?l" using inv e by (intro linv_committed) (auto simp: log_inv_def)
  ultimately show ?thesis using None by auto
next
  case (Some e)
  obtain k where k: "k < length es" "e = es ! k" "e_index e = idx + 1 + k"
    "\<forall>j < k. log_term E l (idx + 1 + j) = Some (Inr (e_term (es ! j)))"
    using find_conflict_position [OF cont Some] by auto
  let ?c = "idx + 1 + k" and ?r = "drop k es"
  have ce: "?c \<le> lfirst l + length (lents l)"
    using matching_end [OF inv cont tm term_below_end [OF inv m t] _ k(4)] k(1) by simp
  have fc: "find_conflict E l es = Some ?c" using find_conflict_eq [OF inv] Some k(3) by simp
  have cc: "rl_committed l < ?c" using nc [OF Some] k(3) by simp
  have r: "?r \<noteq> []" "e_index (hd ?r) = ?c" "continuous_from (e_index (hd ?r)) ?r"
    using k continuous_drop [OF cont, of k] by (simp_all add: hd_drop_conv_nth)
  define p where "p = min (rl_persisted l) (?c - 1)"
  have prem: "e_index (hd ?r) + length ?r \<le> U64_MAX" "total_size (un_entries (rl_unstable l)) + total_size ?r \<le> U64_MAX"
    "sum_list (map (pb_compute_size E) (lents l)) + sum_list (map (pb_compute_size E) ?r) \<le> U64_MAX"
    "p < un_offset (rl_unstable l)" "p < e_index (hd ?r)"
    using bd k r sz cs inv size_of_rest [of k es] by (auto simp: p_def log_inv_def)
  obtain u where u: "truncate_and_append (rl_unstable l) ?r = Some u" "linv (l\<lparr>rl_unstable := u, rl_persisted := p\<rparr>)"
    "lfirst (l\<lparr>rl_unstable := u\<rparr>) = lfirst l" "lents (l\<lparr>rl_unstable := u\<rparr>) = take (?c - lfirst l) (lents l) @ ?r"
    using log_append_view [OF inv r(1,3) _ _ prem] r(2) cc ce by auto
  let ?m = "l\<lparr>rl_unstable := u, rl_persisted := p\<rparr>"
  have view: "lfirst ?m = lfirst l" "lents ?m = take (?c - lfirst l) (lents l) @ ?r" using u(3,4) by simp_all
  have "log_last_index E ?m = log_last_index E (l\<lparr>rl_unstable := u\<rparr>)" by (rule log_reads_cong) simp_all
  then have lastm: "\<exists>i. log_last_index E (l\<lparr>rl_unstable := u\<rparr>) = Some i" using log_last_index_eq [OF u(2)] by metis
  have "lfirst l \<le> ?c" using inv cc by (simp add: log_inv_def)
  then have "lfirst ?m + length (lents ?m) = idx + 1 + length es" using view k ce by simp
  then have e: "min committed (idx + length es) < lfirst ?m + length (lents ?m)" by simp
  have app: "\<exists>i. log_append E l ?r = Some (i, l\<lparr>rl_unstable := u\<rparr>)"
    using r u(1) cc lastm by (auto simp: log_append_def Let_def)
  have pm: "(if rl_persisted l > ?c - 1 then l\<lparr>rl_unstable := u, rl_persisted := ?c - 1\<rparr> else l\<lparr>rl_unstable := u\<rparr>) = ?m"
    by (auto simp: p_def min_def)
  let ?l = "?m\<lparr>rl_committed := max (rl_committed l) (min committed (idx + length es))\<rparr>"
  have "maybe_append E l idx t committed es = Some (Some (?c, idx + length es), ?l)"
    using fc m bd cc k app pm match_term_eq [OF inv] commit_to_eq [OF u(2) e] by (auto simp: maybe_append_def)
  moreover have "linv ?l" using u(2) e by (intro linv_committed) (auto simp: log_inv_def)
  ultimately show ?thesis using Some view k by (auto simp: p_def)
qed

text \<open>The entry that conflicts is committed: the call panics.\<close>

lemma maybe_append_panics:
  assumes inv: "linv l" and cont: "continuous_from (idx + 1) es" and m: "log_term E l idx = Some (Inr t)"
    and f: "find (conflicts l) es = Some e" "e_index e \<le> rl_committed l"
  shows "maybe_append E l idx t committed es = None"
proof -
  have "0 < e_index e" using find_conflict_position [OF cont f(1)] by auto
  then show ?thesis using f m match_term_eq [OF inv] find_conflict_eq [OF inv] by (simp add: maybe_append_def)
qed

text \<open>Whatever it is given, an append that does not panic leaves the committed entries in place.\<close>

lemma committed_prefix:
  assumes "linv l" and "rl_committed l < c" and "c \<le> lfirst l + length (lents l)"
    and "lfirst l \<le> i" and "i \<le> rl_committed l"
  shows "(take (c - lfirst l) (lents l) @ es) ! (i - lfirst l) = lents l ! (i - lfirst l)"
proof -
  have "i - lfirst l < c - lfirst l" using assms(2,4,5) by linarith
  with assms(3) show ?thesis by (simp add: nth_append)
qed

lemma commit_to_keeps:
  assumes inv: "linv l" and c: "commit_to E l i = Some l'"
  shows "linv l' \<and> lfirst l' = lfirst l \<and> lents l' = lents l \<and> rl_committed l \<le> rl_committed l'"
proof (cases "i \<le> rl_committed l")
  case False
  with c log_last_index_eq [OF inv] lfirst_pos [OF inv] have "i < lfirst l + length (lents l)"
    by (auto simp: commit_to_def bind_eq_Some_conv)
  with c inv commit_to_eq [OF inv this] False show ?thesis by (auto intro: linv_committed)
qed (use c inv in \<open>simp add: commit_to_def\<close>)

lemma maybe_append_keeps:
  assumes inv: "linv l" and cont: "continuous_from (idx + 1) es" and bd: "idx + 1 + length es \<le> U64_MAX"
    and sz: "total_size (un_entries (rl_unstable l)) + total_size es \<le> U64_MAX"
    and cs: "sum_list (map (pb_compute_size E) (lents l)) + sum_list (map (pb_compute_size E) es) \<le> U64_MAX"
    and a: "maybe_append E l idx t committed es = Some (r, l')"
  shows "linv l' \<and> lfirst l' = lfirst l \<and> rl_committed l \<le> rl_committed l'
     \<and> (\<forall>i. lfirst l \<le> i \<and> i \<le> rl_committed l \<longrightarrow> lents l' ! (i - lfirst l) = lents l ! (i - lfirst l))"
proof (cases "log_term E l idx = Some (Inr t)")
  case False
  then show ?thesis using a inv by (simp add: maybe_append_def match_term_eq [OF inv])
next
  case True
  show ?thesis
  proof (cases "find (conflicts l) es")
    case None
    then have "commit_to E l (min committed (idx + length es)) = Some l'"
      using a True match_term_eq [OF inv] find_conflict_eq [OF inv] by (auto simp: maybe_append_def bind_eq_Some_conv)
    from commit_to_keeps [OF inv this] show ?thesis by simp
  next
    case (Some e)
    obtain k where k: "k < length es" "e_index e = idx + 1 + k" "e = es ! k"
      using find_conflict_position [OF cont Some] by auto
    let ?r = "drop k es"
    have r: "?r \<noteq> []" "e_index (hd ?r) = idx + 1 + k" "continuous_from (e_index (hd ?r)) ?r"
      using k continuous_drop [OF cont, of k] by (simp_all add: hd_drop_conv_nth)
    have fc: "find_conflict E l es = Some (idx + 1 + k)" using find_conflict_eq [OF inv] Some k(2) by simp
    from a True fc k(1) bd match_term_eq [OF inv] obtain i la lb where d: "log_append E l ?r = Some (i, la)"
      "lb = (if idx + k < rl_persisted la then la\<lparr>rl_persisted := idx + k\<rparr> else la)"
      "commit_to E lb (min committed (idx + length es)) = Some l'"
      by (auto simp: maybe_append_def bind_eq_Some_conv split: if_splits)
    have prem: "e_index (hd ?r) + length ?r \<le> U64_MAX" "total_size (un_entries (rl_unstable l)) + total_size ?r \<le> U64_MAX"
      "sum_list (map (pb_compute_size E) (lents l)) + sum_list (map (pb_compute_size E) ?r) \<le> U64_MAX"
      using bd k r sz cs size_of_rest [of k es] by auto
    note s = log_append_some [OF inv r(1,3) d(1) prem, unfolded r(2)]
    have lb: "lb = la\<lparr>rl_persisted := min (rl_persisted l) (idx + k)\<rparr>" using d(2) s by (auto simp: min_def)
    have "linv lb" using s unfolding lb by (auto simp: min_def)
    moreover have "lfirst lb = lfirst l" "rl_committed lb = rl_committed l" "lents lb = take (idx + 1 + k - lfirst l) (lents l) @ ?r"
      using s unfolding lb by simp_all
    ultimately show ?thesis using commit_to_keeps [OF _ d(3)] committed_prefix [OF inv, of "idx + 1 + k" _ ?r] s by simp
  qed
qed

text \<open>
  Reading a range: what the storage gives is joined with the unstable part, and the budget applies
  to the whole as if the log were one list.
\<close>

lemma linv_store:
  assumes "linv l" and "good s" and "first s = first (rl_store l)" and "ents s = ents (rl_store l)"
  shows "linv (l\<lparr>rl_store := s\<rparr>) \<and> lfirst (l\<lparr>rl_store := s\<rparr>) = lfirst l \<and> lents (l\<lparr>rl_store := s\<rparr>) = lents l"
  using assms by (auto simp: log_inv_def log_first_def log_ents_def split: option.splits)

lemma range_split:
  assumes inv: "linv l" and r: "lfirst l \<le> low" "low < high" "high \<le> lfirst l + length (lents l)"
  shows "low < un_offset (rl_unstable l) \<Longrightarrow>
      un_snapshot (rl_unstable l) = None \<and>
      take (high - low) (drop (low - lfirst l) (lents l)) =
        take (min high (un_offset (rl_unstable l)) - low) (drop (low - first (rl_store l)) (ents (rl_store l)))
        @ (if high > un_offset (rl_unstable l)
           then take (high - un_offset (rl_unstable l)) (un_entries (rl_unstable l)) else [])"
    and "un_offset (rl_unstable l) \<le> low \<Longrightarrow>
      take (high - low) (drop (low - lfirst l) (lents l)) =
        take (high - low) (drop (low - un_offset (rl_unstable l)) (un_entries (rl_unstable l)))"
proof -
  let ?off = "un_offset (rl_unstable l)"
  note st = stable_length [OF inv]
  { assume low: "low < ?off"
    then have none: "un_snapshot (rl_unstable l) = None" using r by (cases "un_snapshot (rl_unstable l)") (auto simp: log_first_def)
    define T where "T = take (?off - first (rl_store l)) (ents (rl_store l))"
    have T: "length T = ?off - first (rl_store l)" "first (rl_store l) = lfirst l" "lents l = T @ un_entries (rl_unstable l)"
      using inv none by (auto simp: T_def log_inv_def log_first_def log_ents_def)
    have d: "take n (drop (low - lfirst l) T) = take n (drop (low - first (rl_store l)) (ents (rl_store l)))"
      if "n \<le> ?off - low" for n
      using that T(2) low r by (simp add: T_def drop_take min_def)
    have "take (high - low) (drop (low - lfirst l) (lents l)) =
        take (min high ?off - low) (drop (low - first (rl_store l)) (ents (rl_store l)))
        @ (if high > ?off then take (high - ?off) (un_entries (rl_unstable l)) else [])"
    proof (cases "high > ?off")
      case True
      define D where "D = drop (low - lfirst l) T"
      have D: "length D = ?off - low" "drop (low - lfirst l) (lents l) = D @ un_entries (rl_unstable l)"
        using T low r by (simp_all add: D_def)
      then have "take (high - low) (drop (low - lfirst l) (lents l)) = D @ take (high - ?off) (un_entries (rl_unstable l))"
        using True low by simp
      moreover have "D = take (?off - low) (drop (low - first (rl_store l)) (ents (rl_store l)))"
        using d [of "?off - low"] D(1) by (simp add: D_def)
      ultimately show ?thesis using True by (simp add: min_def)
    next
      case False
      then show ?thesis using T d [of "high - low"] low r by (simp add: min_def)
    qed
    with none show "un_snapshot (rl_unstable l) = None \<and>
      take (high - low) (drop (low - lfirst l) (lents l)) =
        take (min high ?off - low) (drop (low - first (rl_store l)) (ents (rl_store l)))
        @ (if high > ?off then take (high - ?off) (un_entries (rl_unstable l)) else [])" by simp }
  assume "?off \<le> low"
  then have "low - lfirst l = (low - ?off) + (?off - lfirst l)" using st by simp
  then have "drop (low - lfirst l) (lents l) = drop (low - ?off) (drop (?off - lfirst l) (lents l))"
    by (simp only: drop_drop)
  then show "take (high - low) (drop (low - lfirst l) (lents l)) =
        take (high - low) (drop (low - ?off) (un_entries (rl_unstable l)))" using st by simp
qed

lemma log_slice_eq:
  assumes inv: "linv l" and r: "lfirst l \<le> low" "low \<le> high" "high \<le> lfirst l + length (lents l)"
  shows "\<exists>r s. log_slice E l low high sz c = Some (r, l\<lparr>rl_store := s\<rparr>)
     \<and> linv (l\<lparr>rl_store := s\<rparr>) \<and> lfirst (l\<lparr>rl_store := s\<rparr>) = lfirst l \<and> lents (l\<lparr>rl_store := s\<rparr>) = lents l
     \<and> (can_async c \<and> r = Inl (Store LogTemporarilyUnavailable)
        \<or> map_option Inr (limit_size (pb_compute_size E) (take (high - low) (drop (low - lfirst l) (lents l))) sz) = Some r)"
proof -
  let ?off = "un_offset (rl_unstable l)" and ?all = "take (high - low) (drop (low - lfirst l) (lents l))"
  have self: "l\<lparr>rl_store := rl_store l\<rparr> = l" by simp
  note b = lbound [OF inv]
  have chk: "log_must_check_outofbounds E l low high = Some None"
    using r b lfirst_pos [OF inv]
    by (simp add: log_must_check_outofbounds_def log_first_index_eq [OF inv] log_last_index_eq [OF inv])
  have "sum_list (map (pb_compute_size E) ?all) \<le> sum_list (map (pb_compute_size E) (lents l))"
    by (metis (no_types, lifting) sum_list_filter_split le_add1 le_add2 le_trans)
  then have "sum_list (map (pb_compute_size E) ?all) \<le> U64_MAX" using inv by (simp add: log_inv_def)
  then obtain es where es: "limit_size (pb_compute_size E) ?all sz = Some es" using limit_size_ok by blast
  show ?thesis
  proof (cases "low = high")
    case True
    then have "log_slice E l low high sz c = Some (Inr [], l)" using chk by (simp add: log_slice_def)
    with True inv self show ?thesis
      by (intro exI [of _ "Inr []"] exI [of _ "rl_store l"]) (simp add: limit_size_def)
  next
    case ne: False
    then have lt: "low < high" using r by simp
    show ?thesis
    proof (cases "low < ?off")
      case False
      then have all: "?all = take (high - low) (drop (low - ?off) (un_entries (rl_unstable l)))"
        using range_split(2) [OF inv r(1) lt r(3)] by simp
      have "unstable_slice (rl_unstable l) (max low ?off) high = Some ?all"
        using unstable_slice_eq [OF linv_unstable [OF inv], of low high] False r lend [OF inv] all by (simp add: max_def)
      then have "log_slice E l low high sz c = Some (Inr es, l)"
        using chk ne False lt es by (simp add: log_slice_def Let_def)
      with inv es self show ?thesis by (intro exI [of _ "Inr es"] exI [of _ "rl_store l"]) simp
    next
      case low: True
      let ?uh = "min high ?off"
      let ?A = "take (?uh - low) (drop (low - first (rl_store l)) (ents (rl_store l)))"
      let ?B = "if high > ?off then take (high - ?off) (un_entries (rl_unstable l)) else []"
      have none: "un_snapshot (rl_unstable l) = None" and all: "?all = ?A @ ?B"
        using range_split(1) [OF inv r(1) lt r(3) low] by blast+
      have sr: "first (rl_store l) \<le> low" "low < ?uh" "?uh \<le> first (rl_store l) + length (ents (rl_store l))"
        using none inv low lt r(1) by (auto simp: log_inv_def log_first_def)
      then have "?uh - low \<le> length (ents (rl_store l)) - (low - first (rl_store l))" by linarith
      then have lenA: "length ?A = ?uh - low" by simp
      obtain r0 s where s: "st_entries E (rl_store l) low ?uh sz c = Some (r0, s)" "good s"
        "first s = first (rl_store l)" "ents s = ents (rl_store l)"
        "can_async c \<and> r0 = Inl (Store LogTemporarilyUnavailable)
           \<or> map_option Inr (limit_size (pb_compute_size E) ?A sz) = Some r0"
        using entries_in [OF linv_wf [OF inv] sr] by blast
      note st = linv_store [OF inv s(2-4)]
      from s(5) show ?thesis
      proof
        assume a: "can_async c \<and> r0 = Inl (Store LogTemporarilyUnavailable)"
        then have "log_slice E l low high sz c = Some (r0, l\<lparr>rl_store := s\<rparr>)"
          using chk ne low s(1) by (simp add: log_slice_def Let_def)
        with a st show ?thesis by blast
      next
        assume "map_option Inr (limit_size (pb_compute_size E) ?A sz) = Some r0"
        then obtain ps where ps: "limit_size (pb_compute_size E) ?A sz = Some ps" "r0 = Inr ps" by auto
        have "log_slice E l low high sz c = Some (Inr es, l\<lparr>rl_store := s\<rparr>)"
        proof (cases "length ps < ?uh - low")
          case True
          then have "limit_size (pb_compute_size E) ?all sz = Some ps"
            unfolding all using ps(1) lenA by (intro limit_size_append) simp_all
          with True es ps chk ne low s(1) sr show ?thesis by (simp add: log_slice_def Let_def)
        next
          case False
          then have A: "ps = ?A" using limit_size_full [OF ps(1)] lenA by simp
          have u: "high > ?off \<Longrightarrow> unstable_slice (rl_unstable l) (max low ?off) high = Some ?B"
            using unstable_slice_eq [OF linv_unstable [OF inv], of ?off high] low r lend [OF inv] by (simp add: max_def)
          have "limit_size (pb_compute_size E) (ps @ ?B) sz = Some es" using es all A by simp
          with False u ps(2) chk ne low s(1) sr show ?thesis
            by (cases "un_offset (rl_unstable l) < high") (simp_all add: log_slice_def Let_def)
        qed
        with es st show ?thesis by auto
      qed
    qed
  qed
qed

text \<open>What an accepted append leaves in the log.\<close>

lemma maybe_append_holds:
  assumes inv: "linv l" and inv': "linv l'" and f: "lfirst l' = lfirst l"
    and cont: "continuous_from (idx + 1) es" and tm: "\<forall>e \<in> set es. 0 < e_term e"
    and idx: "idx < lfirst l + length (lents l)" and co: "\<And>e. find (conflicts l) es = Some e \<Longrightarrow> rl_committed l < e_index e"
    and v: "case find (conflicts l) es of None \<Rightarrow> lents l' = lents l
        | Some e \<Rightarrow> lents l' = take (e_index e - lfirst l) (lents l) @ drop (e_index e - (idx + 1)) es"
    and j: "j < length es" "lfirst l \<le> idx + 1 + j"
  shows "log_term E l' (idx + 1 + j) = Some (Inr (e_term (es ! j)))"
proof -
  have t: "0 < e_term (es ! j)" using tm j by simp
  define i where "i = idx + 1 + j - lfirst l"
  have i: "idx + 1 + j = lfirst l + i" using j(2) by (simp add: i_def)
  have old: "i < length (lents l) \<and> e_term (lents l ! i) = e_term (es ! j)"
    if "log_term E l (idx + 1 + j) = Some (Inr (e_term (es ! j)))"
    using match_in_log [OF inv that t] i by simp
  have "i < length (lents l') \<and> e_term (lents l' ! i) = e_term (es ! j)"
  proof (cases "find (conflicts l) es")
    case None
    then have "\<not> conflicts l (es ! j)" using j(1) by (simp add: find_None_iff)
    then have "log_term E l (idx + 1 + j) = Some (Inr (e_term (es ! j)))" using continuous_nth [OF cont j(1)] by simp
    with old v None show ?thesis by simp
  next
    case (Some e)
    obtain k where k: "k < length es" "e_index e = idx + 1 + k"
      "\<forall>j < k. log_term E l (idx + 1 + j) = Some (Inr (e_term (es ! j)))"
      using find_conflict_position [OF cont Some] by auto
    define A where "A = take (idx + 1 + k - lfirst l) (lents l)"
    have "idx + 1 + k \<le> lfirst l + length (lents l)" using matching_end [OF inv cont tm idx _ k(3)] k(1) by simp
    moreover have "lfirst l \<le> idx + 1 + k" using co [OF Some] k(2) inv by (simp add: log_inv_def)
    ultimately have A: "length A = idx + 1 + k - lfirst l" "lfirst l \<le> idx + 1 + k" by (simp_all add: A_def)
    have l': "lents l' = A @ drop k es" using v Some k(2) by (simp add: A_def)
    show ?thesis
    proof (cases "j < k")
      case True
      then have o: "i < length (lents l) \<and> e_term (lents l ! i) = e_term (es ! j)" using k(3) old by simp
      have "i < length A" using True i A by linarith
      then have "(A @ drop k es) ! i = lents l ! i" by (simp add: nth_append A_def)
      with l' o \<open>i < length A\<close> show ?thesis by simp
    next
      case False
      then have n: "i = length A + (j - k)" "j = k + (j - k)" using i A by linarith+
      have "(A @ drop k es) ! i = es ! j" using j(1) n(2) by (subst n(1)) (simp only: nth_append_length_plus nth_drop)
      with l' n j(1) show ?thesis by simp
    qed
  qed
  then show ?thesis using log_term_in [OF inv', of i] f i by simp
qed

text \<open>The entries handed out for application.\<close>

lemma next_entries_since_eq:
  assumes inv: "linv l" and b: "rl_persisted l + rl_max_apply_unpersisted_log_limit l \<le> U64_MAX" "since < U64_MAX"
  defines "off \<equiv> max (since + 1) (lfirst l)"
    and "high \<equiv> min (rl_committed l) (rl_persisted l + rl_max_apply_unpersisted_log_limit l) + 1"
  shows "\<exists>s. linv (l\<lparr>rl_store := s\<rparr>) \<and> lents (l\<lparr>rl_store := s\<rparr>) = lents l \<and> lfirst (l\<lparr>rl_store := s\<rparr>) = lfirst l
     \<and> has_next_entries_since E l since = Some (off < high)
     \<and> (if off < high
        then \<exists>es. limit_size (pb_compute_size E) (take (high - off) (drop (off - lfirst l) (lents l))) sz = Some es
          \<and> next_entries_since E l since sz = Some (Some es, l\<lparr>rl_store := s\<rparr>)
        else next_entries_since E l since sz = Some (None, l\<lparr>rl_store := s\<rparr>))"
proof -
  have c: "rl_committed l < lfirst l + length (lents l)" "lfirst l + length (lents l) \<le> U64_MAX"
    using inv lbound [OF inv] by (auto simp: log_inv_def)
  have ub: "applied_index_upper_bound l = Some (high - 1)" using b by (simp add: applied_index_upper_bound_def high_def)
  have h: "u64_add (high - 1) 1 = Some high" "high \<le> lfirst l + length (lents l)" using c by (auto simp: high_def)
  have off: "max (since + 1) (lfirst l) = off" by (simp add: off_def)
  have has: "has_next_entries_since E l since = Some (off < high)"
    using b ub h by (simp add: has_next_entries_since_def log_first_index_eq [OF inv] off_def)
  show ?thesis
  proof (cases "off < high")
    case True
    then have r: "lfirst l \<le> off" "off \<le> high" and lt: "Suc since < high" "lfirst l < high" by (auto simp: off_def)
    obtain r s where s: "log_slice E l off high sz GenReady = Some (r, l\<lparr>rl_store := s\<rparr>)"
      "linv (l\<lparr>rl_store := s\<rparr>)" "lfirst (l\<lparr>rl_store := s\<rparr>) = lfirst l" "lents (l\<lparr>rl_store := s\<rparr>) = lents l"
      "map_option Inr (limit_size (pb_compute_size E) (take (high - off) (drop (off - lfirst l) (lents l))) sz) = Some r"
      using log_slice_eq [OF inv r h(2), of sz GenReady] by (auto simp: can_async_def)
    have "next_entries_since E l since sz = Some (Some (projr r), l\<lparr>rl_store := s\<rparr>)"
      using b ub h s(1,5) lt
      by (auto simp: next_entries_since_def log_first_index_eq [OF inv] Let_def off [simplified])
    with True has s show ?thesis by auto
  next
    case False
    then have "\<not> (Suc since < high \<and> lfirst l < high)" by (auto simp: off_def)
    then have "next_entries_since E l since sz = Some (None, l)"
      using b ub h by (auto simp: next_entries_since_def log_first_index_eq [OF inv] Let_def)
    then have "next_entries_since E l since sz = Some (None, l\<lparr>rl_store := rl_store l\<rparr>)" by simp
    with False has inv show ?thesis by (intro exI [of _ "rl_store l"]) simp
  qed
qed

text \<open>
  Scanning a range: the callback gets a first page that is not empty, and decides whether the rest of
  the range is scanned.
\<close>

lemma log_scan_page:
  fixes v :: "entry list \<Rightarrow> 'a \<Rightarrow> bool \<times> 'a"
  assumes inv: "linv l" and lo: "lfirst l \<le> lo" and lt: "lo < hi" and hi: "hi \<le> lfirst l + length (lents l)" and c: "\<not> can_async c"
  obtains s n where "0 < n" "lo + n \<le> hi" "linv (l\<lparr>rl_store := s\<rparr>)" "lfirst (l\<lparr>rl_store := s\<rparr>) = lfirst l"
    "lents (l\<lparr>rl_store := s\<rparr>) = lents l"
    "log_scan E l lo hi pg c v acc =
       (case v (take n (drop (lo - lfirst l) (lents l))) acc of
          (False, acc) \<Rightarrow> Some (Inr (), acc, l\<lparr>rl_store := s\<rparr>)
        | (True, acc) \<Rightarrow> log_scan E (l\<lparr>rl_store := s\<rparr>) (lo + n) hi pg c v acc)"
proof -
  let ?all = "take (hi - lo) (drop (lo - lfirst l) (lents l))"
  obtain es s where s: "log_slice E l lo hi (Some pg) c = Some (Inr es, l\<lparr>rl_store := s\<rparr>)"
    "linv (l\<lparr>rl_store := s\<rparr>)" "lfirst (l\<lparr>rl_store := s\<rparr>) = lfirst l" "lents (l\<lparr>rl_store := s\<rparr>) = lents l"
    and es: "limit_size (pb_compute_size E) ?all (Some pg) = Some es"
    using log_slice_eq [OF inv lo less_imp_le [OF lt] hi, of "Some pg" c] c by auto
  have len: "length ?all = hi - lo" using lo hi by simp
  then have "?all \<noteq> []" using lt by auto
  then obtain n where n: "n \<le> length ?all" "es = take n ?all" "0 < n" using limit_size_prefix [OF es] by auto
  have ln: "length es = n" "n \<le> hi - lo" using n len by auto
  then have le: "lo + n \<le> hi" using lt by simp
  have bd: "lo + n \<le> U64_MAX" using le hi lbound [OF inv] by linarith
  have page: "es = take n (drop (lo - lfirst l) (lents l))" using n(2) ln(2) by (simp add: min_def)
  have "es \<noteq> []" using ln n(3) by auto
  then have "log_scan E l lo hi pg c v acc =
      (case v es acc of (False, acc) \<Rightarrow> Some (Inr (), acc, l\<lparr>rl_store := s\<rparr>)
       | (True, acc) \<Rightarrow> log_scan E (l\<lparr>rl_store := s\<rparr>) (lo + n) hi pg c v acc)"
    using s(1) lt ln bd by (subst log_scan.simps) simp
  with that [OF n(3) le s(2-4)] page show ?thesis by simp
qed

lemma page_split:
  fixes lo n hi f :: nat
  assumes "f \<le> lo" and "lo + n \<le> hi"
  shows "take (hi - lo) (drop (lo - f) xs) = take n (drop (lo - f) xs) @ take (hi - (lo + n)) (drop (lo + n - f) xs)"
proof -
  have "hi - lo = n + (hi - (lo + n))" "lo + n - f = n + (lo - f)" using assms by simp_all
  then show ?thesis by (simp only: take_add drop_drop)
qed

text \<open>
  The pages joined are the range: every entry is shown once, in order. And a search that stops at the
  first page with a match finds one exactly when the range has one.
\<close>

lemma log_scan_collects:
  assumes "linv l" and "lfirst l \<le> lo" and "lo \<le> hi" and "hi \<le> lfirst l + length (lents l)" and "\<not> can_async c"
  shows "\<exists>s. log_scan E l lo hi pg c (\<lambda>page acc. (True, acc @ page)) acc
     = Some (Inr (), acc @ take (hi - lo) (drop (lo - lfirst l) (lents l)), l\<lparr>rl_store := s\<rparr>)"
  using assms
proof (induction "hi - lo" arbitrary: l lo acc rule: less_induct)
  case less
  show ?case
  proof (cases "lo < hi")
    case False
    then show ?thesis by (intro exI [of _ "rl_store l"]) (simp add: log_scan.simps)
  next
    case True
    from log_scan_page [OF less.prems(1,2) True less.prems(4,5), of pg "\<lambda>page acc. (True, acc @ page)" acc]
    obtain s n where n: "0 < n" "lo + n \<le> hi" "linv (l\<lparr>rl_store := s\<rparr>)" "lfirst (l\<lparr>rl_store := s\<rparr>) = lfirst l"
      "lents (l\<lparr>rl_store := s\<rparr>) = lents l" and
      run: "log_scan E l lo hi pg c (\<lambda>page acc. (True, acc @ page)) acc =
        log_scan E (l\<lparr>rl_store := s\<rparr>) (lo + n) hi pg c (\<lambda>page acc. (True, acc @ page)) (acc @ take n (drop (lo - lfirst l) (lents l)))"
      by simp metis
    have "hi - (lo + n) < hi - lo" "lfirst (l\<lparr>rl_store := s\<rparr>) \<le> lo + n"
      "hi \<le> lfirst (l\<lparr>rl_store := s\<rparr>) + length (lents (l\<lparr>rl_store := s\<rparr>))"
      using n less.prems(2,4) True by simp_all
    from less.hyps [OF this(1) n(3) this(2) n(2) this(3) less.prems(5), of "acc @ take n (drop (lo - lfirst l) (lents l))"]
    show ?thesis unfolding run n(4,5) page_split [OF less.prems(2) n(2)] by simp
  qed
qed

lemma log_scan_finds:
  assumes "linv l" and "lfirst l \<le> lo" and "lo \<le> hi" and "hi \<le> lfirst l + length (lents l)" and "\<not> can_async c"
  shows "\<exists>s. log_scan E l lo hi pg c (\<lambda>page found. if list_ex P page then (False, True) else (True, found)) False
     = Some (Inr (), list_ex P (take (hi - lo) (drop (lo - lfirst l) (lents l))), l\<lparr>rl_store := s\<rparr>) \<and> linv (l\<lparr>rl_store := s\<rparr>)"
  using assms
proof (induction "hi - lo" arbitrary: l lo rule: less_induct)
  case less
  let ?v = "\<lambda>page found. if list_ex P page then (False, True) else (True, found)"
  show ?case
  proof (cases "lo < hi")
    case False
    then show ?thesis using less.prems(1) by (intro exI [of _ "rl_store l"]) (simp add: log_scan.simps)
  next
    case True
    from log_scan_page [OF less.prems(1,2) True less.prems(4,5), of pg ?v False]
    obtain s n where n: "0 < n" "lo + n \<le> hi" "linv (l\<lparr>rl_store := s\<rparr>)" "lfirst (l\<lparr>rl_store := s\<rparr>) = lfirst l"
      "lents (l\<lparr>rl_store := s\<rparr>) = lents l" and
      run: "log_scan E l lo hi pg c ?v False =
        (case ?v (take n (drop (lo - lfirst l) (lents l))) False of
           (False, acc) \<Rightarrow> Some (Inr (), acc, l\<lparr>rl_store := s\<rparr>)
         | (True, acc) \<Rightarrow> log_scan E (l\<lparr>rl_store := s\<rparr>) (lo + n) hi pg c ?v acc)" .
    have le: "hi - (lo + n) < hi - lo" "lfirst (l\<lparr>rl_store := s\<rparr>) \<le> lo + n"
      "hi \<le> lfirst (l\<lparr>rl_store := s\<rparr>) + length (lents (l\<lparr>rl_store := s\<rparr>))"
      using n less.prems(2,4) True by simp_all
    note rest = less.hyps [OF le(1) n(3) le(2) n(2) le(3) less.prems(5)]
    show ?thesis
    proof (cases "list_ex P (take n (drop (lo - lfirst l) (lents l)))")
      case True
      then show ?thesis unfolding run page_split [OF less.prems(2) n(2)] using n(3) by auto
    next
      case False
      then show ?thesis using rest unfolding run n(4,5) page_split [OF less.prems(2) n(2)] by simp
    qed
  qed
qed

text \<open>
  Looking for the last index whose term is at most a given one: the search goes down over entries
  with a larger term only, and stops.
\<close>

lemma log_term_at_zero:
  assumes inv: "linv l" and t: "log_term E l 0 = Some (Inr t)"
    and sn: "\<And>sn. un_snapshot (rl_unstable l) = Some sn \<Longrightarrow> snap_index sn = 0 \<Longrightarrow> snap_term sn = 0"
  shows "t = 0"
proof (cases "1 < lfirst l")
  case True
  then show ?thesis using log_term_out [OF inv, of 0] t by simp
next
  case False
  then have one: "lfirst l = 1" using lfirst_pos [OF inv] by simp
  then have off: "0 < un_offset (rl_unstable l)" using stable_length [OF inv] by simp
  show ?thesis
  proof (cases "un_snapshot (rl_unstable l)")
    case None
    then have "st_term E (rl_store l) 0 = Some (Inr t)"
      using t off one log_first_index_eq [OF inv] log_last_index_eq [OF inv] maybe_term_eq [OF linv_unstable [OF inv]]
      by (cases "st_term E (rl_store l) 0"; cases "the (st_term E (rl_store l) 0)") (auto simp: log_term_def split: if_splits)
    then show ?thesis using term_zero [OF linv_wf [OF inv]] by simp
  next
    case (Some s)
    then have "un_offset (rl_unstable l) = 1" using one by (simp add: log_first_def)
    with Some linv_unstable [OF inv] have "snap_index s = 0" by (simp add: unstable_inv_def)
    with Some sn t off one \<open>un_offset (rl_unstable l) = 1\<close> show ?thesis
      by (auto simp: log_term_def log_first_index_eq [OF inv] log_last_index_eq [OF inv] maybe_term_eq [OF linv_unstable [OF inv]])
  qed
qed

lemma conflict_scan_spec:
  assumes inv: "linv l"
    and sn: "\<And>sn. un_snapshot (rl_unstable l) = Some sn \<Longrightarrow> snap_index sn = 0 \<Longrightarrow> snap_term sn = 0"
  shows "\<exists>k t. conflict_scan E l tm i = Some (k, t) \<and> k \<le> i
     \<and> (\<forall>j. k < j \<and> j \<le> i \<longrightarrow> (\<exists>u > tm. log_term E l j = Some (Inr u)))
     \<and> (case t of Some u \<Rightarrow> log_term E l k = Some (Inr u) \<and> u \<le> tm
        | None \<Rightarrow> log_term E l k = Some (Inl (Store Compacted)) \<and> k + 1 = lfirst l)"
proof (induction i)
  case 0
  obtain t where "log_term E l 0 = Some (Inr t) \<or> log_term E l 0 = Some (Inl (Store Compacted)) \<and> 0 + 1 = lfirst l"
    using log_term_total [OF inv] by blast
  moreover have "t = 0" if "log_term E l 0 = Some (Inr t)" using log_term_at_zero [OF inv that sn] by blast
  ultimately show ?case by (subst conflict_scan.simps) auto
next
  case (Suc i)
  obtain k u where k: "conflict_scan E l tm i = Some (k, u)" "k \<le> i"
    "\<forall>j. k < j \<and> j \<le> i \<longrightarrow> (\<exists>u > tm. log_term E l j = Some (Inr u))"
    "case u of Some u \<Rightarrow> log_term E l k = Some (Inr u) \<and> u \<le> tm
       | None \<Rightarrow> log_term E l k = Some (Inl (Store Compacted)) \<and> k + 1 = lfirst l"
    using Suc.IH by blast
  obtain t where t: "log_term E l (Suc i) = Some (Inr t)
      \<or> log_term E l (Suc i) = Some (Inl (Store Compacted)) \<and> Suc i + 1 = lfirst l"
    using log_term_total [OF inv] by blast
  show ?case
  proof (cases "log_term E l (Suc i) = Some (Inr t) \<and> tm < t")
    case True
    then have "conflict_scan E l tm (Suc i) = Some (k, u)" using k(1) by (subst conflict_scan.simps) simp
    moreover have "\<forall>j. k < j \<and> j \<le> Suc i \<longrightarrow> (\<exists>u > tm. log_term E l j = Some (Inr u))"
      using k(3) True by (auto simp: le_Suc_eq)
    ultimately show ?thesis using k(2,4) by (intro exI [of _ k] exI [of _ u]) auto
  next
    case False
    then have "conflict_scan E l tm (Suc i) = Some (Suc i, case log_term E l (Suc i) of Some (Inr t) \<Rightarrow> Some t | _ \<Rightarrow> None)"
      using t by (subst conflict_scan.simps) auto
    with t False show ?thesis by (intro exI [of _ "Suc i"]) auto
  qed
qed

end

end
