(* ===== verification/Inflights.thy ===== *)
theory Inflights
  imports Prelude
begin

text \<open>
  \<open>src/tracker/inflights.rs\<close>: the ring buffer of the indices of append messages that are on
  their way to a follower, with a capacity that can be changed while messages are in flight.

  The state has the fields of the source; \<open>in_allocated\<close> stands for \<open>buffer.capacity() > 0\<close>,
  the only thing the code asks of the capacity of the vector. Allocation does not fail. A vector
  has at most \<open>isize::MAX\<close> bytes, so the capacities of the invariant are below half the range of
  \<open>usize\<close>.

  The specification is a queue: \<open>window\<close> reads the ring buffer as a list, oldest first, and every
  operation is a list operation on it. The locale \<open>inflight_queue\<close> is that contract, with the
  facts its clients use; the interpretation at the end discharges it for the ring buffer.
\<close>

section \<open>State and operations\<close>

record inflights =
  in_start :: usize
  in_count :: usize
  in_buffer :: "u64 list"
  in_cap :: usize
  in_incoming_cap :: "usize option"
  in_allocated :: bool

definition inflights_new :: "usize \<Rightarrow> inflights" where
  "inflights_new cap =
     \<lparr>in_start = 0, in_count = 0, in_buffer = [], in_cap = cap, in_incoming_cap = None,
      in_allocated = (cap > 0)\<rparr>"

definition inflights_set_cap :: "inflights \<Rightarrow> usize \<Rightarrow> inflights option" where
  "inflights_set_cap s incoming_cap =
     (if in_cap s = incoming_cap then Some (s\<lparr>in_incoming_cap := None\<rparr>)
      else if in_cap s < incoming_cap then do {
        used \<leftarrow> u64_add (in_start s) (in_count s);
        s' \<leftarrow>
          (if used \<le> in_cap s then
             if in_allocated s then do {
               _ \<leftarrow> u64_sub incoming_cap (length (in_buffer s));
               Some s
             } else Some s
           else do {
             rust_assert (in_cap s = length (in_buffer s));
             front \<leftarrow> vec_from (in_buffer s) (in_start s);
             tail_len \<leftarrow> u64_sub (in_cap s) (in_start s);
             n \<leftarrow> u64_sub (in_count s) tail_len;
             back \<leftarrow> vec_range (in_buffer s) 0 n;
             Some (s\<lparr>in_buffer := front @ back, in_start := 0, in_allocated := True\<rparr>)
           });
        Some (s'\<lparr>in_cap := incoming_cap, in_incoming_cap := None\<rparr>)
      }
      else if in_count s = 0 then
        Some (s\<lparr>in_cap := incoming_cap, in_incoming_cap := None, in_start := 0,
                in_buffer := (if in_allocated s then [] else in_buffer s),
                in_allocated := (in_allocated s \<and> incoming_cap > 0)\<rparr>)
      else Some (s\<lparr>in_incoming_cap := Some incoming_cap\<rparr>))"

definition inflights_full :: "inflights \<Rightarrow> bool" where
  "inflights_full s \<longleftrightarrow>
     in_count s = in_cap s
     \<or> (case in_incoming_cap s of None \<Rightarrow> False | Some cap \<Rightarrow> in_count s \<ge> cap)"

definition inflights_add :: "inflights \<Rightarrow> u64 \<Rightarrow> inflights option" where
  "inflights_add s inflight =
     do {
       rust_assert (\<not> inflights_full s);
       s \<leftarrow>
         (if \<not> in_allocated s then do {
            rust_assert (in_count s = 0);
            rust_assert (in_start s = 0);
            rust_assert (in_incoming_cap s = None);
            Some (s\<lparr>in_buffer := [], in_allocated := (in_cap s > 0)\<rparr>)
          } else Some s);
       end \<leftarrow> u64_add (in_start s) (in_count s);
       let nxt = (if end \<ge> in_cap s then end - in_cap s else end);
       rust_assert (nxt \<le> length (in_buffer s));
       s \<leftarrow>
         (if nxt = length (in_buffer s)
          then Some (s\<lparr>in_buffer := in_buffer s @ [inflight], in_allocated := True\<rparr>)
          else do {
            buf \<leftarrow> vec_set (in_buffer s) nxt inflight;
            Some (s\<lparr>in_buffer := buf\<rparr>)
          });
       n \<leftarrow> u64_add (in_count s) 1;
       Some (s\<lparr>in_count := n\<rparr>)
     }"

text \<open>The \<open>while\<close> loop of \<open>free_to\<close>: how many leading messages to free, and the index after them.\<close>

function free_scan :: "inflights \<Rightarrow> u64 \<Rightarrow> usize \<Rightarrow> usize \<Rightarrow> (usize \<times> usize) option" where
  "free_scan s to i idx =
     (if i < in_count s then do {
        b \<leftarrow> vec_get (in_buffer s) idx;
        if to < b then Some (i, idx)
        else do {
          idx' \<leftarrow> u64_add idx 1;
          free_scan s to (i + 1) (if idx' \<ge> in_cap s then idx' - in_cap s else idx')
        }
      }
      else Some (i, idx))"
  by pat_completeness auto
termination by (relation "measure (\<lambda>(s, _, i, _). in_count s - i)") auto

declare free_scan.simps [simp del]

definition inflights_free_to :: "inflights \<Rightarrow> u64 \<Rightarrow> inflights option" where
  "inflights_free_to s to =
     (if in_count s = 0 then Some s
      else do {
        b \<leftarrow> vec_get (in_buffer s) (in_start s);
        if to < b then Some s
        else do {
          (i, idx) \<leftarrow> free_scan s to 0 (in_start s);
          n \<leftarrow> u64_sub (in_count s) i;
          let s = s\<lparr>in_count := n, in_start := idx\<rparr>;
          if n = 0 then
            (case in_incoming_cap s of
               None \<Rightarrow> Some s
             | Some incoming_cap \<Rightarrow>
                 Some (s\<lparr>in_incoming_cap := None, in_start := 0, in_cap := incoming_cap,
                         in_buffer := [], in_allocated := (incoming_cap > 0)\<rparr>))
          else Some s
        }
      })"

definition inflights_free_first_one :: "inflights \<Rightarrow> inflights option" where
  "inflights_free_first_one s =
     (if in_count s > 0 then do {
        start \<leftarrow> vec_get (in_buffer s) (in_start s);
        inflights_free_to s start
      }
      else Some s)"

definition inflights_reset :: "inflights \<Rightarrow> inflights" where
  "inflights_reset s =
     s\<lparr>in_count := 0, in_start := 0, in_buffer := [], in_allocated := False,
       in_cap := (case in_incoming_cap s of None \<Rightarrow> in_cap s | Some c \<Rightarrow> c),
       in_incoming_cap := None\<rparr>"

definition inflights_maybe_free_buffer :: "inflights \<Rightarrow> inflights" where
  "inflights_maybe_free_buffer s =
     (if in_count s = 0 then s\<lparr>in_start := 0, in_buffer := [], in_allocated := False\<rparr> else s)"

section \<open>Invariant and abstraction\<close>

definition ins_inv :: "inflights \<Rightarrow> bool" where
  "ins_inv s \<longleftrightarrow>
     in_count s \<le> in_cap s \<and> 2 * in_cap s \<le> U64_MAX
     \<and> length (in_buffer s) \<le> in_cap s
     \<and> (in_start s + in_count s \<le> length (in_buffer s) \<or> length (in_buffer s) = in_cap s)
     \<and> (in_start s < in_cap s \<or> in_start s = 0)
     \<and> (\<not> in_allocated s \<longrightarrow> in_count s = 0 \<and> in_start s = 0 \<and> in_buffer s = [])
     \<and> (case in_incoming_cap s of None \<Rightarrow> True | Some c \<Rightarrow> c < in_cap s \<and> 0 < in_count s)"

definition slot :: "inflights \<Rightarrow> nat \<Rightarrow> nat" where
  "slot s i = (in_start s + i) mod in_cap s"

definition window :: "inflights \<Rightarrow> u64 list" where
  "window s = map (\<lambda>i. in_buffer s ! slot s i) [0..<in_count s]"

text \<open>How many messages the queue takes: the announced capacity when a smaller one is pending.\<close>

definition cap_limit :: "inflights \<Rightarrow> usize" where
  "cap_limit s = (case in_incoming_cap s of None \<Rightarrow> in_cap s | Some c \<Rightarrow> c)"

section \<open>The contract of the queue\<close>

locale inflight_queue =
  fixes wf :: "'s \<Rightarrow> bool" and content :: "'s \<Rightarrow> u64 list" and limit :: "'s \<Rightarrow> usize"
    and full :: "'s \<Rightarrow> bool" and add :: "'s \<Rightarrow> u64 \<Rightarrow> 's option"
    and free_to :: "'s \<Rightarrow> u64 \<Rightarrow> 's option" and reset :: "'s \<Rightarrow> 's"
  assumes full_iff: "wf s \<Longrightarrow> full s \<longleftrightarrow> limit s \<le> length (content s)"
    and add_full: "full s \<Longrightarrow> add s x = None"
    and add_refines: "\<lbrakk>wf s; \<not> full s\<rbrakk> \<Longrightarrow>
          \<exists>t. add s x = Some t \<and> wf t \<and> content t = content s @ [x] \<and> limit t = limit s"
    and free_to_refines: "wf s \<Longrightarrow>
          \<exists>t. free_to s k = Some t \<and> wf t \<and> content t = dropWhile (\<lambda>x. x \<le> k) (content s)
            \<and> limit t = limit s"
    and reset_refines: "wf s \<Longrightarrow> wf (reset s) \<and> content (reset s) = [] \<and> limit (reset s) = limit s"
begin

text \<open>Indices are sent in increasing order, and then freeing is by value.\<close>

lemma add_sorted:
  assumes "wf s" and "sorted_wrt (<) (content s)" and "\<forall>y \<in> set (content s). y < x"
    and "add s x = Some t"
  shows "wf t \<and> sorted_wrt (<) (content t) \<and> content t = content s @ [x]"
proof -
  have "\<not> full s" using add_full assms(4) by auto
  from add_refines [OF assms(1) this, of x] assms show ?thesis by (auto simp: sorted_wrt_append)
qed

lemma free_to_sorted:
  assumes "wf s" and "sorted_wrt (<) (content s)" and "free_to s k = Some t"
  shows "wf t \<and> sorted_wrt (<) (content t) \<and> content t = filter (\<lambda>y. k < y) (content s)"
proof -
  have t: "wf t" "content t = dropWhile (\<lambda>x. x \<le> k) (content s)"
    using free_to_refines [OF assms(1), of k] assms(3) by auto
  have "dropWhile (\<lambda>x. x \<le> k) xs = filter (\<lambda>y. k < y) xs" if "sorted_wrt (<) xs" for xs :: "u64 list"
    using that
  proof (induction xs)
    case (Cons x xs)
    show ?case
    proof (cases "x \<le> k")
      case False
      with Cons.prems have "filter (\<lambda>y. k < y) xs = xs" by (auto intro!: filter_True)
      with False show ?thesis by simp
    qed (use Cons in simp)
  qed simp
  with t assms(2) show ?thesis by (auto simp: sorted_wrt_filter)
qed

lemma free_to_total: "wf s \<Longrightarrow> \<exists>t. free_to s k = Some t \<and> wf t"
  using free_to_refines by blast

lemma add_total: "wf s \<Longrightarrow> \<not> full s \<Longrightarrow> \<exists>t. add s x = Some t \<and> wf t"
  using add_refines by blast

lemma free_to_length: "wf s \<Longrightarrow> free_to s k = Some t \<Longrightarrow> length (content t) \<le> length (content s)"
  using free_to_refines [of s k] by (auto simp: length_dropWhile_le)

text \<open>A full queue whose oldest message is freed has room again.\<close>

lemma free_head_not_full:
  assumes "wf s" and "content s \<noteq> []" and "free_to s (hd (content s)) = Some t"
    and "length (content s) \<le> limit s"
  shows "\<not> full t"
proof -
  have t: "wf t" "content t = dropWhile (\<lambda>x. x \<le> hd (content s)) (content s)" "limit t = limit s"
    using free_to_refines [OF assms(1), of "hd (content s)"] assms(3) by auto
  obtain y ys where ys: "content s = y # ys" using assms(2) by (cases "content s") auto
  have "length (content t) < length (content s)"
    using t(2) ys length_dropWhile_le [of "\<lambda>x. x \<le> y" ys] by simp
  with t assms(4) full_iff show ?thesis by auto
qed

end

section \<open>The ring buffer is such a queue\<close>

lemma length_window [simp]: "length (window s) = in_count s"
  by (simp add: window_def)

lemma slot_lt:
  "ins_inv s \<Longrightarrow> i < in_count s \<Longrightarrow> slot s i < length (in_buffer s)"
  by (auto simp: ins_inv_def slot_def)

lemma slot_0 [simp]: "ins_inv s \<Longrightarrow> slot s 0 = in_start s"
  by (auto simp: ins_inv_def slot_def)

lemma slot_Suc:
  assumes "ins_inv s" and "0 < in_cap s"
  shows "slot s (Suc i) = (if slot s i + 1 \<ge> in_cap s then slot s i + 1 - in_cap s else slot s i + 1)"
proof -
  have "slot s i < in_cap s" using assms(2) by (simp add: slot_def)
  moreover have "slot s (Suc i) = (slot s i + 1) mod in_cap s"
    by (simp add: slot_def mod_Suc_eq)
  ultimately show ?thesis by (simp add: mod_once)
qed

lemma slot_inj:
  assumes "ins_inv s" and "i < j" and "j < in_cap s"
  shows "slot s i \<noteq> slot s j"
proof
  assume "slot s i = slot s j"
  then have "(in_start s + i) mod in_cap s = (in_start s + j) mod in_cap s" by (simp add: slot_def)
  then have "in_cap s dvd (in_start s + j) - (in_start s + i)"
    using assms(2) by (metis add_le_cancel_left less_or_eq_imp_le mod_eq_dvd_iff_nat)
  with assms show False by (auto dest: dvd_imp_le)
qed

lemma next_slot:
  assumes "ins_inv s" and "in_count s < in_cap s"
  shows "(if in_start s + in_count s \<ge> in_cap s then in_start s + in_count s - in_cap s
          else in_start s + in_count s) = slot s (in_count s)"
proof -
  have "in_start s + in_count s < 2 * in_cap s" using assms by (auto simp: ins_inv_def)
  then show ?thesis by (simp add: slot_def mod_once)
qed

lemma next_slot_le:
  assumes "ins_inv s" and "in_count s < in_cap s"
  shows "slot s (in_count s) \<le> length (in_buffer s)"
  using assms next_slot [OF assms] by (auto simp: ins_inv_def split: if_splits)

lemma window_nth: "i < in_count s \<Longrightarrow> window s ! i = in_buffer s ! slot s i"
  by (simp add: window_def)

lemma window_hd: "ins_inv s \<Longrightarrow> 0 < in_count s \<Longrightarrow> window s \<noteq> [] \<and> hd (window s) = in_buffer s ! in_start s"
  by (metis hd_conv_nth length_0_conv length_window less_numeral_extra(3) slot_0 window_nth)


lemma inflights_new_refines:
  "2 * cap \<le> U64_MAX \<Longrightarrow>
     ins_inv (inflights_new cap) \<and> window (inflights_new cap) = [] \<and> cap_limit (inflights_new cap) = cap"
  by (auto simp: ins_inv_def inflights_new_def window_def cap_limit_def)

lemma full_iff_limit: "ins_inv s \<Longrightarrow> inflights_full s \<longleftrightarrow> cap_limit s \<le> length (window s)"
  by (auto simp: ins_inv_def inflights_full_def cap_limit_def split: option.splits)

lemma reset_refines_queue:
  "ins_inv s \<Longrightarrow>
     ins_inv (inflights_reset s) \<and> window (inflights_reset s) = [] \<and> cap_limit (inflights_reset s) = cap_limit s"
  by (auto simp: ins_inv_def inflights_reset_def window_def cap_limit_def split: option.splits)

lemma maybe_free_buffer_refines:
  "ins_inv s \<Longrightarrow>
     ins_inv (inflights_maybe_free_buffer s) \<and> window (inflights_maybe_free_buffer s) = window s
     \<and> cap_limit (inflights_maybe_free_buffer s) = cap_limit s"
  by (auto simp: ins_inv_def inflights_maybe_free_buffer_def window_def cap_limit_def
      split: option.splits)

text \<open>Adding writes one slot, which is none of the window's.\<close>

lemma window_write:
  assumes "ins_inv s" and "in_count s < in_cap s"
    and buf: "buf = (if slot s (in_count s) = length (in_buffer s) then in_buffer s @ [x]
                     else (in_buffer s)[slot s (in_count s) := x])"
  shows "window (s\<lparr>in_buffer := buf, in_count := Suc (in_count s), in_allocated := a\<rparr>) = window s @ [x]"
proof -
  let ?n = "slot s (in_count s)"
  let ?t = "s\<lparr>in_buffer := buf, in_count := Suc (in_count s), in_allocated := a\<rparr>"
  have sl: "slot ?t i = slot s i" for i by (simp add: slot_def)
  have old: "buf ! slot s i = in_buffer s ! slot s i" if "i < in_count s" for i
    using that slot_lt [OF assms(1) that] slot_inj [OF assms(1) that assms(2)] buf
    by (auto simp: nth_append)
  have new: "buf ! ?n = x" using buf next_slot_le [OF assms(1,2)] by auto
  have "window ?t = map (\<lambda>i. buf ! slot s i) [0..<in_count s] @ [x]"
    using new by (simp add: window_def sl)
  also have "map (\<lambda>i. buf ! slot s i) [0..<in_count s] = window s" using old by (simp add: window_def)
  finally show ?thesis .
qed

lemma ins_inv_write:
  assumes "ins_inv s" and "in_count s < in_cap s" and "\<not> inflights_full s"
    and "buf = (if slot s (in_count s) = length (in_buffer s) then in_buffer s @ [x]
                else (in_buffer s)[slot s (in_count s) := x])"
  shows "ins_inv (s\<lparr>in_buffer := buf, in_count := Suc (in_count s), in_allocated := True\<rparr>)"
  using assms next_slot [OF assms(1,2)] next_slot_le [OF assms(1,2)]
  by (auto simp: ins_inv_def split: if_splits option.splits)

lemma add_refines_queue:
  assumes inv: "ins_inv s" and nf: "\<not> inflights_full s"
  shows "\<exists>t. inflights_add s x = Some t \<and> ins_inv t \<and> window t = window s @ [x] \<and> cap_limit t = cap_limit s"
proof -
  have lt: "in_count s < in_cap s" using inv nf by (auto simp: ins_inv_def inflights_full_def)
  define buf where "buf = (if slot s (in_count s) = length (in_buffer s) then in_buffer s @ [x]
                     else (in_buffer s)[slot s (in_count s) := x])"
  let ?t = "s\<lparr>in_buffer := buf, in_count := Suc (in_count s), in_allocated := True\<rparr>"
  have bounds: "in_start s + in_count s \<le> U64_MAX" "in_count s + 1 \<le> U64_MAX"
    using inv lt by (auto simp: ins_inv_def)
  have un: "\<not> in_allocated s \<Longrightarrow> in_count s = 0 \<and> in_start s = 0 \<and> in_incoming_cap s = None \<and> in_buffer s = []"
    using inv by (auto simp: ins_inv_def split: option.splits)
  have "inflights_add s x = Some ?t"
  proof (cases "in_allocated s")
    case True
    then have id: "s\<lparr>in_allocated := True\<rparr> = s" by simp
    show ?thesis
      using nf True bounds next_slot_le [OF inv lt] un
      by (auto simp: inflights_add_def buf_def Let_def next_slot [OF inv lt, simplified] intro: sym [OF id])
  next
    case False
    then show ?thesis using nf lt un by (simp add: inflights_add_def buf_def Let_def slot_def)
  qed
  moreover have "cap_limit ?t = cap_limit s" by (simp add: cap_limit_def split: option.split)
  ultimately show ?thesis
    using window_write [OF inv lt buf_def] ins_inv_write [OF inv lt nf buf_def] by auto
qed

text \<open>The loop of \<open>free_to\<close> stops at the first message above \<open>to\<close>.\<close>

lemma free_scan_eq:
  assumes "ins_inv s" and "i \<le> in_count s" and "0 < in_cap s"
  shows "free_scan s to i (slot s i) =
    (let k = i + length (takeWhile (\<lambda>x. x \<le> to) (drop i (window s))) in Some (k, slot s k))"
  using assms(2)
proof (induction "in_count s - i" arbitrary: i)
  case 0
  then show ?case by (simp add: free_scan.simps [of s to i])
next
  case (Suc n)
  then have i: "i < in_count s" "n = in_count s - Suc i" by simp_all
  have sl: "slot s i < length (in_buffer s)" by (rule slot_lt [OF assms(1) i(1)])
  have dr: "drop i (window s) = in_buffer s ! slot s i # drop (Suc i) (window s)"
    using i(1) by (metis Cons_nth_drop_Suc length_window window_nth)
  have "slot s i + 1 \<le> U64_MAX" using sl assms(1) by (auto simp: ins_inv_def)
  with sl i dr Suc.hyps(1) [OF i(2)] slot_Suc [OF assms(1,3), of i] show ?case
    by (auto simp: free_scan.simps [of s to i] Let_def not_less split: if_splits)
qed

lemma window_advance:
  assumes "ins_inv s" and "k \<le> in_count s"
  shows "window (s\<lparr>in_count := in_count s - k, in_start := slot s k\<rparr>) = drop k (window s)"
proof (rule nth_equalityI)
  fix i assume i: "i < length (window (s\<lparr>in_count := in_count s - k, in_start := slot s k\<rparr>))"
  have "slot (s\<lparr>in_count := in_count s - k, in_start := slot s k\<rparr>) i = slot s (k + i)"
    by (simp add: slot_def mod_add_left_eq add.assoc)
  with i assms(2) show "window (s\<lparr>in_count := in_count s - k, in_start := slot s k\<rparr>) ! i = drop k (window s) ! i"
    by (simp add: window_nth)
qed simp

lemma ins_inv_advance:
  assumes inv: "ins_inv s" and k: "k < in_count s \<or> (k = in_count s \<and> in_incoming_cap s = None)"
  shows "ins_inv (s\<lparr>in_count := in_count s - k, in_start := slot s k\<rparr>)"
proof (cases "in_count s = 0")
  case False
  then have c: "0 < in_cap s" using inv by (auto simp: ins_inv_def)
  then have lt: "slot s k < in_cap s" by (simp add: slot_def)
  have sum: "in_start s + k < 2 * in_cap s" using inv k c by (auto simp: ins_inv_def)
  have "slot s k + (in_count s - k) \<le> length (in_buffer s) \<or> length (in_buffer s) = in_cap s"
    using inv k sum by (auto simp: slot_def mod_once ins_inv_def)
  with inv k lt False show ?thesis by (auto simp: ins_inv_def split: option.splits)
qed (use assms in \<open>auto simp: ins_inv_def slot_def\<close>)

lemma free_to_refines_queue:
  assumes inv: "ins_inv s"
  shows "\<exists>t. inflights_free_to s to = Some t \<and> ins_inv t
     \<and> window t = dropWhile (\<lambda>x. x \<le> to) (window s) \<and> cap_limit t = cap_limit s"
proof (cases "in_count s = 0")
  case True
  then have "window s = []" by (metis length_0_conv length_window)
  with True inv show ?thesis by (auto simp: inflights_free_to_def)
next
  case False
  then have c: "0 < in_cap s" "0 < in_count s" using inv by (auto simp: ins_inv_def)
  have st: "in_start s < length (in_buffer s)" using slot_lt [OF inv c(2)] inv by simp
  obtain ws where ws: "window s = in_buffer s ! in_start s # ws"
    using window_hd [OF inv c(2)] by (metis list.collapse)
  let ?k = "length (takeWhile (\<lambda>x. x \<le> to) (window s))"
  have k: "?k \<le> in_count s" by (metis length_takeWhile_le length_window)
  have scan: "free_scan s to 0 (in_start s) = Some (?k, slot s ?k)"
    using free_scan_eq [OF inv _ c(1), of 0 to] inv by (simp add: Let_def)
  let ?t = "s\<lparr>in_count := in_count s - ?k, in_start := slot s ?k\<rparr>"
  have w: "window ?t = dropWhile (\<lambda>x. x \<le> to) (window s)"
    by (simp only: window_advance [OF inv k] dropWhile_eq_drop)
  show ?thesis
  proof (cases "to < in_buffer s ! in_start s")
    case True
    with False st inv ws show ?thesis by (auto simp: inflights_free_to_def)
  next
    case stale: False
    show ?thesis
    proof (cases "in_count s - ?k = 0 \<and> in_incoming_cap s \<noteq> None")
      case True
      then obtain m where m: "in_incoming_cap s = Some m" "in_count s = ?k" using k by auto
      then have "window ?t = []" using True by (simp add: window_def)
      with m stale False st scan inv w show ?thesis
        by (auto simp: inflights_free_to_def Let_def ins_inv_def window_def cap_limit_def)
    next
      case keep: False
      have "inflights_free_to s to = Some ?t"
        using stale False st scan k keep by (auto simp: inflights_free_to_def Let_def split: option.splits)
      moreover have "ins_inv ?t" by (rule ins_inv_advance [OF inv]) (use keep k in auto)
      ultimately show ?thesis using w by (auto simp: cap_limit_def split: option.split)
    qed
  qed
qed

interpretation ring: inflight_queue
  ins_inv window cap_limit inflights_full inflights_add inflights_free_to inflights_reset
proof
  show "inflights_full s \<Longrightarrow> inflights_add s x = None" for s x by (simp add: inflights_add_def)
qed (rule full_iff_limit add_refines_queue free_to_refines_queue reset_refines_queue; assumption)+


lemma free_first_one_refines:
  assumes "ins_inv s"
  shows "\<exists>t. inflights_free_first_one s = Some t \<and> ins_inv t \<and> cap_limit t = cap_limit s
     \<and> window t = (case window s of [] \<Rightarrow> [] | x # _ \<Rightarrow> dropWhile (\<lambda>y. y \<le> x) (window s))"
proof (cases "in_count s = 0")
  case True
  then have "window s = []" by (metis length_0_conv length_window)
  with True assms show ?thesis by (auto simp: inflights_free_first_one_def)
next
  case False
  then have st: "in_start s < length (in_buffer s)" using slot_lt [OF assms, of 0] assms by simp
  obtain ws where ws: "window s = in_buffer s ! in_start s # ws"
    using window_hd [OF assms] False by (metis list.collapse neq0_conv)
  show ?thesis
    using free_to_refines_queue [OF assms, of "in_buffer s ! in_start s"] st False ws
    by (auto simp: inflights_free_first_one_def)
qed

text \<open>Growing the ring: a window that wraps around is unrolled, any other stays where it is.\<close>

lemma window_unrolled:
  assumes "ins_inv s" and "in_cap s < in_start s + in_count s"
  shows "window s = drop (in_start s) (in_buffer s)
                  @ take (in_count s - (in_cap s - in_start s)) (in_buffer s)"
proof (rule nth_equalityI)
  have len: "length (in_buffer s) = in_cap s" "in_start s < in_cap s"
    using assms by (auto simp: ins_inv_def)
  show "length (window s) = length (drop (in_start s) (in_buffer s)
                  @ take (in_count s - (in_cap s - in_start s)) (in_buffer s))"
    using assms len by (auto simp: ins_inv_def)
  fix i assume "i < length (window s)"
  then have i: "i < in_count s" "in_start s + i < 2 * in_cap s" using assms len by (auto simp: ins_inv_def)
  show "window s ! i = (drop (in_start s) (in_buffer s)
                  @ take (in_count s - (in_cap s - in_start s)) (in_buffer s)) ! i"
    using i len by (auto simp: window_nth slot_def mod_once nth_append add.commute intro!: arg_cong2 [of _ _ _ _ nth])
qed

lemma window_straight:
  assumes "in_start s + in_count s \<le> in_cap s" and "in_cap s \<le> c"
  shows "window (s\<lparr>in_cap := c, in_incoming_cap := i\<rparr>) = window s"
  using assms by (auto simp: window_def slot_def)

lemma set_cap_refines:
  assumes inv: "ins_inv s" and c: "2 * c \<le> U64_MAX"
  shows "\<exists>t. inflights_set_cap s c = Some t \<and> ins_inv t \<and> window t = window s \<and> cap_limit t = c"
proof -
  consider (eq) "in_cap s = c" | (grow) "in_cap s < c" "in_start s + in_count s \<le> in_cap s"
    | (unroll) "in_cap s < c" "in_cap s < in_start s + in_count s" | (shrink) "c < in_cap s" by linarith
  then show ?thesis
  proof cases
    case eq
    with inv show ?thesis
      by (auto simp: inflights_set_cap_def ins_inv_def window_def slot_def cap_limit_def)
  next
    case grow
    let ?t = "s\<lparr>in_cap := c, in_incoming_cap := None\<rparr>"
    have "inflights_set_cap s c = Some ?t"
      using grow inv c by (auto simp: inflights_set_cap_def ins_inv_def)
    moreover have "ins_inv ?t" using grow inv c by (auto simp: ins_inv_def)
    ultimately show ?thesis using window_straight [OF grow(2), of c None] grow(1)
      by (simp add: cap_limit_def)
  next
    case unroll
    let ?buf = "drop (in_start s) (in_buffer s)
                  @ take (in_count s - (in_cap s - in_start s)) (in_buffer s)"
    let ?t = "s\<lparr>in_buffer := ?buf, in_start := 0, in_allocated := True, in_cap := c, in_incoming_cap := None\<rparr>"
    have len: "length (in_buffer s) = in_cap s" "in_start s < in_cap s" "in_count s \<le> in_cap s"
      using inv unroll by (auto simp: ins_inv_def)
    have buf: "?buf = window s" by (rule window_unrolled [OF inv unroll(2), symmetric])
    have "inflights_set_cap s c = Some ?t"
      using unroll inv c len by (simp add: inflights_set_cap_def ins_inv_def)
    moreover have "window ?t = window s"
      unfolding buf using len unroll by (intro nth_equalityI) (auto simp: window_nth slot_def)
    moreover have "ins_inv ?t" using len unroll c by (auto simp: ins_inv_def)
    ultimately show ?thesis by (auto simp: cap_limit_def)
  next
    case shrink
    with inv c show ?thesis
      by (auto simp: inflights_set_cap_def ins_inv_def window_def slot_def cap_limit_def)
  qed
qed

section \<open>Properties\<close>

text \<open>The operations as data, on the ring buffer and on the queue it implements.\<close>

datatype inflight_op =
  Op_add u64 | Op_free_to u64 | Op_free_first_one | Op_reset | Op_set_cap usize | Op_maybe_free_buffer

fun ring_op :: "inflight_op \<Rightarrow> inflights \<Rightarrow> inflights option" where
  "ring_op (Op_add x) s = inflights_add s x"
| "ring_op (Op_free_to k) s = inflights_free_to s k"
| "ring_op Op_free_first_one s = inflights_free_first_one s"
| "ring_op Op_reset s = Some (inflights_reset s)"
| "ring_op (Op_set_cap c) s = inflights_set_cap s c"
| "ring_op Op_maybe_free_buffer s = Some (inflights_maybe_free_buffer s)"

fun queue_op :: "inflight_op \<Rightarrow> u64 list \<times> usize \<Rightarrow> (u64 list \<times> usize) option" where
  "queue_op (Op_add x) (q, l) = (if length q < l then Some (q @ [x], l) else None)"
| "queue_op (Op_free_to k) (q, l) = Some (dropWhile (\<lambda>x. x \<le> k) q, l)"
| "queue_op Op_free_first_one (q, l) =
     Some (case q of [] \<Rightarrow> [] | x # _ \<Rightarrow> dropWhile (\<lambda>y. y \<le> x) q, l)"
| "queue_op Op_reset (q, l) = Some ([], l)"
| "queue_op (Op_set_cap c) (q, l) = Some (q, c)"
| "queue_op Op_maybe_free_buffer (q, l) = Some (q, l)"

fun op_ok :: "inflight_op \<Rightarrow> bool" where
  "op_ok (Op_set_cap c) \<longleftrightarrow> 2 * c \<le> U64_MAX"
| "op_ok _ \<longleftrightarrow> True"

lemma ring_op_refines:
  assumes "ins_inv s" and "op_ok p"
  shows "map_option (\<lambda>t. (window t, cap_limit t)) (ring_op p s) = queue_op p (window s, cap_limit s)
     \<and> pred_option ins_inv (ring_op p s)"
proof (cases p)
  case (Op_add x)
  show ?thesis
  proof (cases "inflights_full s")
    case True
    with Op_add assms full_iff_limit ring.add_full show ?thesis by simp
  next
    case False
    with Op_add assms full_iff_limit [OF assms(1)] add_refines_queue [OF assms(1) False, of x]
    show ?thesis by auto
  qed
next
  case (Op_free_to k)
  then show ?thesis using free_to_refines_queue [OF assms(1), of k] by auto
next
  case Op_free_first_one
  then show ?thesis using free_first_one_refines [OF assms(1)] by auto
next
  case (Op_set_cap c)
  then show ?thesis using set_cap_refines [OF assms(1), of c] assms(2) by auto
next
  case Op_reset
  then show ?thesis using reset_refines_queue [OF assms(1)] by simp
next
  case Op_maybe_free_buffer
  then show ?thesis using maybe_free_buffer_refines [OF assms(1)] by simp
qed

lemma ring_run_refines:
  "ins_inv s \<Longrightarrow> list_all op_ok ops \<Longrightarrow>
     map_option (\<lambda>t. (window t, cap_limit t)) (fold_panic ring_op ops s)
     = fold_panic queue_op ops (window s, cap_limit s)"
proof (induction ops arbitrary: s)
  case (Cons p ops)
  from Cons.prems have r: "map_option (\<lambda>t. (window t, cap_limit t)) (ring_op p s) = queue_op p (window s, cap_limit s)"
    "pred_option ins_inv (ring_op p s)"
    using ring_op_refines [of s p] by auto
  show ?case
  proof (cases "ring_op p s")
    case None
    then show ?thesis using r(1) by (simp flip: r(1))
  next
    case (Some t)
    then show ?thesis using r Cons by (simp flip: r(1))
  qed
qed simp

text \<open>
  (C21) Any sequence of operations on the ring buffer, capacity changes included, behaves as the
  same sequence on a bounded queue: it panics exactly when the queue overflows, and otherwise the
  buffer holds the content of the queue in order.
\<close>

theorem inflights_refine_bounded_queue:
  assumes "2 * cap \<le> U64_MAX" and "list_all op_ok ops"
  shows "map_option (\<lambda>t. (window t, cap_limit t)) (fold_panic ring_op ops (inflights_new cap))
     = fold_panic queue_op ops ([], cap)"
  using ring_run_refines [of "inflights_new cap" ops] inflights_new_refines [OF assms(1)] assms(2) by simp

lemma inflights_refine_bounded_queue_witness:
  "map_option (\<lambda>t. (window t, cap_limit t))
     (fold_panic ring_op [Op_add 1, Op_add 2, Op_free_to 1, Op_add 3, Op_set_cap 4, Op_add 5] (inflights_new 2))
   = Some ([2, 3, 5], 4)"
  by (subst inflights_refine_bounded_queue) simp_all

end
