(* ===== verification/Progress.thy ===== *)
theory Progress
  imports Inflights Config
begin

text \<open>
  \<open>src/tracker/progress.rs\<close> and \<open>src/tracker/state.rs\<close>: what a leader knows of one follower,
  and how that changes as messages are sent and answered.

  \<open>progress_inv\<close> is the invariant the leader relies on: the next index to send is above the
  matched one, the messages in flight are in increasing order and below the next index, there are
  some only while replicating, and a snapshot is pending only in the snapshot state.
\<close>

section \<open>State and operations\<close>

datatype progress_state = Probe | Replicate | Snapshot

record progress =
  pr_matched :: u64
  pr_next_idx :: u64
  pr_state :: progress_state
  pr_paused :: bool
  pr_pending_snapshot :: u64
  pr_pending_request_snapshot :: u64
  pr_recent_active :: bool
  pr_ins :: inflights
  pr_commit_group_id :: u64
  pr_committed_index :: u64

definition progress_new :: "u64 \<Rightarrow> usize \<Rightarrow> progress" where
  "progress_new next_idx ins_size =
     \<lparr>pr_matched = 0, pr_next_idx = next_idx, pr_state = Probe, pr_paused = False,
      pr_pending_snapshot = 0, pr_pending_request_snapshot = 0, pr_recent_active = False,
      pr_ins = inflights_new ins_size, pr_commit_group_id = 0, pr_committed_index = 0\<rparr>"

definition progress_reset_state :: "progress \<Rightarrow> progress_state \<Rightarrow> progress" where
  "progress_reset_state p st =
     p\<lparr>pr_paused := False, pr_pending_snapshot := 0, pr_state := st,
       pr_ins := inflights_reset (pr_ins p)\<rparr>"

definition progress_reset :: "progress \<Rightarrow> u64 \<Rightarrow> progress" where
  "progress_reset p next_idx =
     p\<lparr>pr_matched := 0, pr_next_idx := next_idx, pr_state := Probe, pr_paused := False,
       pr_pending_snapshot := 0, pr_pending_request_snapshot := INVALID_INDEX,
       pr_recent_active := False, pr_ins := inflights_reset (pr_ins p)\<rparr>"

definition progress_become_probe :: "progress \<Rightarrow> progress option" where
  "progress_become_probe p =
     (if pr_state p = Snapshot then do {
        let pending_snapshot = pr_pending_snapshot p;
        let p = progress_reset_state p Probe;
        m \<leftarrow> u64_add (pr_matched p) 1;
        s \<leftarrow> u64_add pending_snapshot 1;
        Some (p\<lparr>pr_next_idx := max m s\<rparr>)
      }
      else do {
        let p = progress_reset_state p Probe;
        m \<leftarrow> u64_add (pr_matched p) 1;
        Some (p\<lparr>pr_next_idx := m\<rparr>)
      })"

definition progress_become_replicate :: "progress \<Rightarrow> progress option" where
  "progress_become_replicate p =
     do {
       let p = progress_reset_state p Replicate;
       m \<leftarrow> u64_add (pr_matched p) 1;
       Some (p\<lparr>pr_next_idx := m\<rparr>)
     }"

definition progress_become_snapshot :: "progress \<Rightarrow> u64 \<Rightarrow> progress" where
  "progress_become_snapshot p snapshot_idx =
     (progress_reset_state p Snapshot)\<lparr>pr_pending_snapshot := snapshot_idx\<rparr>"

definition progress_snapshot_failure :: "progress \<Rightarrow> progress" where
  "progress_snapshot_failure p = p\<lparr>pr_pending_snapshot := 0\<rparr>"

definition progress_is_snapshot_caught_up :: "progress \<Rightarrow> bool" where
  "progress_is_snapshot_caught_up p \<longleftrightarrow>
     pr_state p = Snapshot \<and> pr_matched p \<ge> pr_pending_snapshot p"

definition progress_resume :: "progress \<Rightarrow> progress" where
  "progress_resume p = p\<lparr>pr_paused := False\<rparr>"

definition progress_pause :: "progress \<Rightarrow> progress" where
  "progress_pause p = p\<lparr>pr_paused := True\<rparr>"

definition progress_maybe_update :: "progress \<Rightarrow> u64 \<Rightarrow> (progress \<times> bool) option" where
  "progress_maybe_update p n =
     do {
       let need_update = (pr_matched p < n);
       let p = (if need_update then progress_resume (p\<lparr>pr_matched := n\<rparr>) else p);
       n1 \<leftarrow> u64_add n 1;
       let p = (if pr_next_idx p < n1 then p\<lparr>pr_next_idx := n1\<rparr> else p);
       Some (p, need_update)
     }"

definition progress_update_committed :: "progress \<Rightarrow> u64 \<Rightarrow> progress" where
  "progress_update_committed p committed_index =
     (if committed_index > pr_committed_index p then p\<lparr>pr_committed_index := committed_index\<rparr> else p)"

definition progress_optimistic_update :: "progress \<Rightarrow> u64 \<Rightarrow> progress option" where
  "progress_optimistic_update p n = do { n1 \<leftarrow> u64_add n 1; Some (p\<lparr>pr_next_idx := n1\<rparr>) }"

definition progress_maybe_decr_to ::
  "progress \<Rightarrow> u64 \<Rightarrow> u64 \<Rightarrow> u64 \<Rightarrow> (progress \<times> bool) option" where
  "progress_maybe_decr_to p rejected match_hint request_snapshot =
     (if pr_state p = Replicate then
        if rejected < pr_matched p
           \<or> (rejected = pr_matched p \<and> request_snapshot = INVALID_INDEX)
        then Some (p, False)
        else if request_snapshot = INVALID_INDEX then do {
          m \<leftarrow> u64_add (pr_matched p) 1;
          Some (p\<lparr>pr_next_idx := m\<rparr>, True)
        }
        else Some (p\<lparr>pr_pending_request_snapshot := request_snapshot\<rparr>, True)
      else if (pr_next_idx p = 0 \<or> pr_next_idx p - 1 \<noteq> rejected)
              \<and> request_snapshot = INVALID_INDEX
      then Some (p, False)
      else do {
        p \<leftarrow>
          (if request_snapshot = INVALID_INDEX then do {
             h \<leftarrow> u64_add match_hint 1;
             let p = p\<lparr>pr_next_idx := min rejected h\<rparr>;
             m \<leftarrow> u64_add (pr_matched p) 1;
             Some (if pr_next_idx p < m then p\<lparr>pr_next_idx := m\<rparr> else p)
           }
           else if pr_pending_request_snapshot p = INVALID_INDEX
           then Some (p\<lparr>pr_pending_request_snapshot := request_snapshot\<rparr>)
           else Some p);
        Some (progress_resume p, True)
      })"

definition progress_is_paused :: "progress \<Rightarrow> bool" where
  "progress_is_paused p \<longleftrightarrow>
     (case pr_state p of
        Probe \<Rightarrow> pr_paused p
      | Replicate \<Rightarrow> inflights_full (pr_ins p)
      | Snapshot \<Rightarrow> True)"

definition progress_update_state :: "progress \<Rightarrow> u64 \<Rightarrow> progress option" where
  "progress_update_state p last_idx =
     (case pr_state p of
        Replicate \<Rightarrow> do {
          p \<leftarrow> progress_optimistic_update p last_idx;
          ins \<leftarrow> inflights_add (pr_ins p) last_idx;
          Some (p\<lparr>pr_ins := ins\<rparr>)
        }
      | Probe \<Rightarrow> Some (progress_pause p)
      | Snapshot \<Rightarrow> None)"

section \<open>Invariant\<close>

definition progress_inv :: "progress \<Rightarrow> bool" where
  "progress_inv p \<longleftrightarrow>
     ins_inv (pr_ins p) \<and> pr_matched p < pr_next_idx p
     \<and> sorted_wrt (<) (window (pr_ins p)) \<and> (\<forall>x \<in> set (window (pr_ins p)). x < pr_next_idx p)
     \<and> (window (pr_ins p) \<noteq> [] \<longrightarrow> pr_state p = Replicate)
     \<and> (pr_pending_snapshot p \<noteq> 0 \<longrightarrow> pr_state p = Snapshot)"




section \<open>Every operation keeps the invariant\<close>

named_theorems progress_keeps \<open>preservation of the invariant of a progress\<close>

lemma progress_new_inv:
  "0 < next_idx \<Longrightarrow> 2 * cap \<le> U64_MAX \<Longrightarrow> progress_inv (progress_new next_idx cap)"
  using inflights_new_refines [of cap] by (simp add: progress_inv_def progress_new_def)

lemma reset_state_inv [progress_keeps]:
  "progress_inv p \<Longrightarrow> progress_inv (progress_reset_state p st)"
  using ring.reset_refines [of "pr_ins p"] by (auto simp: progress_inv_def progress_reset_state_def)

lemma reset_state_fields [simp]:
  "pr_matched (progress_reset_state p st) = pr_matched p"
  "pr_next_idx (progress_reset_state p st) = pr_next_idx p"
  "pr_state (progress_reset_state p st) = st"
  "pr_pending_snapshot (progress_reset_state p st) = 0"
  "pr_committed_index (progress_reset_state p st) = pr_committed_index p"
  by (simp_all add: progress_reset_state_def)

lemma progress_reset_inv [progress_keeps]:
  "progress_inv p \<Longrightarrow> 0 < next_idx \<Longrightarrow> progress_inv (progress_reset p next_idx)"
  using ring.reset_refines [of "pr_ins p"] by (auto simp: progress_inv_def progress_reset_def)

text \<open>With an empty window the next index is free to move above the matched one.\<close>

lemma window_reset_state: "progress_inv p \<Longrightarrow> window (pr_ins (progress_reset_state p st)) = []"
  using ring.reset_refines [of "pr_ins p"] by (simp add: progress_inv_def progress_reset_state_def)

lemma set_next_inv:
  assumes "progress_inv p" and "window (pr_ins p) = []" and "pr_matched p < n"
  shows "progress_inv (p\<lparr>pr_next_idx := n\<rparr>)"
  using assms by (simp add: progress_inv_def)

lemma become_probe_inv [progress_keeps]:
  "progress_inv p \<Longrightarrow> progress_become_probe p = Some q \<Longrightarrow> progress_inv q"
  by (auto simp: progress_become_probe_def Let_def bind_eq_Some_conv split: if_splits
      intro!: set_next_inv reset_state_inv window_reset_state)

lemma become_replicate_inv [progress_keeps]:
  "progress_inv p \<Longrightarrow> progress_become_replicate p = Some q \<Longrightarrow> progress_inv q"
  by (auto simp: progress_become_replicate_def Let_def bind_eq_Some_conv
      intro!: set_next_inv reset_state_inv window_reset_state)

lemma become_snapshot_inv [progress_keeps]:
  "progress_inv p \<Longrightarrow> progress_inv (progress_become_snapshot p i)"
  using reset_state_inv [of p Snapshot] window_reset_state [of p Snapshot]
  by (simp add: progress_become_snapshot_def progress_inv_def)

lemma flags_inv [progress_keeps, simp]:
  "progress_inv (progress_pause p) = progress_inv p"
  "progress_inv (progress_resume p) = progress_inv p"
  "progress_inv (progress_update_committed p i) = progress_inv p"
  "progress_inv (p\<lparr>pr_recent_active := b\<rparr>) = progress_inv p"
  "progress_inv (p\<lparr>pr_commit_group_id := g\<rparr>) = progress_inv p"
  "progress_inv (p\<lparr>pr_pending_request_snapshot := i\<rparr>) = progress_inv p"
  "progress_inv (p\<lparr>pr_committed_index := i\<rparr>) = progress_inv p"
  by (simp_all add: progress_inv_def progress_pause_def progress_resume_def progress_update_committed_def)

lemma snapshot_failure_inv [progress_keeps]:
  "progress_inv p \<Longrightarrow> progress_inv (progress_snapshot_failure p)"
  by (simp add: progress_inv_def progress_snapshot_failure_def)

lemma maybe_update_eq:
  "progress_maybe_update p n = Some (q, b) \<longleftrightarrow>
     n < U64_MAX \<and> b = (pr_matched p < n) \<and>
     q = p\<lparr>pr_matched := max (pr_matched p) n, pr_next_idx := max (pr_next_idx p) (n + 1),
           pr_paused := (pr_paused p \<and> n \<le> pr_matched p)\<rparr>"
  by (auto simp: progress_maybe_update_def Let_def bind_eq_Some_conv progress_resume_def max_def)

lemma maybe_update_inv [progress_keeps]:
  "progress_inv p \<Longrightarrow> progress_maybe_update p n = Some (q, b) \<Longrightarrow> progress_inv q"
  by (auto simp: maybe_update_eq progress_inv_def)

lemma maybe_decr_to_inv [progress_keeps]:
  assumes "progress_inv p" and "progress_maybe_decr_to p r h s = Some (q, b)"
    and "pr_state p \<noteq> Replicate"
  shows "progress_inv q"
proof -
  have "window (pr_ins p) = []" using assms(1,3) by (auto simp: progress_inv_def)
  with assms show ?thesis
    by (auto simp: progress_maybe_decr_to_def Let_def bind_eq_Some_conv progress_inv_def
        progress_resume_def split: if_splits)
qed

text \<open>A rejection while replicating moves the next index back under messages in flight: only the
  return to probing, which every caller does next, restores the invariant.\<close>

lemma reject_replicate_inv [progress_keeps]:
  assumes "progress_inv p" and "progress_maybe_decr_to p r h s = Some (q, b)"
    and "pr_state p = Replicate" and "progress_become_probe q = Some q'"
  shows "progress_inv q'"
proof -
  have q: "pr_matched q = pr_matched p" "pr_ins q = pr_ins p" "pr_state q = Replicate"
    using assms(2,3) by (auto simp: progress_maybe_decr_to_def bind_eq_Some_conv split: if_splits)
  have "window (inflights_reset (pr_ins p)) = []" "ins_inv (inflights_reset (pr_ins p))"
    using assms(1) ring.reset_refines [of "pr_ins p"] by (auto simp: progress_inv_def)
  with q assms(4) show ?thesis
    by (auto simp: progress_become_probe_def progress_reset_state_def progress_inv_def Let_def
        bind_eq_Some_conv)
qed

lemma update_state_inv [progress_keeps]:
  assumes "progress_inv p" and "pr_next_idx p \<le> l" and "progress_update_state p l = Some q"
  shows "progress_inv q"
proof (cases "pr_state p")
  case Replicate
  with assms(3) obtain ins where ins: "inflights_add (pr_ins p) l = Some ins"
    "q = p\<lparr>pr_next_idx := l + 1, pr_ins := ins\<rparr>"
    by (auto simp: progress_update_state_def progress_optimistic_update_def bind_eq_Some_conv)
  have "ins_inv ins \<and> sorted_wrt (<) (window ins) \<and> window ins = window (pr_ins p) @ [l]"
    by (rule ring.add_sorted [OF _ _ _ ins(1)]) (use assms(1,2) in \<open>auto simp: progress_inv_def\<close>)
  with assms(1,2) ins(2) Replicate show ?thesis by (auto simp: progress_inv_def)
qed (use assms in \<open>auto simp: progress_update_state_def\<close>)

lemma set_ins_inv:
  assumes "progress_inv p" and "ins_inv ins" and "sorted_wrt (<) (window ins)"
    and "set (window ins) \<subseteq> set (window (pr_ins p))"
  shows "progress_inv (p\<lparr>pr_ins := ins\<rparr>)"
  using assms by (auto simp: progress_inv_def)

lemma free_to_inv [progress_keeps]:
  assumes "progress_inv p" and "inflights_free_to (pr_ins p) k = Some ins"
  shows "progress_inv (p\<lparr>pr_ins := ins\<rparr>)"
proof -
  have "ins_inv ins \<and> sorted_wrt (<) (window ins) \<and> window ins = filter (\<lambda>y. k < y) (window (pr_ins p))"
    by (rule ring.free_to_sorted [OF _ _ assms(2)]) (use assms(1) in \<open>auto simp: progress_inv_def\<close>)
  then show ?thesis by (intro set_ins_inv [OF assms(1)]) auto
qed

lemma free_first_one_inv [progress_keeps]:
  "progress_inv p \<Longrightarrow> inflights_free_first_one (pr_ins p) = Some ins \<Longrightarrow> progress_inv (p\<lparr>pr_ins := ins\<rparr>)"
  by (auto simp: inflights_free_first_one_def bind_eq_Some_conv split: if_splits intro: free_to_inv)

lemma set_cap_inv [progress_keeps]:
  assumes "progress_inv p" and "2 * c \<le> U64_MAX" and "inflights_set_cap (pr_ins p) c = Some ins"
  shows "progress_inv (p\<lparr>pr_ins := ins\<rparr>)"
  using assms set_cap_refines [of "pr_ins p" c] by (auto simp: progress_inv_def)

lemma maybe_free_buffer_inv [progress_keeps]:
  "progress_inv p \<Longrightarrow> progress_inv (p\<lparr>pr_ins := inflights_maybe_free_buffer (pr_ins p)\<rparr>)"
  using maybe_free_buffer_refines [of "pr_ins p"] by (auto simp: progress_inv_def)



section \<open>Properties\<close>



text \<open>
  (C30) A rejected append that is not stale moves a probing leader back: the next index stays above
  the matched one and strictly decreases until it is just above it, so only finitely many
  rejections can be accepted before a match; a stale rejection changes nothing.
\<close>

theorem rejection_backs_off:
  assumes "progress_inv p" and "pr_state p \<noteq> Replicate"
    and "progress_maybe_decr_to p rejected match_hint INVALID_INDEX = Some (q, accepted)"
  shows "(accepted \<longleftrightarrow> rejected = pr_next_idx p - 1) \<and> (\<not> accepted \<longrightarrow> q = p) \<and>
         (accepted \<longrightarrow> pr_matched q = pr_matched p \<and> pr_matched q < pr_next_idx q
            \<and> pr_next_idx q \<le> max (pr_matched p + 1) (min (match_hint + 1) (pr_next_idx p - 1))
            \<and> \<not> pr_paused q)"
proof -
  have "0 < pr_next_idx p" using assms(1) by (simp add: progress_inv_def)
  with assms(2,3) show ?thesis
    by (auto simp: progress_maybe_decr_to_def Let_def bind_eq_Some_conv progress_resume_def
        split: if_splits)
qed

lemma rejection_backs_off_witness:
  "progress_maybe_decr_to (progress_new 8 3) 7 4 INVALID_INDEX
     = Some ((progress_new 8 3)\<lparr>pr_next_idx := 5\<rparr>, True) \<and> pr_matched (progress_new 8 3) < 5"
proof -
  have c: "progress_maybe_decr_to (progress_new 8 3) 7 4 INVALID_INDEX
      = Some ((progress_new 8 3)\<lparr>pr_next_idx := 5\<rparr>, True)"
    by (simp add: progress_maybe_decr_to_def progress_new_def progress_resume_def)
  have "progress_inv (progress_new 8 3)" by (rule progress_new_inv) simp_all
  from rejection_backs_off [OF this _ c] c show ?thesis by (simp add: progress_new_def)
qed

text \<open>
  An append sent on a progress that is not paused is always recorded: while probing, the
  progress is paused until an answer; while replicating, the index joins the window behind the
  others and the next index follows it.
\<close>

theorem sending_is_recorded:
  assumes "progress_inv p" and "\<not> progress_is_paused p" and "l < U64_MAX"
  shows "\<exists>q. progress_update_state p l = Some q \<and>
     (pr_state p = Probe \<longrightarrow> progress_is_paused q \<and> pr_next_idx q = pr_next_idx p) \<and>
     (pr_state p = Replicate \<longrightarrow>
        window (pr_ins q) = window (pr_ins p) @ [l] \<and> pr_next_idx q = l + 1)"
proof (cases "pr_state p")
  case Probe
  then show ?thesis
    by (simp add: progress_update_state_def progress_pause_def progress_is_paused_def)
next
  case Replicate
  then have "\<not> inflights_full (pr_ins p)" using assms(2) by (simp add: progress_is_paused_def)
  moreover have "ins_inv (pr_ins p)" using assms(1) by (simp add: progress_inv_def)
  ultimately obtain ins where "inflights_add (pr_ins p) l = Some ins" "window ins = window (pr_ins p) @ [l]"
    using ring.add_refines [of "pr_ins p" l] by auto
  with Replicate assms(3) show ?thesis
    by (simp add: progress_update_state_def progress_optimistic_update_def)
next
  case Snapshot
  with assms(2) show ?thesis by (simp add: progress_is_paused_def)
qed

lemma sending_is_recorded_witness:
  "\<exists>q. progress_update_state (progress_new 8 3) 9 = Some q \<and> progress_is_paused q"
proof -
  have "progress_inv (progress_new 8 3)" by (rule progress_new_inv) simp_all
  from sending_is_recorded [OF this, of 9] show ?thesis
    by (auto simp: progress_new_def progress_is_paused_def)
qed

end
