(* ===== verification/Quorum.thy ===== *)
theory Quorum
  imports Util
begin

text \<open>
  \<open>src/quorum.rs\<close>, \<open>src/quorum/majority.rs\<close> and \<open>src/quorum/joint.rs\<close>: votes and commit
  indexes of a majority configuration and of a joint configuration (two majorities that must both
  agree). A configuration is the list of its voters in the iteration order of the hash set.

  The interface of the component is the locale \<open>vote_tally\<close>: a vote that is won stays won and two
  won votes share a voter. It is interpreted on both kinds of configuration, and the commit index
  is characterised by it: an index is committed when the vote of the nodes that hold it is won.
\<close>

section \<open>Definitions\<close>

datatype vote_result = Pending | Lost | Won

record ack_index =
  idx_index :: u64
  idx_group :: u64

definition default_index :: ack_index where
  "default_index = \<lparr>idx_index = 0, idx_group = 0\<rparr>"

type_synonym majority_config = "u64 hset"

text \<open>\<open>l.acked_index(v).unwrap_or_default()\<close>\<close>

definition acked :: "(u64 \<Rightarrow> ack_index option) \<Rightarrow> u64 \<Rightarrow> ack_index" where
  "acked l v = (case l v of None \<Rightarrow> default_index | Some i \<Rightarrow> i)"

text \<open>A stable sort by descending index.\<close>

definition sort_desc :: "ack_index list \<Rightarrow> ack_index list" where
  "sort_desc xs = rev (sort_key idx_index (rev xs))"

text \<open>
  The loop of the group commit: the index of the first replica of another group than the one
  being checked, or whether every replica has a group.
\<close>

fun group_scan :: "ack_index list \<Rightarrow> u64 \<Rightarrow> bool \<Rightarrow> u64 + bool" where
  "group_scan [] checked_group_id single_group = Inr single_group"
| "group_scan (m # ms) checked_group_id single_group =
     (if idx_group m = 0 then group_scan ms checked_group_id False
      else if checked_group_id = 0 then group_scan ms (idx_group m) single_group
      else if checked_group_id = idx_group m then group_scan ms checked_group_id single_group
      else Inl (idx_index m))"

definition commit_of_matched :: "bool \<Rightarrow> ack_index list \<Rightarrow> (u64 \<times> bool) option" where
  "commit_of_matched use_group_commit matched0 =
     do {
       let matched = sort_desc matched0;
       let quorum = majority (length matched);
       k \<leftarrow> u64_sub quorum 1;
       quorum_index \<leftarrow> vec_get matched k;
       if \<not> use_group_commit then Some (idx_index quorum_index, False)
       else
         (case group_scan matched (idx_group quorum_index) True of
            Inl i \<Rightarrow> Some (min i (idx_index quorum_index), True)
          | Inr single_group \<Rightarrow>
              if single_group then Some (idx_index quorum_index, False)
              else do { m \<leftarrow> vec_last matched; Some (idx_index m, False) })
     }"

text \<open>The variant of the \<open>aeneas\<close> feature, which collects the indexes in a vector.\<close>

definition committed_index ::
  "majority_config \<Rightarrow> bool \<Rightarrow> (u64 \<Rightarrow> ack_index option) \<Rightarrow> (u64 \<times> bool) option" where
  "committed_index voters use_group_commit l =
     (if voters = [] then Some (U64_MAX, True)
      else commit_of_matched use_group_commit (map (acked l) voters))"

text \<open>
  The default variant: up to seven indexes go to an uninitialised array on the stack, of which the
  first \<open>voters.len()\<close> cells are then read. A cell is \<open>None\<close> until it is written, and reading one
  that is not written is undefined behaviour, here a panic.
\<close>

fun fill_stack ::
  "(u64 \<Rightarrow> ack_index option) \<Rightarrow> nat \<Rightarrow> u64 list \<Rightarrow> ack_index option list \<Rightarrow> ack_index option list option"
where
  "fill_stack l i [] arr = Some arr"
| "fill_stack l i (v # vs) arr =
     do { arr' \<leftarrow> vec_set arr i (Some (acked l v)); fill_stack l (Suc i) vs arr' }"

fun read_init :: "'a option list \<Rightarrow> 'a list option" where
  "read_init [] = Some []"
| "read_init (c # cs) = do { x \<leftarrow> c; xs \<leftarrow> read_init cs; Some (x # xs) }"

definition committed_index_stack ::
  "majority_config \<Rightarrow> bool \<Rightarrow> (u64 \<Rightarrow> ack_index option) \<Rightarrow> (u64 \<times> bool) option" where
  "committed_index_stack voters use_group_commit l =
     (if voters = [] then Some (U64_MAX, True)
      else do {
        matched \<leftarrow>
          (if length voters \<le> 7 then do {
             stack_arr \<leftarrow> fill_stack l 0 voters (replicate 7 None);
             cells \<leftarrow> vec_range stack_arr 0 (length voters);
             read_init cells
           }
           else Some (fold (\<lambda>v buf. buf @ [acked l v]) voters []));
        commit_of_matched use_group_commit matched
      })"

fun tally_step :: "(u64 \<Rightarrow> bool option) \<Rightarrow> u64 \<Rightarrow> nat \<times> nat \<Rightarrow> nat \<times> nat" where
  "tally_step check v (yes, missing) =
     (case check v of
        Some True \<Rightarrow> (Suc yes, missing)
      | None \<Rightarrow> (yes, Suc missing)
      | Some False \<Rightarrow> (yes, missing))"

definition majority_vote_result :: "majority_config \<Rightarrow> (u64 \<Rightarrow> bool option) \<Rightarrow> vote_result" where
  "majority_vote_result voters check =
     (if voters = [] then Won
      else
        (let (yes, missing) = fold (tally_step check) voters (0, 0);
             q = majority (length voters)
         in if yes \<ge> q then Won
            else if yes + missing \<ge> q then Pending
            else Lost))"

record joint_config =
  jc_incoming :: majority_config
  jc_outgoing :: majority_config

definition joint_new :: "u64 hset \<Rightarrow> joint_config" where
  "joint_new voters = \<lparr>jc_incoming = voters, jc_outgoing = []\<rparr>"

definition joint_committed_index ::
  "joint_config \<Rightarrow> bool \<Rightarrow> (u64 \<Rightarrow> ack_index option) \<Rightarrow> (u64 \<times> bool) option" where
  "joint_committed_index c use_group_commit l =
     do {
       (i_idx, i_use_gc) \<leftarrow> committed_index (jc_incoming c) use_group_commit l;
       (o_idx, o_use_gc) \<leftarrow> committed_index (jc_outgoing c) use_group_commit l;
       Some (min i_idx o_idx, i_use_gc \<and> o_use_gc)
     }"

definition joint_vote_result :: "joint_config \<Rightarrow> (u64 \<Rightarrow> bool option) \<Rightarrow> vote_result" where
  "joint_vote_result c check =
     (let i = majority_vote_result (jc_incoming c) check;
          o' = majority_vote_result (jc_outgoing c) check
      in if i = Won \<and> o' = Won then Won
         else if i = Lost \<or> o' = Lost then Lost
         else Pending)"

definition joint_clear :: "joint_config \<Rightarrow> joint_config" where
  "joint_clear c = c\<lparr>jc_incoming := [], jc_outgoing := []\<rparr>"

definition joint_is_singleton :: "joint_config \<Rightarrow> bool" where
  "joint_is_singleton c \<longleftrightarrow> jc_outgoing c = [] \<and> length (jc_incoming c) = 1"

definition joint_ids :: "joint_config \<Rightarrow> union_view" where
  "joint_ids c = \<lparr>un_first = jc_incoming c, un_second = jc_outgoing c\<rparr>"

definition joint_contains :: "joint_config \<Rightarrow> u64 \<Rightarrow> bool" where
  "joint_contains c i \<longleftrightarrow> i \<in> set (jc_incoming c) \<or> i \<in> set (jc_outgoing c)"

section \<open>The interface\<close>

text \<open>
  What the election and the commit rule rely on. A configuration decides a vote from the answers of
  its members; \<open>valid\<close> singles out the configurations that have a member to decide.
\<close>

locale vote_tally =
  fixes tally :: "'c \<Rightarrow> (u64 \<Rightarrow> bool option) \<Rightarrow> vote_result"
    and members :: "'c \<Rightarrow> u64 set"
    and valid :: "'c \<Rightarrow> bool"
  assumes won_mono: "\<lbrakk>tally c f = Won; \<And>v. v \<in> members c \<Longrightarrow> f v = Some True \<Longrightarrow> g v = Some True\<rbrakk>
      \<Longrightarrow> tally c g = Won"
    and lost_mono: "\<lbrakk>tally c f = Lost; \<And>v. v \<in> members c \<Longrightarrow> f v = Some False \<Longrightarrow> g v = Some False\<rbrakk>
      \<Longrightarrow> tally c g = Lost"
    and won_overlap: "\<lbrakk>valid c; tally c f = Won; tally c g = Won\<rbrakk>
      \<Longrightarrow> \<exists>v \<in> members c. f v = Some True \<and> g v = Some True"
    and all_answered: "(\<And>v. v \<in> members c \<Longrightarrow> f v \<noteq> None) \<Longrightarrow> tally c f \<noteq> Pending"
    and won_accept: "(\<And>v. v \<in> members c \<Longrightarrow> f v = Some True) \<Longrightarrow> tally c f = Won"
begin

lemma decided_stable:
  assumes "tally c f \<noteq> Pending" and "f \<subseteq>\<^sub>m g"
  shows "tally c g = tally c f"
proof -
  have fg: "g v = Some b" if "f v = Some b" for v b
    using assms(2) that by (metis domI map_le_def)
  show ?thesis
  proof (cases "tally c f")
    case Won
    with won_mono [of c f g] fg show ?thesis by metis
  next
    case Lost
    with lost_mono [of c f g] fg show ?thesis by metis
  qed (use assms in simp)
qed

lemma tally_cong: "(\<And>v. v \<in> members c \<Longrightarrow> f v = g v) \<Longrightarrow> tally c f = tally c g"
  using won_mono [of c f g] lost_mono [of c f g] won_mono [of c g f] lost_mono [of c g f]
  by (cases "tally c f"; cases "tally c g") auto

text \<open>A voter that answers yes to at most one of two candidates prevents both from winning.\<close>

lemma one_winner:
  assumes "valid c" and "tally c f = Won" and "tally c g = Won"
    and "\<And>v. v \<in> members c \<Longrightarrow> f v = Some True \<Longrightarrow> g v = Some True \<Longrightarrow> x = y"
  shows "x = y"
  using won_overlap [OF assms(1-3)] assms(4) by auto

end

text \<open>Quorums, as sets of nodes: the form in which the log and the read index use votes.\<close>

locale quorum_system =
  fixes quorum :: "'c \<Rightarrow> u64 set \<Rightarrow> bool"
    and voters :: "'c \<Rightarrow> u64 set"
    and proper :: "'c \<Rightarrow> bool"
  assumes quorum_mono: "quorum c A \<Longrightarrow> A \<inter> voters c \<subseteq> B \<Longrightarrow> quorum c B"
    and quorum_overlap: "\<lbrakk>proper c; quorum c A; quorum c B\<rbrakk> \<Longrightarrow> A \<inter> B \<inter> voters c \<noteq> {}"
    and quorum_all: "quorum c (voters c)"
begin

lemma quorum_nonempty: "proper c \<Longrightarrow> quorum c A \<Longrightarrow> A \<noteq> {}"
  using quorum_overlap [of c A A] by auto

lemma quorum_voters_only: "quorum c A \<longleftrightarrow> quorum c (A \<inter> voters c)"
  by (blast intro: quorum_mono)

end

definition yes_from :: "u64 set \<Rightarrow> u64 \<Rightarrow> bool option" where
  "yes_from A v = (if v \<in> A then Some True else None)"

sublocale vote_tally \<subseteq> quorums: quorum_system "\<lambda>c A. tally c (yes_from A) = Won" members valid
proof
  show "tally c (yes_from A) = Won \<Longrightarrow> A \<inter> members c \<subseteq> B \<Longrightarrow> tally c (yes_from B) = Won" for c A B
    by (rule won_mono [of c "yes_from A"]) (auto simp: yes_from_def split: if_splits)
  show "valid c \<Longrightarrow> tally c (yes_from A) = Won \<Longrightarrow> tally c (yes_from B) = Won \<Longrightarrow>
      A \<inter> B \<inter> members c \<noteq> {}" for c A B
    using won_overlap [of c "yes_from A" "yes_from B"] by (auto simp: yes_from_def split: if_splits)
  show "tally c (yes_from (members c)) = Won" for c
    by (rule won_accept) (simp add: yes_from_def)
qed

section \<open>Votes\<close>

lemma fold_tally:
  "fold (tally_step check) vs (y, m) =
     (y + length (filter (\<lambda>v. check v = Some True) vs), m + length (filter (\<lambda>v. check v = None) vs))"
  by (induction vs arbitrary: y m) (auto split: option.splits bool.splits)

definition yes_count :: "majority_config \<Rightarrow> (u64 \<Rightarrow> bool option) \<Rightarrow> nat" where
  "yes_count vs f = length (filter (\<lambda>v. f v = Some True) vs)"

definition no_count :: "majority_config \<Rightarrow> (u64 \<Rightarrow> bool option) \<Rightarrow> nat" where
  "no_count vs f = length (filter (\<lambda>v. f v = Some False) vs)"

lemma yes_missing_no:
  "yes_count vs f + length (filter (\<lambda>v. f v = None) vs) + no_count vs f = length vs"
  by (induction vs) (auto simp: yes_count_def no_count_def)

lemma vote_result_eq:
  "vs \<noteq> [] \<Longrightarrow> majority_vote_result vs f =
     (if majority (length vs) \<le> yes_count vs f then Won
      else if length vs < majority (length vs) + no_count vs f then Lost
      else Pending)"
  using yes_missing_no [of vs f]
  by (auto simp: majority_vote_result_def fold_tally Let_def yes_count_def)

lemma vote_result_Won: "majority_vote_result vs f = Won \<longleftrightarrow> vs = [] \<or> majority (length vs) \<le> yes_count vs f"
  by (cases "vs = []") (auto simp: vote_result_eq, simp add: majority_vote_result_def)

lemma vote_result_Lost:
  "majority_vote_result vs f = Lost \<longleftrightarrow> vs \<noteq> [] \<and> length vs < majority (length vs) + no_count vs f"
proof (cases "vs = []")
  case False
  have "yes_count vs f + no_count vs f \<le> length vs" using yes_missing_no [of vs f] by simp
  with False show ?thesis by (auto simp: vote_result_eq majority_def)
qed (simp add: majority_vote_result_def)

lemma count_mono:
  assumes "\<And>v. v \<in> set vs \<Longrightarrow> P v \<Longrightarrow> Q v"
  shows "length (filter P vs) \<le> length (filter Q vs)"
  using assms by (induction vs) auto

lemma two_majorities_meet:
  assumes "majority (length vs) \<le> length (filter P vs)" and "majority (length vs) \<le> length (filter Q vs)"
  shows "\<exists>v \<in> set vs. P v \<and> Q v"
proof (rule ccontr)
  assume "\<not> ?thesis"
  then have "length (filter P vs) + length (filter Q vs) \<le> length vs"
    by (induction vs) auto
  with assms majority_overlap [of "length vs"] show False by simp
qed

interpretation majority_votes: vote_tally majority_vote_result set "\<lambda>c. c \<noteq> []"
proof
  fix c :: majority_config and f g :: "u64 \<Rightarrow> bool option"
  show "majority_vote_result c g = Won" if "majority_vote_result c f = Won"
    and "\<And>v. v \<in> set c \<Longrightarrow> f v = Some True \<Longrightarrow> g v = Some True"
    using that count_mono [of c "\<lambda>v. f v = Some True" "\<lambda>v. g v = Some True"]
    by (auto simp: vote_result_Won yes_count_def)
  show "majority_vote_result c g = Lost" if "majority_vote_result c f = Lost"
    and "\<And>v. v \<in> set c \<Longrightarrow> f v = Some False \<Longrightarrow> g v = Some False"
    using that count_mono [of c "\<lambda>v. f v = Some False" "\<lambda>v. g v = Some False"]
    by (auto simp: vote_result_Lost no_count_def)
  show "\<exists>v \<in> set c. f v = Some True \<and> g v = Some True"
    if "c \<noteq> []" "majority_vote_result c f = Won" "majority_vote_result c g = Won"
    using that by (intro two_majorities_meet) (auto simp: vote_result_Won yes_count_def)
  show "majority_vote_result c f \<noteq> Pending" if "\<And>v. v \<in> set c \<Longrightarrow> f v \<noteq> None"
  proof -
    from that have "filter (\<lambda>v. f v = None) c = []" by (auto simp: filter_empty_conv)
    with yes_missing_no [of c f] show ?thesis
      by (cases "c = []") (simp add: majority_vote_result_def, simp add: vote_result_eq)
  qed
  show "majority_vote_result c f = Won" if "\<And>v. v \<in> set c \<Longrightarrow> f v = Some True"
  proof -
    from that have "filter (\<lambda>v. f v = Some True) c = c" by simp
    then show ?thesis
      by (cases "c = []") (auto simp: vote_result_Won yes_count_def majority_le)
  qed
qed

definition joint_members :: "joint_config \<Rightarrow> u64 set" where
  "joint_members c = set (jc_incoming c) \<union> set (jc_outgoing c)"

definition joint_valid :: "joint_config \<Rightarrow> bool" where
  "joint_valid c \<longleftrightarrow> jc_incoming c \<noteq> [] \<or> jc_outgoing c \<noteq> []"

lemma joint_Won:
  "joint_vote_result c f = Won \<longleftrightarrow>
     majority_vote_result (jc_incoming c) f = Won \<and> majority_vote_result (jc_outgoing c) f = Won"
  by (auto simp: joint_vote_result_def Let_def)

lemma joint_Lost:
  "joint_vote_result c f = Lost \<longleftrightarrow>
     majority_vote_result (jc_incoming c) f = Lost \<or> majority_vote_result (jc_outgoing c) f = Lost"
  by (auto simp: joint_vote_result_def Let_def)

interpretation joint_votes: vote_tally joint_vote_result joint_members joint_valid
proof
  fix c :: joint_config and f g :: "u64 \<Rightarrow> bool option"
  show "joint_vote_result c g = Won" if "joint_vote_result c f = Won"
    and "\<And>v. v \<in> joint_members c \<Longrightarrow> f v = Some True \<Longrightarrow> g v = Some True"
    using that majority_votes.won_mono [of _ f g] by (auto simp: joint_Won joint_members_def)
  show "joint_vote_result c g = Lost" if "joint_vote_result c f = Lost"
    and "\<And>v. v \<in> joint_members c \<Longrightarrow> f v = Some False \<Longrightarrow> g v = Some False"
    using that majority_votes.lost_mono [of _ f g] by (auto simp: joint_Lost joint_members_def)
  show "\<exists>v \<in> joint_members c. f v = Some True \<and> g v = Some True"
    if "joint_valid c" "joint_vote_result c f = Won" "joint_vote_result c g = Won"
    using that majority_votes.won_overlap [of "jc_incoming c" f g]
      majority_votes.won_overlap [of "jc_outgoing c" f g]
    by (auto simp: joint_Won joint_valid_def joint_members_def)
  show "joint_vote_result c f \<noteq> Pending" if "\<And>v. v \<in> joint_members c \<Longrightarrow> f v \<noteq> None"
  proof -
    have "majority_vote_result (jc_incoming c) f \<noteq> Pending" "majority_vote_result (jc_outgoing c) f \<noteq> Pending"
      using that by (auto intro!: majority_votes.all_answered simp: joint_members_def)
    then show ?thesis
      by (cases "majority_vote_result (jc_incoming c) f"; cases "majority_vote_result (jc_outgoing c) f")
         (auto simp: joint_vote_result_def)
  qed
  show "joint_vote_result c f = Won" if "\<And>v. v \<in> joint_members c \<Longrightarrow> f v = Some True"
    using that majority_votes.won_accept by (auto simp: joint_Won joint_members_def)
qed


section \<open>Commit indexes\<close>

lemma mset_sort_desc [simp]: "mset (sort_desc xs) = mset xs"
  by (simp add: sort_desc_def)

lemma set_sort_desc [simp]: "set (sort_desc xs) = set xs"
  by (simp add: sort_desc_def)

lemma length_sort_desc [simp]: "length (sort_desc xs) = length xs"
  by (simp add: sort_desc_def)

lemma sort_desc_sorted: "sorted_wrt (\<lambda>a b. idx_index b \<le> idx_index a) (sort_desc xs)"
  using sorted_sort_key [of idx_index "rev xs"]
  by (simp add: sort_desc_def sorted_wrt_rev sorted_map)

text \<open>In a descending list, position \<open>k\<close> is at least \<open>n\<close> when more than \<open>k\<close> elements are.\<close>

lemma desc_nth_iff:
  assumes "sorted_wrt (\<lambda>a b. idx_index b \<le> idx_index a) ms" and "k < length ms"
  shows "n \<le> idx_index (ms ! k) \<longleftrightarrow> k < length (filter (\<lambda>m. n \<le> idx_index m) ms)"
  using assms
proof (induction ms arbitrary: k)
  case (Cons m ms)
  show ?case
  proof (cases "n \<le> idx_index m")
    case True
    with Cons show ?thesis by (cases k) auto
  next
    case False
    with Cons.prems have none: "\<not> n \<le> idx_index x" if "x \<in> set ms" for x
      using that by auto
    then have "filter (\<lambda>m. n \<le> idx_index m) (m # ms) = []"
      using False by (simp add: filter_empty_conv)
    moreover have "(m # ms) ! k \<in> set (m # ms)" using Cons.prems(2) by (rule nth_mem)
    ultimately show ?thesis using none False by auto
  qed
qed simp

definition quorum_elem :: "ack_index list \<Rightarrow> ack_index" where
  "quorum_elem xs = sort_desc xs ! (majority (length xs) - 1)"

lemma quorum_pos_lt: "xs \<noteq> [] \<Longrightarrow> majority (length xs) - 1 < length xs"
  by (cases xs) (simp_all add: majority_def)

lemma quorum_elem_in: "xs \<noteq> [] \<Longrightarrow> quorum_elem xs \<in> set xs"
  using quorum_pos_lt [of xs] nth_mem [of "majority (length xs) - 1" "sort_desc xs"]
  by (simp add: quorum_elem_def)

lemma quorum_elem_iff:
  assumes "xs \<noteq> []"
  shows "n \<le> idx_index (quorum_elem xs) \<longleftrightarrow>
         majority (length xs) \<le> length (filter (\<lambda>m. n \<le> idx_index m) xs)"
proof -
  have "length (filter (\<lambda>m. n \<le> idx_index m) (sort_desc xs)) =
        length (filter (\<lambda>m. n \<le> idx_index m) xs)"
    by (metis mset_filter mset_sort_desc size_mset)
  with desc_nth_iff [OF sort_desc_sorted, of "majority (length xs) - 1" xs n] assms quorum_pos_lt
  show ?thesis
    by (auto simp: quorum_elem_def less_eq_Suc_le majority_def)
qed

lemma commit_of_matched_eq:
  "xs \<noteq> [] \<Longrightarrow> commit_of_matched gc xs =
     (if \<not> gc then Some (idx_index (quorum_elem xs), False)
      else
        (case group_scan (sort_desc xs) (idx_group (quorum_elem xs)) True of
           Inl i \<Rightarrow> Some (min i (idx_index (quorum_elem xs)), True)
         | Inr single_group \<Rightarrow>
             if single_group then Some (idx_index (quorum_elem xs), False)
             else Some (idx_index (last (sort_desc xs)), False)))"
proof -
  assume xs: "xs \<noteq> []"
  have ne: "sort_desc xs \<noteq> []" using xs by (metis length_0_conv length_sort_desc)
  have "Suc 0 \<le> majority (length xs)" by (simp add: majority_def)
  with quorum_pos_lt [OF xs] ne show ?thesis
    by (simp add: commit_of_matched_def Let_def quorum_elem_def vec_last_def split: sum.split)
qed

lemma committed_index_returns: "\<exists>r. committed_index vs gc l = Some r"
  by (cases "vs = []") (auto simp: committed_index_def commit_of_matched_eq split: sum.splits)

lemma quorum_elem_vote:
  assumes "vs \<noteq> []"
  shows "k \<le> idx_index (quorum_elem (map (acked l) vs)) \<longleftrightarrow>
         majority_vote_result vs (yes_from {v. k \<le> idx_index (acked l v)}) = Won"
  using assms quorum_elem_iff [of "map (acked l) vs" k]
  by (simp add: vote_result_Won yes_count_def yes_from_def filter_map comp_def if_distrib cong: if_cong)

lemma committed_index_vote:
  assumes "committed_index vs False l = Some (n, b)" and "k \<le> U64_MAX"
  shows "k \<le> n \<longleftrightarrow> majority_vote_result vs (yes_from {v. k \<le> idx_index (acked l v)}) = Won"
proof (cases "vs = []")
  case True
  with assms show ?thesis by (simp add: committed_index_def majority_vote_result_def)
next
  case False
  with assms(1) have "n = idx_index (quorum_elem (map (acked l) vs))"
    by (simp add: committed_index_def commit_of_matched_eq)
  with quorum_elem_vote [OF False] show ?thesis by simp
qed

section \<open>Group commit\<close>

definition other_group :: "u64 \<Rightarrow> ack_index \<Rightarrow> bool" where
  "other_group g m \<longleftrightarrow> idx_group m \<noteq> 0 \<and> idx_group m \<noteq> g"

lemma group_scan_find:
  "g \<noteq> 0 \<Longrightarrow> group_scan ms g s =
     (case find (other_group g) ms of
        Some m \<Rightarrow> Inl (idx_index m)
      | None \<Rightarrow> Inr (s \<and> (\<forall>m \<in> set ms. idx_group m \<noteq> 0)))"
  by (induction ms arbitrary: s) (auto simp: other_group_def split: option.splits)

lemma group_scan_start:
  "group_scan ms 0 s =
     (case find (other_group 0) ms of
        None \<Rightarrow> Inr (s \<and> ms = [])
      | Some m \<Rightarrow> group_scan ms (idx_group m) s)"
proof (induction ms arbitrary: s)
  case (Cons m ms)
  show ?case
  proof (cases "idx_group m = 0")
    case True
    with Cons.IH [of False] show ?thesis by (auto simp: other_group_def split: option.splits)
  qed (simp add: other_group_def)
qed simp

text \<open>In a descending list the first match is the largest one.\<close>

lemma find_desc_iff:
  assumes "sorted_wrt (\<lambda>a b. idx_index b \<le> idx_index a) ms" and "find P ms = Some m"
  shows "k \<le> idx_index m \<longleftrightarrow> (\<exists>x \<in> set ms. P x \<and> k \<le> idx_index x)"
  using assms by (induction ms) (auto split: if_splits intro: order_trans)

definition two_groups_at :: "ack_index list \<Rightarrow> u64 \<Rightarrow> bool" where
  "two_groups_at xs k \<longleftrightarrow>
     (\<exists>a \<in> set xs. \<exists>b \<in> set xs. idx_group a \<noteq> 0 \<and> idx_group b \<noteq> 0 \<and> idx_group a \<noteq> idx_group b
        \<and> k \<le> idx_index a \<and> k \<le> idx_index b)"

lemma find_SomeD: "find P xs = Some x \<Longrightarrow> x \<in> set xs \<and> P x"
  by (auto simp: find_Some_iff)

text \<open>The group found by the scan: the checked one, or the first one met when there is none.\<close>

lemma group_scan_Inl:
  assumes srt: "sorted_wrt (\<lambda>a b. idx_index b \<le> idx_index a) ms"
    and q: "q \<in> set ms" and scan: "group_scan ms (idx_group q) s = Inl i"
  shows "k \<le> min i (idx_index q) \<longleftrightarrow> k \<le> idx_index q \<and> two_groups_at ms k"
proof (cases "idx_group q = 0")
  case False
  with scan obtain m where m: "find (other_group (idx_group q)) ms = Some m" "i = idx_index m"
    by (auto simp: group_scan_find split: option.splits)
  from find_desc_iff [OF srt m(1)]
  have "k \<le> i \<longleftrightarrow> (\<exists>x \<in> set ms. other_group (idx_group q) x \<and> k \<le> idx_index x)"
    using m(2) by simp
  with False q show ?thesis by (auto simp: two_groups_at_def other_group_def) metis+
next
  case True
  with scan obtain m0 where m0: "find (other_group 0) ms = Some m0"
      and scan': "group_scan ms (idx_group m0) s = Inl i"
    by (auto simp: group_scan_start split: option.splits)
  then have g: "idx_group m0 \<noteq> 0" "m0 \<in> set ms"
    using find_SomeD by (fastforce simp: other_group_def)+
  with scan' obtain m where m: "find (other_group (idx_group m0)) ms = Some m" "i = idx_index m"
    by (auto simp: group_scan_find split: option.splits)
  have first: "k \<le> idx_index m0 \<longleftrightarrow> (\<exists>x \<in> set ms. other_group 0 x \<and> k \<le> idx_index x)"
    by (rule find_desc_iff [OF srt m0])
  have "k \<le> i \<longleftrightarrow> (\<exists>x \<in> set ms. other_group (idx_group m0) x \<and> k \<le> idx_index x)"
    using find_desc_iff [OF srt m(1)] m(2) by simp
  with first g show ?thesis by (auto simp: two_groups_at_def other_group_def) metis+
qed

lemma group_scan_Inr_group:
  assumes "group_scan ms g0 True = Inr s" and "x \<in> set ms" "idx_group x \<noteq> 0"
  shows "\<exists>g. g \<noteq> 0 \<and> group_scan ms g True = Inr s"
proof (cases "g0 = 0")
  case True
  have "find (other_group 0) ms \<noteq> None"
    using assms(2,3) by (auto simp: find_None_iff other_group_def)
  then obtain m where m: "find (other_group 0) ms = Some m" by auto
  with find_SomeD [OF m] assms(1) True show ?thesis
    by (auto simp: group_scan_start other_group_def)
qed (use assms(1) in blast)

lemma group_scan_Inr:
  assumes "group_scan ms (idx_group q) True = Inr s"
  shows "\<not> two_groups_at ms k"
proof
  assume "two_groups_at ms k"
  then obtain a b where ab: "a \<in> set ms" "b \<in> set ms" "idx_group a \<noteq> 0" "idx_group b \<noteq> 0"
      "idx_group a \<noteq> idx_group b"
    by (auto simp: two_groups_at_def)
  then obtain g where "g \<noteq> 0" "group_scan ms g True = Inr s"
    using group_scan_Inr_group [OF assms] by blast
  then have "find (other_group g) ms = None"
    by (simp add: group_scan_find split: option.splits)
  then have "\<forall>x \<in> set ms. idx_group x = 0 \<or> idx_group x = g"
    by (auto simp: find_None_iff other_group_def)
  with ab show False by metis
qed

lemma group_scan_single:
  assumes "group_scan ms (idx_group q) True = Inr s" and "q \<in> set ms"
  shows "s \<longleftrightarrow> (\<forall>m \<in> set ms. idx_group m \<noteq> 0)"
proof (cases "\<exists>x \<in> set ms. idx_group x \<noteq> 0")
  case True
  then obtain g where "g \<noteq> 0" "group_scan ms g True = Inr s"
    using group_scan_Inr_group [OF assms(1)] by blast
  then show ?thesis by (simp add: group_scan_find split: option.splits)
next
  case False
  then have "find (other_group 0) ms = None" "idx_group q = 0"
    using assms(2) by (auto simp: find_None_iff other_group_def)
  with assms False show ?thesis by (auto simp: group_scan_start)
qed

text \<open>
  The outcome of a group commit, by the replicas alone: the flag says whether two groups are
  present, and an index is committed when a majority and two groups hold it.
\<close>

lemma group_commit_iff:
  assumes "xs \<noteq> []" and "commit_of_matched True xs = Some (n, b)"
  shows "b \<longleftrightarrow> two_groups_at xs 0"
    and "b \<Longrightarrow> k \<le> n \<longleftrightarrow> k \<le> idx_index (quorum_elem xs) \<and> two_groups_at xs k"
    and "\<not> b \<Longrightarrow> \<forall>m \<in> set xs. idx_group m \<noteq> 0 \<Longrightarrow> n = idx_index (quorum_elem xs)"
    and "\<not> b \<Longrightarrow> \<exists>m \<in> set xs. idx_group m = 0 \<Longrightarrow> n = idx_index (last (sort_desc xs))"
proof -
  let ?ms = "sort_desc xs" and ?q = "quorum_elem xs"
  have q: "?q \<in> set ?ms" using quorum_elem_in [OF assms(1)] by simp
  have two: "two_groups_at ?ms j = two_groups_at xs j" for j by (simp add: two_groups_at_def)
  have cases: "(\<exists>i. group_scan ?ms (idx_group ?q) True = Inl i \<and> n = min i (idx_index ?q) \<and> b) \<or>
      (\<exists>s. group_scan ?ms (idx_group ?q) True = Inr s \<and> \<not> b \<and>
        n = (if s then idx_index ?q else idx_index (last ?ms)))"
    using assms(2) unfolding commit_of_matched_eq [OF assms(1)]
    by (cases "group_scan ?ms (idx_group ?q) True") (simp_all split: if_splits)
  have found: "k \<le> n \<longleftrightarrow> k \<le> idx_index ?q \<and> two_groups_at xs k" if b for k
    using cases that group_scan_Inl [OF sort_desc_sorted q, of True] two by metis
  have none: "\<not> two_groups_at xs k" if "\<not> b" for k
    using cases that group_scan_Inr [of ?ms ?q] two by metis
  show "b \<longleftrightarrow> two_groups_at xs 0" using found [of 0] none [of 0] by blast
  show "k \<le> n \<longleftrightarrow> k \<le> idx_index ?q \<and> two_groups_at xs k" if b
    using that by (rule found)
  have single: "s \<longleftrightarrow> (\<forall>m \<in> set xs. idx_group m \<noteq> 0)"
    if "group_scan ?ms (idx_group ?q) True = Inr s" for s
    using group_scan_single [OF that q] by simp
  show "n = idx_index ?q" if "\<not> b" "\<forall>m \<in> set xs. idx_group m \<noteq> 0"
    using cases that single by metis
  show "n = idx_index (last ?ms)" if "\<not> b" "\<exists>m \<in> set xs. idx_group m = 0"
    using cases that single by metis
qed

lemma last_sort_desc_min:
  "xs \<noteq> [] \<Longrightarrow> k \<le> idx_index (last (sort_desc xs)) \<longleftrightarrow> (\<forall>m \<in> set xs. k \<le> idx_index m)"
proof -
  assume "xs \<noteq> []"
  then have ne: "sort_desc xs \<noteq> []" by (metis length_0_conv length_sort_desc)
  have "\<forall>m \<in> set ms. idx_index (last ms) \<le> idx_index m"
    if "sorted_wrt (\<lambda>a b. idx_index b \<le> idx_index a) ms" "ms \<noteq> []" for ms
    using that by (induction ms) auto
  from this [OF sort_desc_sorted ne] last_in_set [OF ne] show ?thesis
    by (auto intro: order_trans)
qed

section \<open>The stack array\<close>

lemma fill_stack_eq:
  "i + length vs \<le> length arr \<Longrightarrow>
     fill_stack l i vs arr =
       Some (take i arr @ map (\<lambda>v. Some (acked l v)) vs @ drop (i + length vs) arr)"
proof (induction vs arbitrary: i arr)
  case (Cons v vs)
  then show ?case
    by (simp add: take_Suc_conv_app_nth drop_update_cancel add.commute)
qed simp

lemma read_init_map: "read_init (map (\<lambda>v. Some (f v)) vs) = Some (map f vs)"
  by (induction vs) auto

lemma fold_push: "fold (\<lambda>v buf. buf @ [f v]) vs buf = buf @ map f vs"
  by (induction vs arbitrary: buf) auto


section \<open>Properties\<close>

lemma joint_commit_vote:
  assumes "joint_committed_index c False l = Some (n, b)" and "k \<le> U64_MAX"
  shows "k \<le> n \<longleftrightarrow> joint_vote_result c (yes_from {v. k \<le> idx_index (acked l v)}) = Won"
proof -
  from assms(1) obtain i bi j bj where
    "committed_index (jc_incoming c) False l = Some (i, bi)"
    "committed_index (jc_outgoing c) False l = Some (j, bj)" "n = min i j"
    by (auto simp: joint_committed_index_def bind_eq_Some_conv)
  with committed_index_vote [OF _ assms(2)] show ?thesis by (simp add: joint_Won)
qed

lemma joint_committed_index_returns: "\<exists>n b. joint_committed_index c gc l = Some (n, b)"
proof -
  obtain i bi where i: "committed_index (jc_incoming c) gc l = Some (i, bi)"
    using committed_index_returns by (metis surj_pair)
  obtain j bj where j: "committed_index (jc_outgoing c) gc l = Some (j, bj)"
    using committed_index_returns by (metis surj_pair)
  from i j show ?thesis by (simp add: joint_committed_index_def)
qed

text \<open>
  (C19) The commit index of a joint configuration always exists, and an index is at or below it
  exactly when the vote of the nodes that have acknowledged that index is won in both majorities.
\<close>

theorem joint_commit_index_is_quorum_held:
  "\<exists>n b. joint_committed_index c False l = Some (n, b) \<and>
     (\<forall>k \<le> U64_MAX. k \<le> n \<longleftrightarrow>
        joint_vote_result c (yes_from {v. k \<le> idx_index (acked l v)}) = Won)"
  using joint_committed_index_returns [of c False l] joint_commit_vote [of c l] by blast

lemma joint_commit_index_is_quorum_held_witness:
  "\<exists>n b. joint_committed_index \<lparr>jc_incoming = [1, 2, 3], jc_outgoing = [3, 4]\<rparr> False
        (\<lambda>v. Some \<lparr>idx_index = 10 * v, idx_group = 0\<rparr>) = Some (n, b)
     \<and> (20 \<le> n) = (joint_vote_result \<lparr>jc_incoming = [1, 2, 3], jc_outgoing = [3, 4]\<rparr>
          (yes_from {v. 20 \<le> idx_index (acked (\<lambda>v. Some \<lparr>idx_index = 10 * v, idx_group = 0\<rparr>) v)}) = Won)"
  using joint_commit_index_is_quorum_held
    [of "\<lparr>jc_incoming = [1, 2, 3], jc_outgoing = [3, 4]\<rparr>" "\<lambda>v. Some \<lparr>idx_index = 10 * v, idx_group = 0\<rparr>"]
  by force

text \<open>
  (C24) Two votes of a joint configuration that has voters cannot both be won without a common
  voter who granted both.
\<close>

theorem joint_winners_share_a_voter:
  assumes "joint_valid c"
    and "joint_vote_result c f = Won" and "joint_vote_result c g = Won"
  shows "\<exists>v. joint_contains c v \<and> f v = Some True \<and> g v = Some True"
  using joint_votes.won_overlap [OF assms] by (auto simp: joint_members_def joint_contains_def)

lemma joint_winners_share_a_voter_witness:
  "\<exists>v. joint_contains \<lparr>jc_incoming = [1, 2, 3], jc_outgoing = []\<rparr> v
      \<and> yes_from {1, 2} v = Some True \<and> yes_from {2, 3} v = Some True"
  by (rule joint_winners_share_a_voter)
     (simp_all add: joint_valid_def joint_Won vote_result_Won yes_count_def yes_from_def majority_def)




text \<open>
  (C25) What group commit commits, on every branch: the flag tells whether the voters belong to two
  different groups. If they do, an index is committed exactly when a majority has acknowledged it and
  so have voters of two groups. If they do not and every voter has a group, so that all are in one,
  the groups are ignored and an index is committed exactly when a majority has acknowledged it. If
  they do not and some voter has no group, an index is committed exactly when every voter has
  acknowledged it.
\<close>

theorem group_commit_needs_two_groups:
  assumes "vs \<noteq> []" and "committed_index vs True l = Some (n, b)"
  shows "(b \<longleftrightarrow> two_groups_at (map (acked l) vs) 0) \<and>
     (\<forall>k. k \<le> n \<longleftrightarrow>
        (if b then majority_vote_result vs (yes_from {v. k \<le> idx_index (acked l v)}) = Won \<and> two_groups_at (map (acked l) vs) k
         else if \<forall>v \<in> set vs. idx_group (acked l v) \<noteq> 0
         then majority_vote_result vs (yes_from {v. k \<le> idx_index (acked l v)}) = Won
         else \<forall>v \<in> set vs. k \<le> idx_index (acked l v)))"
proof -
  have xs: "map (acked l) vs \<noteq> []" "commit_of_matched True (map (acked l) vs) = Some (n, b)"
    using assms by (simp_all add: committed_index_def)
  note g = group_commit_iff [OF xs] and q = quorum_elem_vote [OF assms(1)]
  consider b | "\<not> b" "\<forall>v \<in> set vs. idx_group (acked l v) \<noteq> 0" | "\<not> b" "\<not> (\<forall>v \<in> set vs. idx_group (acked l v) \<noteq> 0)" by blast
  then show ?thesis
  proof cases
    case 1
    then show ?thesis using g(1) by (simp only: g(2) [OF 1] q if_True simp_thms)
  next
    case 2
    then have "n = idx_index (quorum_elem (map (acked l) vs))" using g(3) by simp
    with 2(1) g(1) show ?thesis unfolding if_not_P [OF 2(1)] if_P [OF 2(2)] by (simp only: q simp_thms)
  next
    case 3
    then have "n = idx_index (last (sort_desc (map (acked l) vs)))" using g(4) by auto
    with 3(1) g(1) last_sort_desc_min [OF xs(1)] show ?thesis unfolding if_not_P [OF 3(1)] if_not_P [OF 3(2)] by simp
  qed
qed

lemma group_commit_needs_two_groups_witness:
  "two_groups_at (map (acked (\<lambda>v. Some \<lparr>idx_index = v, idx_group = (if v = 1 then 1 else 2)\<rparr>)) [1, 2, 3]) 0
   \<and> committed_index [1, 2, 3] True (\<lambda>v. Some \<lparr>idx_index = v, idx_group = (if v = 1 then 1 else 2)\<rparr>)
     = Some (1, True)
   \<and> committed_index [1, 2, 3] True (\<lambda>v. Some \<lparr>idx_index = v, idx_group = 1\<rparr>) = Some (2, False)
   \<and> majority_vote_result [1, 2, 3] (yes_from {v. 2 \<le> idx_index (acked (\<lambda>v. Some \<lparr>idx_index = v, idx_group = 1\<rparr>) v)}) = Won"
proof -
  have c: "committed_index [1, 2, 3] True
      (\<lambda>v. Some \<lparr>idx_index = v, idx_group = (if v = 1 then 1 else 2)\<rparr>) = Some (1, True)"
    by (simp add: committed_index_def commit_of_matched_def acked_def sort_desc_def majority_def Let_def)
  have d: "committed_index [1, 2, 3] True (\<lambda>v. Some \<lparr>idx_index = v, idx_group = 1\<rparr>) = Some (2, False)"
    by (simp add: committed_index_def commit_of_matched_def acked_def sort_desc_def majority_def Let_def)
  have "\<forall>v \<in> set [1, 2, 3]. idx_group (acked (\<lambda>v. Some \<lparr>idx_index = v, idx_group = 1\<rparr>) v) \<noteq> 0" by (simp add: acked_def)
  then show ?thesis
    using c d group_commit_needs_two_groups [OF _ c] group_commit_needs_two_groups [OF _ d] by fastforce
qed

text \<open>
  The commit index of a majority configuration does not depend on the order in which the hash
  set of voters is walked, with or without group commit.
\<close>

theorem committed_index_order_independent:
  assumes "mset vs = mset ws"
  shows "committed_index vs gc l = committed_index ws gc l"
proof (cases "vs = []")
  case False
  let ?xs = "map (acked l) vs" and ?ys = "map (acked l) ws"
  have ws: "ws \<noteq> []" "set ws = set vs" "length ws = length vs"
    using False assms by (auto dest: mset_eq_setD mset_eq_length)
  then have ne: "?xs \<noteq> []" "?ys \<noteq> []" and st: "set ?ys = set ?xs" using False by auto
  have cnt: "length (filter P ?xs) = length (filter P ?ys)" for P
    using assms by (metis mset_filter mset_map size_mset)
  have qe: "idx_index (quorum_elem ?xs) = idx_index (quorum_elem ?ys)"
    by (rule eq_by_lower) (simp only: quorum_elem_iff [OF ne(1)] quorum_elem_iff [OF ne(2)] cnt length_map ws(3))
  have last: "idx_index (last (sort_desc ?xs)) = idx_index (last (sort_desc ?ys))"
    by (rule eq_by_lower) (simp only: last_sort_desc_min [OF ne(1)] last_sort_desc_min [OF ne(2)] st)
  have two: "two_groups_at ?ys k = two_groups_at ?xs k" for k by (simp add: two_groups_at_def ws(2))
  obtain n b m c where r: "commit_of_matched gc ?xs = Some (n, b)" "commit_of_matched gc ?ys = Some (m, c)"
    using committed_index_returns [of vs gc l] committed_index_returns [of ws gc l] ne
    by (auto simp: committed_index_def)
  have "n = m \<and> b = c"
  proof (cases gc)
    case True
    with r have "commit_of_matched True ?xs = Some (n, b)" "commit_of_matched True ?ys = Some (m, c)"
      by simp_all
    note x = group_commit_iff [OF ne(1) this(1)] and y = group_commit_iff [OF ne(2) this(2)]
    have bc: "b = c" using x(1) y(1) two by simp
    have "n = m"
    proof (cases b)
      case True
      then have "k \<le> n \<longleftrightarrow> k \<le> m" for k using x(2) y(2) bc two qe by simp
      then show ?thesis by (rule eq_by_lower)
    next
      case False
      show ?thesis
      proof (cases "\<forall>m \<in> set ?xs. idx_group m \<noteq> 0")
        case True
        then have "\<forall>m \<in> set ?ys. idx_group m \<noteq> 0" using st by simp
        with x(3) y(3) True False bc qe show ?thesis by simp
      next
        case mixed: False
        then have "\<exists>m \<in> set ?xs. idx_group m = 0" "\<exists>m \<in> set ?ys. idx_group m = 0"
          using st by auto
        with x(4) y(4) False bc last show ?thesis by simp
      qed
    qed
    with bc show ?thesis by simp
  next
    case False
    with r ne qe show ?thesis by (simp add: commit_of_matched_eq)
  qed
  with r ne show ?thesis by (simp add: committed_index_def)
qed (use assms in simp)

lemma committed_index_order_independent_witness:
  "committed_index [1, 2, 3] True (\<lambda>v. Some \<lparr>idx_index = 7, idx_group = v\<rparr>) =
   committed_index [3, 1, 2] True (\<lambda>v. Some \<lparr>idx_index = 7, idx_group = v\<rparr>)"
  by (rule committed_index_order_independent) simp

text \<open>
  (C26) The stack-array variant of the commit index never reads an uninitialised cell, never writes
  outside the array, and returns what the plain variant returns.
\<close>

theorem committed_index_stack_eq: "committed_index_stack vs gc l = committed_index vs gc l"
proof -
  have "take (length vs) (map (\<lambda>v. Some (acked l v)) vs @ r) = map (\<lambda>v. Some (acked l v)) vs" for r
    by simp
  then show ?thesis
    by (simp add: committed_index_stack_def committed_index_def fill_stack_eq read_init_map fold_push)
qed

end
