(* ===== verification/Tracker.thy ===== *)
theory Tracker
  imports Progress Quorum
begin

text \<open>
  \<open>src/tracker.rs\<close>: the configuration of the cluster and the progress of every member, with
  the votes of a running election. The quorum questions are answered by the joint configuration of
  theory \<open>Quorum\<close>.
\<close>

section \<open>State and operations\<close>

record configuration =
  cfg_voters :: joint_config
  cfg_learners :: "u64 hset"
  cfg_learners_next :: "u64 hset"
  cfg_auto_leave :: bool

definition configuration_new :: "u64 list \<Rightarrow> u64 list \<Rightarrow> configuration" where
  "configuration_new voters learners =
     \<lparr>cfg_voters = joint_new (hset_collect voters), cfg_learners = hset_collect learners,
      cfg_learners_next = [], cfg_auto_leave = False\<rparr>"

definition configuration_empty :: configuration where
  "configuration_empty =
     \<lparr>cfg_voters = \<lparr>jc_incoming = [], jc_outgoing = []\<rparr>, cfg_learners = [],
      cfg_learners_next = [], cfg_auto_leave = False\<rparr>"

definition to_conf_state :: "configuration \<Rightarrow> conf_state" where
  "to_conf_state c =
     \<lparr>cs_voters = jc_incoming (cfg_voters c), cs_learners = cfg_learners c,
      cs_voters_outgoing = jc_outgoing (cfg_voters c), cs_learners_next = cfg_learners_next c,
      cs_auto_leave = cfg_auto_leave c\<rparr>"

definition configuration_clear :: "configuration \<Rightarrow> configuration" where
  "configuration_clear c =
     c\<lparr>cfg_voters := joint_clear (cfg_voters c), cfg_learners := [], cfg_learners_next := [],
       cfg_auto_leave := False\<rparr>"

type_synonym progress_map = "(u64, progress) hmap"

definition acked_index :: "progress_map \<Rightarrow> u64 \<Rightarrow> ack_index option" where
  "acked_index m voter_id =
     map_option (\<lambda>p. \<lparr>idx_index = pr_matched p, idx_group = pr_commit_group_id p\<rparr>) (map_of m voter_id)"

record progress_tracker =
  tr_progress :: progress_map
  tr_conf :: configuration
  tr_votes :: "(u64, bool) hmap"
  tr_max_inflight :: usize
  tr_group_commit :: bool

definition tracker_new :: "usize \<Rightarrow> progress_tracker" where
  "tracker_new max_inflight =
     \<lparr>tr_progress = [], tr_conf = configuration_empty, tr_votes = [],
      tr_max_inflight = max_inflight, tr_group_commit = False\<rparr>"

definition tracker_enable_group_commit :: "progress_tracker \<Rightarrow> bool \<Rightarrow> progress_tracker" where
  "tracker_enable_group_commit t enable = t\<lparr>tr_group_commit := enable\<rparr>"

definition tracker_clear :: "progress_tracker \<Rightarrow> progress_tracker" where
  "tracker_clear t = t\<lparr>tr_progress := [], tr_conf := configuration_clear (tr_conf t), tr_votes := []\<rparr>"

definition tracker_is_singleton :: "progress_tracker \<Rightarrow> bool" where
  "tracker_is_singleton t = joint_is_singleton (cfg_voters (tr_conf t))"

definition tracker_get :: "progress_tracker \<Rightarrow> u64 \<Rightarrow> progress option" where
  "tracker_get t i = map_of (tr_progress t) i"

text \<open>Writing through the reference that \<open>get_mut\<close> returns.\<close>

definition tracker_put :: "progress_tracker \<Rightarrow> u64 \<Rightarrow> progress \<Rightarrow> progress_tracker" where
  "tracker_put t i p = t\<lparr>tr_progress := AList.update i p (tr_progress t)\<rparr>"

definition maximal_committed_index :: "progress_tracker \<Rightarrow> (u64 \<times> bool) option" where
  "maximal_committed_index t =
     joint_committed_index (cfg_voters (tr_conf t)) (tr_group_commit t) (acked_index (tr_progress t))"

definition tracker_reset_votes :: "progress_tracker \<Rightarrow> progress_tracker" where
  "tracker_reset_votes t = t\<lparr>tr_votes := []\<rparr>"

definition record_vote :: "progress_tracker \<Rightarrow> u64 \<Rightarrow> bool \<Rightarrow> progress_tracker" where
  "record_vote t i vote =
     (if hmap_contains (tr_votes t) i then t else t\<lparr>tr_votes := AList.update i vote (tr_votes t)\<rparr>)"

definition tracker_vote_result :: "progress_tracker \<Rightarrow> (u64, bool) hmap \<Rightarrow> vote_result" where
  "tracker_vote_result t votes = joint_vote_result (cfg_voters (tr_conf t)) (map_of votes)"

definition tally_one :: "progress_tracker \<Rightarrow> u64 \<times> bool \<Rightarrow> usize \<times> usize \<Rightarrow> usize \<times> usize" where
  "tally_one t iv counts =
     (if \<not> joint_contains (cfg_voters (tr_conf t)) (fst iv) then counts
      else if snd iv then (fst counts + 1, snd counts)
      else (fst counts, snd counts + 1))"

definition tally_votes :: "progress_tracker \<Rightarrow> usize \<times> usize \<times> vote_result" where
  "tally_votes t =
     (let (granted, rejected) = fold (tally_one t) (tr_votes t) (0, 0)
      in (granted, rejected, tracker_vote_result t (tr_votes t)))"

definition has_quorum :: "progress_tracker \<Rightarrow> u64 hset \<Rightarrow> bool" where
  "has_quorum t potential_quorum \<longleftrightarrow>
     joint_vote_result (cfg_voters (tr_conf t))
       (\<lambda>i. if i \<in> set potential_quorum then Some True else None) = Won"

definition active_one ::
  "u64 \<Rightarrow> u64 \<times> progress \<Rightarrow> progress_map \<times> u64 hset \<Rightarrow> progress_map \<times> u64 hset" where
  "active_one perspective_of ip acc =
     (let (i, p) = ip; (m, active) = acc in
      if i = perspective_of then (m @ [(i, p\<lparr>pr_recent_active := True\<rparr>)], hset_insert i active)
      else if pr_recent_active p then
        (m @ [(i, p\<lparr>pr_recent_active := False\<rparr>)], hset_insert i active)
      else (m @ [(i, p)], active))"

definition quorum_recently_active :: "progress_tracker \<Rightarrow> u64 \<Rightarrow> progress_tracker \<times> bool" where
  "quorum_recently_active t perspective_of =
     (let (m, active) = fold (active_one perspective_of) (tr_progress t) ([], []);
          t = t\<lparr>tr_progress := m\<rparr>
      in (t, has_quorum t active))"

datatype map_change_type = MapAdd | MapRemove

type_synonym map_change = "(u64 \<times> map_change_type) list"

definition apply_change :: "usize \<Rightarrow> u64 \<Rightarrow> u64 \<times> map_change_type \<Rightarrow> progress_map \<Rightarrow> progress_map" where
  "apply_change max_inflight next_idx ch m =
     (case snd ch of
        MapAdd \<Rightarrow>
          AList.update (fst ch) ((progress_new next_idx max_inflight)\<lparr>pr_recent_active := True\<rparr>) m
      | MapRemove \<Rightarrow> AList.delete (fst ch) m)"

definition apply_conf ::
  "progress_tracker \<Rightarrow> configuration \<Rightarrow> map_change \<Rightarrow> u64 \<Rightarrow> progress_tracker" where
  "apply_conf t conf changes next_idx =
     t\<lparr>tr_conf := conf,
       tr_progress := fold (apply_change (tr_max_inflight t) next_idx) changes (tr_progress t)\<rparr>"

section \<open>Votes and quorums\<close>

lemma has_quorum_iff:
  "has_quorum t q \<longleftrightarrow> joint_vote_result (cfg_voters (tr_conf t)) (yes_from (set q)) = Won"
proof -
  have "(\<lambda>i. if i \<in> set q then Some True else None) = yes_from (set q)"
    by (auto simp: yes_from_def)
  then show ?thesis by (simp add: has_quorum_def)
qed

lemma joint_vote_result_single: "joint_vote_result \<lparr>jc_incoming = c, jc_outgoing = []\<rparr> f = majority_vote_result c f"
  by (cases "majority_vote_result c f") (simp_all add: joint_vote_result_def majority_vote_result_def [of "[]"])

lemma record_vote_get:
  "map_of (tr_votes (record_vote t i v)) j =
     (if j = i \<and> map_of (tr_votes t) i = None then Some v else map_of (tr_votes t) j)"
  by (auto simp: record_vote_def hmap_contains_def)

lemma fold_tally_one:
  "fold (tally_one t) vs (g, r) =
     (g + length (filter (\<lambda>(i, v). joint_contains (cfg_voters (tr_conf t)) i \<and> v) vs),
      r + length (filter (\<lambda>(i, v). joint_contains (cfg_voters (tr_conf t)) i \<and> \<not> v) vs))"
  by (induction vs arbitrary: g r) (auto simp: tally_one_def)

lemma inactive_id [simp]: "\<not> pr_recent_active p \<Longrightarrow> p\<lparr>pr_recent_active := False\<rparr> = p"
  by (cases p) simp

lemma fold_active:
  "fold (active_one self) ps (m, act) =
     (m @ map (\<lambda>(i, p). (i, p\<lparr>pr_recent_active := (i = self)\<rparr>)) ps,
      hset_extend act (map fst (filter (\<lambda>(i, p). i = self \<or> pr_recent_active p) ps)))"
proof (induction ps arbitrary: m act)
  case (Cons ip ps)
  obtain i p where "ip = (i, p)" by (cases ip)
  with Cons.IH show ?case
    by (cases "i = self"; cases "pr_recent_active p") (simp_all add: active_one_def hset_extend_def)
qed (simp add: hset_extend_def)

lemma quorum_recently_active_eq:
  "quorum_recently_active t self =
     (t\<lparr>tr_progress := hmap_map (\<lambda>i p. p\<lparr>pr_recent_active := (i = self)\<rparr>) (tr_progress t)\<rparr>,
      has_quorum t (hset_collect (map fst (filter (\<lambda>(i, p). i = self \<or> pr_recent_active p) (tr_progress t)))))"
  by (simp add: quorum_recently_active_def fold_active hmap_map_def hset_collect_def has_quorum_def)


lemma votes_count:
  assumes "hmap_wf vs" and "distinct c"
  shows "length (filter (\<lambda>(i, v). i \<in> set c \<and> v = b) vs) = length (filter (\<lambda>i. map_of vs i = Some b) c)"
proof -
  have "length (filter (\<lambda>(i, v). i \<in> set c \<and> v = b) vs)
      = card (fst ` set (filter (\<lambda>(i, v). i \<in> set c \<and> v = b) vs))"
    using assms(1) by (metis (no_types, lifting) distinct_card distinct_map_filter hmap_wf_def length_map set_map)
  also have "fst ` set (filter (\<lambda>(i, v). i \<in> set c \<and> v = b) vs) = {i \<in> set c. map_of vs i = Some b}"
    using hmap_get_in [OF assms(1)] by (auto 4 3 dest: map_of_SomeD intro: rev_image_eqI)
  finally show ?thesis using assms(2) by (simp add: length_filter_le_of_subset)
qed

section \<open>Properties\<close>

text \<open>
  (C31) In a configuration that is not joint the tally reports how many voters granted and how many
  rejected, votes of strangers left out, and the election is won or lost exactly when these numbers
  reach a majority or make one impossible.
\<close>

theorem tally_votes_counts:
  assumes "hmap_wf (tr_votes t)" and "cfg_voters (tr_conf t) = \<lparr>jc_incoming = c, jc_outgoing = []\<rparr>"
    and "distinct c" and "c \<noteq> []" and "tally_votes t = (granted, rejected, result)"
  shows "granted = card {i \<in> set c. map_of (tr_votes t) i = Some True}
     \<and> rejected = card {i \<in> set c. map_of (tr_votes t) i = Some False}
     \<and> (result = Won \<longleftrightarrow> majority (length c) \<le> granted)
     \<and> (result = Lost \<longleftrightarrow> length c < majority (length c) + rejected)"
proof -
  have eqs: "(\<lambda>(i, v). i \<in> set c \<and> v) = (\<lambda>(i, v). i \<in> set c \<and> v = True)"
    "(\<lambda>(i, v). i \<in> set c \<and> \<not> v) = (\<lambda>(i, v). i \<in> set c \<and> v = False)" by auto
  have "tally_votes t = (yes_count c (map_of (tr_votes t)), no_count c (map_of (tr_votes t)),
      majority_vote_result c (map_of (tr_votes t)))"
    by (simp add: tally_votes_def fold_tally_one joint_contains_def assms(2) tracker_vote_result_def
        joint_vote_result_single) (simp only: eqs votes_count [OF assms(1,3)] yes_count_def no_count_def)
  then have g: "granted = yes_count c (map_of (tr_votes t))" "rejected = no_count c (map_of (tr_votes t))"
    and r: "result = majority_vote_result c (map_of (tr_votes t))"
    using assms(5) by simp_all
  have "granted = card {i \<in> set c. map_of (tr_votes t) i = Some True}"
    "rejected = card {i \<in> set c. map_of (tr_votes t) i = Some False}"
    using g assms(3) by (simp_all add: yes_count_def no_count_def length_filter_le_of_subset)
  with g r assms(4) show ?thesis by (simp add: vote_result_Won vote_result_Lost)
qed

lemma tally_votes_counts_witness:
  "\<exists>g r. tally_votes (record_vote (record_vote ((tracker_new 8)\<lparr>tr_conf := configuration_new [1, 2, 3] []\<rparr>) 1 True) 2 True)
      = (g, r, Won) \<and> majority 3 \<le> g"
proof -
  let ?t = "record_vote (record_vote ((tracker_new 8)\<lparr>tr_conf := configuration_new [1, 2, 3] []\<rparr>) 1 True) 2 True"
  have t: "tally_votes ?t = (2, 0, Won)" by code_simp
  have "hmap_wf (tr_votes ?t)" "cfg_voters (tr_conf ?t) = \<lparr>jc_incoming = [1, 2, 3], jc_outgoing = []\<rparr>"
    by (simp_all add: record_vote_def tracker_new_def hmap_wf_def hmap_contains_def configuration_new_def
        joint_new_def hset_collect_def hset_extend_def hset_insert_def)
  from tally_votes_counts [OF this _ _ t] t show ?thesis by (auto simp: numeral_3_eq_3)
qed

text \<open>
  (C32) The quorum check of a leader: it answers whether the members heard from since the last
  check, the leader itself counted, form a quorum; afterwards only the leader is marked active and
  nothing else of the progress map has changed.
\<close>

theorem quorum_recently_active_spec:
  assumes "hmap_wf (tr_progress t)" and "quorum_recently_active t self = (t', active)"
  shows "(active \<longleftrightarrow> joint_vote_result (cfg_voters (tr_conf t))
       (yes_from {i. \<exists>p. tracker_get t i = Some p \<and> (i = self \<or> pr_recent_active p)}) = Won)
     \<and> tr_conf t' = tr_conf t
     \<and> (\<forall>i. tracker_get t' i = map_option (\<lambda>p. p\<lparr>pr_recent_active := (i = self)\<rparr>) (tracker_get t i))"
proof -
  have "fst ` set (filter (\<lambda>(i, p). i = self \<or> pr_recent_active p) (tr_progress t))
      = {i. \<exists>p. tracker_get t i = Some p \<and> (i = self \<or> pr_recent_active p)}"
    using hmap_get_in [OF assms(1)]
    by (auto 4 3 simp: tracker_get_def dest: map_of_SomeD intro: rev_image_eqI)
  with assms(2) show ?thesis
    by (auto simp: quorum_recently_active_eq has_quorum_iff tracker_get_def)
qed

text \<open>Three voters, of which the leader 1 has heard from node 2 only.\<close>

definition sample_active :: progress_tracker where
  "sample_active = (tracker_new 8)\<lparr>tr_conf := configuration_new [1, 2, 3] [],
     tr_progress := [(1, progress_new 1 8), (2, (progress_new 1 8)\<lparr>pr_recent_active := True\<rparr>), (3, progress_new 1 8)]\<rparr>"

lemma quorum_recently_active_spec_witness:
  "\<exists>t'. quorum_recently_active sample_active 1 = (t', True) \<and> map_option pr_recent_active (tracker_get t' 1) = Some True
     \<and> map_option pr_recent_active (tracker_get t' 2) = Some False"
proof -
  obtain t' active where run: "quorum_recently_active sample_active 1 = (t', active)" by (cases "quorum_recently_active sample_active 1")
  have wf: "hmap_wf (tr_progress sample_active)" by (simp add: sample_active_def hmap_wf_def)
  have get: "tracker_get sample_active 1 = Some (progress_new 1 8)"
    "tracker_get sample_active 2 = Some ((progress_new 1 8)\<lparr>pr_recent_active := True\<rparr>)"
    by (simp_all add: sample_active_def tracker_get_def)
  have "joint_vote_result (cfg_voters (tr_conf sample_active))
      (yes_from {i. \<exists>p. tracker_get sample_active i = Some p \<and> (i = 1 \<or> pr_recent_active p)}) = Won"
    by (simp add: sample_active_def configuration_new_def joint_new_def hset_collect_def hset_extend_def hset_insert_def
        joint_vote_result_def majority_vote_result_def yes_from_def majority_def tracker_get_def progress_new_def)
  with quorum_recently_active_spec [OF wf run] get run show ?thesis by auto
qed

end
