(* ===== verification/Confchange.thy ===== *)
theory Confchange
  imports Tracker
begin

text \<open>
  \<open>src/confchange.rs\<close>, \<open>src/confchange/changer.rs\<close> and \<open>src/confchange/restore.rs\<close>: membership
  changes, simple and joint, and the construction of a configuration from a \<open>ConfState\<close>.

  The changer works on a copy of the configuration and a log of additions and removals of
  progresses; \<open>apply_conf\<close> of theory \<open>Tracker\<close> then installs both. \<open>tracker_inv\<close> says when a
  tracker is consistent: it tracks exactly the members of its configuration. The lemmas show that
  every change keeps it, what a list of changes does to the role of a node, and that quorums before
  and after a change always meet.
\<close>

section \<open>Operations\<close>

definition joint :: "configuration \<Rightarrow> bool" where
  "joint cfg \<longleftrightarrow> jc_outgoing (cfg_voters cfg) \<noteq> []"

record incr_change_map =
  icm_changes :: map_change
  icm_base :: progress_map

definition icm_contains :: "incr_change_map \<Rightarrow> u64 \<Rightarrow> bool" where
  "icm_contains prs i =
     (case find (\<lambda>ch. fst ch = i) (rev (icm_changes prs)) of
        Some (_, MapRemove) \<Rightarrow> False
      | Some (_, MapAdd) \<Rightarrow> True
      | None \<Rightarrow> hmap_contains (icm_base prs) i)"

definition icm_push :: "incr_change_map \<Rightarrow> u64 \<times> map_change_type \<Rightarrow> incr_change_map" where
  "icm_push prs ch = prs\<lparr>icm_changes := icm_changes prs @ [ch]\<rparr>"

text \<open>Writing the incoming or outgoing half of a configuration.\<close>

definition set_incoming :: "u64 hset \<Rightarrow> configuration \<Rightarrow> configuration" where
  "set_incoming s cfg = cfg\<lparr>cfg_voters := (cfg_voters cfg)\<lparr>jc_incoming := s\<rparr>\<rparr>"

definition set_outgoing :: "u64 hset \<Rightarrow> configuration \<Rightarrow> configuration" where
  "set_outgoing s cfg = cfg\<lparr>cfg_voters := (cfg_voters cfg)\<lparr>jc_outgoing := s\<rparr>\<rparr>"

definition init_progress ::
  "configuration \<Rightarrow> incr_change_map \<Rightarrow> u64 \<Rightarrow> bool \<Rightarrow> configuration \<times> incr_change_map" where
  "init_progress cfg prs i is_learner =
     (if \<not> is_learner then set_incoming (hset_insert i (jc_incoming (cfg_voters cfg))) cfg
      else cfg\<lparr>cfg_learners := hset_insert i (cfg_learners cfg)\<rparr>,
      icm_push prs (i, MapAdd))"

definition make_voter :: "configuration \<Rightarrow> incr_change_map \<Rightarrow> u64 \<Rightarrow> configuration \<times> incr_change_map" where
  "make_voter cfg prs i =
     (if \<not> icm_contains prs i then init_progress cfg prs i False
      else
        (let cfg = set_incoming (hset_insert i (jc_incoming (cfg_voters cfg))) cfg;
             cfg = cfg\<lparr>cfg_learners := hset_remove i (cfg_learners cfg)\<rparr>;
             cfg = cfg\<lparr>cfg_learners_next := hset_remove i (cfg_learners_next cfg)\<rparr>
         in (cfg, prs)))"

definition make_learner :: "configuration \<Rightarrow> incr_change_map \<Rightarrow> u64 \<Rightarrow> configuration \<times> incr_change_map" where
  "make_learner cfg prs i =
     (if \<not> icm_contains prs i then init_progress cfg prs i True
      else if i \<in> set (cfg_learners cfg) then (cfg, prs)
      else
        (let cfg = set_incoming (hset_remove i (jc_incoming (cfg_voters cfg))) cfg;
             cfg = cfg\<lparr>cfg_learners := hset_remove i (cfg_learners cfg)\<rparr>;
             cfg = cfg\<lparr>cfg_learners_next := hset_remove i (cfg_learners_next cfg)\<rparr>
         in (if i \<in> set (jc_outgoing (cfg_voters cfg))
             then cfg\<lparr>cfg_learners_next := hset_insert i (cfg_learners_next cfg)\<rparr>
             else cfg\<lparr>cfg_learners := hset_insert i (cfg_learners cfg)\<rparr>,
             prs)))"

definition remove_node :: "configuration \<Rightarrow> incr_change_map \<Rightarrow> u64 \<Rightarrow> configuration \<times> incr_change_map" where
  "remove_node cfg prs i =
     (if \<not> icm_contains prs i then (cfg, prs)
      else
        (let cfg = set_incoming (hset_remove i (jc_incoming (cfg_voters cfg))) cfg;
             cfg = cfg\<lparr>cfg_learners := hset_remove i (cfg_learners cfg)\<rparr>;
             cfg = cfg\<lparr>cfg_learners_next := hset_remove i (cfg_learners_next cfg)\<rparr>
         in (cfg,
             if i \<notin> set (jc_outgoing (cfg_voters cfg)) then icm_push prs (i, MapRemove) else prs)))"

definition apply_one ::
  "conf_change_single \<Rightarrow> configuration \<times> incr_change_map \<Rightarrow> configuration \<times> incr_change_map" where
  "apply_one cc st =
     (if ccs_node_id cc = 0 then st
      else
        (case ccs_change_type cc of
           AddNode \<Rightarrow> make_voter (fst st) (snd st) (ccs_node_id cc)
         | AddLearnerNode \<Rightarrow> make_learner (fst st) (snd st) (ccs_node_id cc)
         | RemoveNode \<Rightarrow> remove_node (fst st) (snd st) (ccs_node_id cc)))"

definition apply_changes ::
  "configuration \<Rightarrow> incr_change_map \<Rightarrow> conf_change_single list \<Rightarrow> (configuration \<times> incr_change_map) result" where
  "apply_changes cfg prs ccs =
     (let (cfg, prs) = fold apply_one ccs (cfg, prs) in
      if jc_incoming (cfg_voters cfg) = [] then Inl (ConfChangeError ''removed all voters'')
      else Inr (cfg, prs))"

text \<open>A \<open>for\<close> loop that returns the first error of its body.\<close>

fun first_error :: "('a \<Rightarrow> raft_error option) \<Rightarrow> 'a list \<Rightarrow> raft_error option" where
  "first_error f [] = None"
| "first_error f (x # xs) = (case f x of None \<Rightarrow> first_error f xs | Some e \<Rightarrow> Some e)"

definition check_voter :: "incr_change_map \<Rightarrow> u64 \<Rightarrow> raft_error option" where
  "check_voter prs i =
     (if \<not> icm_contains prs i then Some (ConfChangeError (''no progress for voter '' @ show_u64 i)) else None)"

definition check_learner :: "configuration \<Rightarrow> incr_change_map \<Rightarrow> u64 \<Rightarrow> raft_error option" where
  "check_learner cfg prs i =
     (if \<not> icm_contains prs i then Some (ConfChangeError (''no progress for learner '' @ show_u64 i))
      else if i \<in> set (jc_outgoing (cfg_voters cfg)) then
        Some (ConfChangeError (show_u64 i @ '' is in learners and outgoing voters''))
      else if i \<in> set (jc_incoming (cfg_voters cfg)) then
        Some (ConfChangeError (show_u64 i @ '' is in learners and incoming voters''))
      else None)"

definition check_learner_next :: "configuration \<Rightarrow> incr_change_map \<Rightarrow> u64 \<Rightarrow> raft_error option" where
  "check_learner_next cfg prs i =
     (if \<not> icm_contains prs i then
        Some (ConfChangeError (''no progress for learner(next) '' @ show_u64 i))
      else if i \<notin> set (jc_outgoing (cfg_voters cfg)) then
        Some (ConfChangeError (show_u64 i @ '' is in learners_next and outgoing voters''))
      else None)"

definition check_invariants :: "configuration \<Rightarrow> incr_change_map \<Rightarrow> unit result" where
  "check_invariants cfg prs =
     (case first_error (check_voter prs) (union_iter (joint_ids (cfg_voters cfg))) of
        Some e \<Rightarrow> Inl e
      | None \<Rightarrow>
     (case first_error (check_learner cfg prs) (cfg_learners cfg) of
        Some e \<Rightarrow> Inl e
      | None \<Rightarrow>
     (case first_error (check_learner_next cfg prs) (cfg_learners_next cfg) of
        Some e \<Rightarrow> Inl e
      | None \<Rightarrow>
          if \<not> joint cfg \<and> cfg_learners_next cfg \<noteq> [] then
            Inl (ConfChangeError ''learners_next must be empty when not joint'')
          else if \<not> joint cfg \<and> cfg_auto_leave cfg then
            Inl (ConfChangeError ''auto_leave must be false when not joint'')
          else Inr ())))"

definition check_and_copy :: "progress_tracker \<Rightarrow> (configuration \<times> incr_change_map) result" where
  "check_and_copy t =
     (let prs = \<lparr>icm_changes = [], icm_base = tr_progress t\<rparr> in
      case check_invariants (tr_conf t) prs of
        Inl e \<Rightarrow> Inl e
      | Inr _ \<Rightarrow> Inr (tr_conf t, prs))"

definition enter_joint ::
  "progress_tracker \<Rightarrow> bool \<Rightarrow> conf_change_single list \<Rightarrow> (configuration \<times> map_change) result" where
  "enter_joint t auto_leave ccs =
     (if joint (tr_conf t) then Inl (ConfChangeError ''config is already joint'')
      else
        (case check_and_copy t of
           Inl e \<Rightarrow> Inl e
         | Inr (cfg, prs) \<Rightarrow>
             if jc_incoming (cfg_voters cfg) = [] then
               Inl (ConfChangeError ''can't make a zero-voter config joint'')
             else
               (let cfg = set_outgoing
                      (hset_extend (jc_outgoing (cfg_voters cfg)) (jc_incoming (cfg_voters cfg))) cfg in
                case apply_changes cfg prs ccs of
                  Inl e \<Rightarrow> Inl e
                | Inr (cfg, prs) \<Rightarrow>
                    (let cfg = cfg\<lparr>cfg_auto_leave := auto_leave\<rparr> in
                     case check_invariants cfg prs of
                       Inl e \<Rightarrow> Inl e
                     | Inr _ \<Rightarrow> Inr (cfg, icm_changes prs)))))"

definition leave_one :: "configuration \<Rightarrow> u64 \<Rightarrow> incr_change_map \<Rightarrow> incr_change_map" where
  "leave_one cfg i prs =
     (if i \<notin> set (jc_incoming (cfg_voters cfg)) \<and> i \<notin> set (cfg_learners cfg)
      then icm_push prs (i, MapRemove) else prs)"

definition leave_joint :: "progress_tracker \<Rightarrow> (configuration \<times> map_change) result" where
  "leave_joint t =
     (if \<not> joint (tr_conf t) then Inl (ConfChangeError ''can't leave a non-joint config'')
      else
        (case check_and_copy t of
           Inl e \<Rightarrow> Inl e
         | Inr (cfg, prs) \<Rightarrow>
             if jc_outgoing (cfg_voters cfg) = [] then
               Inl (ConfChangeError ''configuration is not joint'')
             else
               (let cfg = cfg\<lparr>cfg_learners := hset_extend (cfg_learners cfg) (cfg_learners_next cfg),
                              cfg_learners_next := []\<rparr>;
                    prs = fold (leave_one cfg) (jc_outgoing (cfg_voters cfg)) prs;
                    cfg = (set_outgoing [] cfg)\<lparr>cfg_auto_leave := False\<rparr>
                in case check_invariants cfg prs of
                     Inl e \<Rightarrow> Inl e
                   | Inr _ \<Rightarrow> Inr (cfg, icm_changes prs))))"

definition symmetric_difference_count :: "u64 hset \<Rightarrow> u64 hset \<Rightarrow> nat" where
  "symmetric_difference_count a b =
     length (filter (\<lambda>x. x \<notin> set b) a) + length (filter (\<lambda>x. x \<notin> set a) b)"

definition simple ::
  "progress_tracker \<Rightarrow> conf_change_single list \<Rightarrow> (configuration \<times> map_change) result" where
  "simple t ccs =
     (if joint (tr_conf t) then
        Inl (ConfChangeError ''can't apply simple config change in joint config'')
      else
        (case check_and_copy t of
           Inl e \<Rightarrow> Inl e
         | Inr (cfg, prs) \<Rightarrow>
             (case apply_changes cfg prs ccs of
                Inl e \<Rightarrow> Inl e
              | Inr (cfg, prs) \<Rightarrow>
                  if symmetric_difference_count (jc_incoming (cfg_voters cfg))
                       (jc_incoming (cfg_voters (tr_conf t))) > 1 then
                    Inl (ConfChangeError ''more than one voter changed without entering joint config'')
                  else
                    (case check_invariants cfg prs of
                       Inl e \<Rightarrow> Inl e
                     | Inr _ \<Rightarrow> Inr (cfg, icm_changes prs)))))"

section \<open>Restoring a configuration\<close>

definition to_conf_change_single :: "conf_state \<Rightarrow> conf_change_single list \<times> conf_change_single list" where
  "to_conf_change_single cs =
     (let outgoing = map (\<lambda>i. new_conf_change_single i AddNode) (cs_voters_outgoing cs);
          incoming = map (\<lambda>i. new_conf_change_single i RemoveNode) (cs_voters_outgoing cs)
            @ map (\<lambda>i. new_conf_change_single i AddNode) (cs_voters cs)
            @ map (\<lambda>i. new_conf_change_single i AddLearnerNode) (cs_learners cs)
            @ map (\<lambda>i. new_conf_change_single i AddLearnerNode) (cs_learners_next cs)
      in (outgoing, incoming))"

text \<open>On an error the changes already installed stay in the tracker, as in the source.\<close>

fun restore_simple ::
  "u64 \<Rightarrow> conf_change_single list \<Rightarrow> progress_tracker \<Rightarrow> progress_tracker \<times> unit result" where
  "restore_simple next_idx [] t = (t, Inr ())"
| "restore_simple next_idx (cc # ccs) t =
     (case simple t [cc] of
        Inl e \<Rightarrow> (t, Inl e)
      | Inr (cfg, changes) \<Rightarrow> restore_simple next_idx ccs (apply_conf t cfg changes next_idx))"

definition restore_conf :: "progress_tracker \<Rightarrow> u64 \<Rightarrow> conf_state \<Rightarrow> progress_tracker \<times> unit result" where
  "restore_conf t next_idx cs =
     (let (outgoing, incoming) = to_conf_change_single cs in
      if outgoing = [] then restore_simple next_idx incoming t
      else
        (case restore_simple next_idx outgoing t of
           (t, Inl e) \<Rightarrow> (t, Inl e)
         | (t, Inr _) \<Rightarrow>
             (case enter_joint t (cs_auto_leave cs) incoming of
                Inl e \<Rightarrow> (t, Inl e)
              | Inr (cfg, changes) \<Rightarrow> (apply_conf t cfg changes next_idx, Inr ()))))"


section \<open>Invariant\<close>

abbreviation inc :: "configuration \<Rightarrow> u64 set" where
  "inc cfg \<equiv> set (jc_incoming (cfg_voters cfg))"

abbreviation out :: "configuration \<Rightarrow> u64 set" where
  "out cfg \<equiv> set (jc_outgoing (cfg_voters cfg))"

abbreviation lrn :: "configuration \<Rightarrow> u64 set" where
  "lrn cfg \<equiv> set (cfg_learners cfg)"

abbreviation nxt :: "configuration \<Rightarrow> u64 set" where
  "nxt cfg \<equiv> set (cfg_learners_next cfg)"

definition conf_distinct :: "configuration \<Rightarrow> bool" where
  "conf_distinct cfg \<longleftrightarrow>
     distinct (jc_incoming (cfg_voters cfg)) \<and> distinct (jc_outgoing (cfg_voters cfg))
     \<and> distinct (cfg_learners cfg) \<and> distinct (cfg_learners_next cfg)"

definition conf_core :: "configuration \<Rightarrow> u64 set \<Rightarrow> bool" where
  "conf_core cfg K \<longleftrightarrow>
     conf_distinct cfg \<and> K = inc cfg \<union> out cfg \<union> lrn cfg
     \<and> lrn cfg \<inter> (inc cfg \<union> out cfg) = {} \<and> nxt cfg \<subseteq> out cfg \<and> nxt cfg \<inter> inc cfg = {}"

definition tracker_inv :: "progress_tracker \<Rightarrow> bool" where
  "tracker_inv t \<longleftrightarrow>
     hmap_wf (tr_progress t) \<and> conf_core (tr_conf t) (fst ` set (tr_progress t))
     \<and> (\<not> joint (tr_conf t) \<longrightarrow> \<not> cfg_auto_leave (tr_conf t))"

definition icm_keys :: "incr_change_map \<Rightarrow> u64 set" where
  "icm_keys prs = {i. icm_contains prs i}"

lemma set_incoming_fields [simp]:
  "jc_incoming (cfg_voters (set_incoming s cfg)) = s"
  "jc_outgoing (cfg_voters (set_incoming s cfg)) = jc_outgoing (cfg_voters cfg)"
  "cfg_learners (set_incoming s cfg) = cfg_learners cfg"
  "cfg_learners_next (set_incoming s cfg) = cfg_learners_next cfg"
  "cfg_auto_leave (set_incoming s cfg) = cfg_auto_leave cfg"
  by (simp_all add: set_incoming_def)

lemma set_outgoing_fields [simp]:
  "jc_incoming (cfg_voters (set_outgoing s cfg)) = jc_incoming (cfg_voters cfg)"
  "jc_outgoing (cfg_voters (set_outgoing s cfg)) = s"
  "cfg_learners (set_outgoing s cfg) = cfg_learners cfg"
  "cfg_learners_next (set_outgoing s cfg) = cfg_learners_next cfg"
  "cfg_auto_leave (set_outgoing s cfg) = cfg_auto_leave cfg"
  by (simp_all add: set_outgoing_def)

lemma icm_contains_push [simp]:
  "icm_contains (icm_push prs (i, ty)) j \<longleftrightarrow> (if j = i then ty = MapAdd else icm_contains prs j)"
  by (cases ty) (auto simp: icm_contains_def icm_push_def split: option.split map_change_type.split)

lemma icm_keys_push [simp]:
  "icm_keys (icm_push prs (i, MapAdd)) = insert i (icm_keys prs)"
  "icm_keys (icm_push prs (i, MapRemove)) = icm_keys prs - {i}"
  by (auto simp: icm_keys_def)

lemma icm_keys_start: "icm_keys \<lparr>icm_changes = [], icm_base = m\<rparr> = fst ` set m"
  by (auto simp: icm_keys_def icm_contains_def hmap_contains_iff)

lemma icm_contains_iff: "icm_contains prs i \<longleftrightarrow> i \<in> icm_keys prs"
  by (simp add: icm_keys_def)

lemma icm_base_push [simp]: "icm_base (icm_push prs ch) = icm_base prs"
  by (simp add: icm_push_def)

lemma keys_apply_change:
  "fst ` set (apply_change cap n (i, MapAdd) m) = insert i (fst ` set m)"
  "fst ` set (apply_change cap n (i, MapRemove) m) = fst ` set m - {i}"
proof -
  have "set (map fst (AList.delete i m)) = set (removeAll i (map fst m))" by (simp only: delete_keys)
  then show "fst ` set (apply_change cap n (i, MapRemove) m) = fst ` set m - {i}"
    by (simp add: apply_change_def)
qed (simp add: apply_change_def dom_update)

text \<open>Installing the logged changes gives a map with the keys the changer reasoned about.\<close>

lemma keys_apply_changes:
  "fst ` set (fold (apply_change cap n) ch m) = icm_keys \<lparr>icm_changes = ch, icm_base = m\<rparr>"
proof (induction ch rule: rev_induct)
  case Nil
  then show ?case by (simp add: icm_keys_start)
next
  case (snoc c ch)
  obtain i ty where c: "c = (i, ty)" by (cases c)
  have "\<lparr>icm_changes = ch @ [c], icm_base = m\<rparr> = icm_push \<lparr>icm_changes = ch, icm_base = m\<rparr> c"
    by (simp add: icm_push_def)
  with snoc c show ?case
    by (cases ty) (simp_all add: keys_apply_change)
qed

lemma wf_apply_changes: "hmap_wf m \<Longrightarrow> hmap_wf (fold (apply_change cap n) ch m)"
  by (induction ch arbitrary: m) (auto simp: apply_change_def split: map_change_type.splits)

section \<open>One change\<close>

text \<open>
  What one change does to a consistent configuration: it stays consistent, the outgoing half is
  untouched, and only the role of the named node changes.
\<close>

definition role_of :: "conf_change_type option \<Rightarrow> configuration \<Rightarrow> configuration \<Rightarrow> u64 \<Rightarrow> bool" where
  "role_of ty cfg cfg' i \<longleftrightarrow>
     (i \<in> inc cfg' \<longleftrightarrow> (case ty of None \<Rightarrow> i \<in> inc cfg | Some c \<Rightarrow> c = AddNode)) \<and>
     (i \<in> lrn cfg' \<longleftrightarrow> (case ty of None \<Rightarrow> i \<in> lrn cfg | Some c \<Rightarrow> c = AddLearnerNode \<and> i \<notin> out cfg)) \<and>
     (i \<in> nxt cfg' \<longleftrightarrow> (case ty of None \<Rightarrow> i \<in> nxt cfg | Some c \<Rightarrow> c = AddLearnerNode \<and> i \<in> out cfg))"

definition changed :: "conf_change_single \<Rightarrow> u64 \<Rightarrow> conf_change_type option" where
  "changed cc i = (if ccs_node_id cc = i \<and> i \<noteq> 0 then Some (ccs_change_type cc) else None)"

lemmas change_defs = make_voter_def make_learner_def remove_node_def init_progress_def Let_def
  conf_core_def conf_distinct_def

lemma make_voter_core:
  assumes "conf_core cfg (icm_keys prs)" and "make_voter cfg prs i = (cfg', prs')"
  shows "conf_core cfg' (icm_keys prs')"
  using assms by (auto simp: change_defs icm_contains_iff split: if_splits)

lemma make_learner_core:
  assumes "conf_core cfg (icm_keys prs)" and "make_learner cfg prs i = (cfg', prs')"
  shows "conf_core cfg' (icm_keys prs')"
  using assms by (auto simp: change_defs icm_contains_iff split: if_splits)

lemma remove_node_core:
  assumes "conf_core cfg (icm_keys prs)" and "remove_node cfg prs i = (cfg', prs')"
  shows "conf_core cfg' (icm_keys prs')"
  using assms by (auto simp: change_defs icm_contains_iff split: if_splits)

lemma apply_one_core:
  "conf_core cfg (icm_keys prs) \<Longrightarrow> apply_one cc (cfg, prs) = (cfg', prs') \<Longrightarrow> conf_core cfg' (icm_keys prs')"
  by (auto simp: apply_one_def split: if_splits conf_change_type.splits
      intro: make_voter_core make_learner_core remove_node_core)

lemma apply_one_frame:
  "apply_one cc (cfg, prs) = (cfg', prs') \<Longrightarrow>
     jc_outgoing (cfg_voters cfg') = jc_outgoing (cfg_voters cfg) \<and> cfg_auto_leave cfg' = cfg_auto_leave cfg
     \<and> icm_base prs' = icm_base prs"
  by (auto simp: apply_one_def change_defs split: if_splits conf_change_type.splits)

lemma apply_one_role:
  assumes "conf_core cfg (icm_keys prs)" and "apply_one cc (cfg, prs) = (cfg', prs')"
  shows "role_of (changed cc i) cfg cfg' i"
  using assms
  by (cases "ccs_change_type cc")
     (auto simp: apply_one_def change_defs icm_contains_iff role_of_def changed_def split: if_splits)


section \<open>Lists of changes\<close>

text \<open>The last change that names a node.\<close>

fun last_change :: "conf_change_single list \<Rightarrow> u64 \<Rightarrow> conf_change_type option" where
  "last_change [] i = None"
| "last_change (cc # ccs) i =
     (case last_change ccs i of None \<Rightarrow> changed cc i | Some ty \<Rightarrow> Some ty)"

lemma role_of_trans:
  "role_of a c0 c1 i \<Longrightarrow> role_of b c1 c2 i \<Longrightarrow> out c1 = out c0 \<Longrightarrow>
     role_of (case b of None \<Rightarrow> a | Some ty \<Rightarrow> Some ty) c0 c2 i"
  by (auto simp: role_of_def split: option.splits)

lemma fold_apply_one:
  assumes "conf_core cfg (icm_keys prs)" and "fold apply_one ccs (cfg, prs) = (cfg', prs')"
  shows "conf_core cfg' (icm_keys prs') \<and> role_of (last_change ccs i) cfg cfg' i
     \<and> jc_outgoing (cfg_voters cfg') = jc_outgoing (cfg_voters cfg)
     \<and> cfg_auto_leave cfg' = cfg_auto_leave cfg \<and> icm_base prs' = icm_base prs"
  using assms
proof (induction ccs arbitrary: cfg prs)
  case Nil
  then show ?case by (simp add: role_of_def)
next
  case (Cons cc ccs)
  obtain c p where one: "apply_one cc (cfg, prs) = (c, p)" by (cases "apply_one cc (cfg, prs)")
  have core: "conf_core c (icm_keys p)" by (rule apply_one_core [OF Cons.prems(1) one])
  have rest: "fold apply_one ccs (c, p) = (cfg', prs')" using Cons.prems(2) one by simp
  note ih = Cons.IH [OF core rest] and fr = apply_one_frame [OF one]
  have "role_of (last_change (cc # ccs) i) cfg cfg' i"
    using role_of_trans [OF apply_one_role [OF Cons.prems(1) one, of i], of "last_change ccs i" cfg'] ih fr
    by simp
  with ih fr show ?case by simp
qed

lemma first_error_None: "first_error f xs = None \<longleftrightarrow> (\<forall>x \<in> set xs. f x = None)"
  by (induction xs) (auto split: option.splits)

lemma check_invariants_ok:
  assumes "conf_core cfg (icm_keys prs)" and "\<not> joint cfg \<longrightarrow> \<not> cfg_auto_leave cfg"
  shows "check_invariants cfg prs = Inr ()"
proof -
  have "first_error (check_voter prs) (union_iter (joint_ids (cfg_voters cfg))) = None"
    using assms(1)
    by (auto simp: first_error_None check_voter_def joint_ids_def conf_core_def icm_contains_iff)
  moreover have "first_error (check_learner cfg prs) (cfg_learners cfg) = None"
    using assms(1) by (auto simp: first_error_None check_learner_def conf_core_def icm_contains_iff)
  moreover have "first_error (check_learner_next cfg prs) (cfg_learners_next cfg) = None"
    using assms(1) by (auto simp: first_error_None check_learner_next_def conf_core_def icm_contains_iff)
  moreover have "\<not> joint cfg \<longrightarrow> cfg_learners_next cfg = []"
    using assms(1) by (auto simp: joint_def conf_core_def)
  ultimately show ?thesis using assms(2) by (auto simp: check_invariants_def)
qed

lemma check_and_copy_ok:
  "tracker_inv t \<Longrightarrow> check_and_copy t = Inr (tr_conf t, \<lparr>icm_changes = [], icm_base = tr_progress t\<rparr>)"
  by (auto simp: check_and_copy_def Let_def tracker_inv_def check_invariants_ok icm_keys_start)

lemma apply_conf_inv:
  assumes "tracker_inv t" and "conf_core cfg (icm_keys prs)" and "icm_base prs = tr_progress t"
    and "\<not> joint cfg \<longrightarrow> \<not> cfg_auto_leave cfg"
  shows "tracker_inv (apply_conf t cfg (icm_changes prs) next_idx)"
proof -
  have "icm_keys \<lparr>icm_changes = icm_changes prs, icm_base = tr_progress t\<rparr> = icm_keys prs"
    using assms(3) by (cases prs) simp
  with assms show ?thesis
    by (simp add: tracker_inv_def apply_conf_def keys_apply_changes wf_apply_changes)
qed

text \<open>What the three operations do on a consistent tracker, errors included.\<close>

definition copy_of :: "progress_tracker \<Rightarrow> incr_change_map" where
  "copy_of t = \<lparr>icm_changes = [], icm_base = tr_progress t\<rparr>"

lemma copy_of_core: "tracker_inv t \<Longrightarrow> conf_core (tr_conf t) (icm_keys (copy_of t))"
  by (simp add: tracker_inv_def copy_of_def icm_keys_start)

lemma simple_eq:
  assumes "tracker_inv t" and "\<not> joint (tr_conf t)"
    and f: "fold apply_one ccs (tr_conf t, copy_of t) = (cfg, prs)"
  shows "simple t ccs =
    (if inc cfg = {} then Inl (ConfChangeError ''removed all voters'')
     else if symmetric_difference_count (jc_incoming (cfg_voters cfg)) (jc_incoming (cfg_voters (tr_conf t))) > 1
     then Inl (ConfChangeError ''more than one voter changed without entering joint config'')
     else Inr (cfg, icm_changes prs))"
proof -
  note r = fold_apply_one [OF copy_of_core [OF assms(1)] f]
  have "\<not> cfg_auto_leave cfg" using r assms(1,2) by (simp add: tracker_inv_def)
  then have "check_invariants cfg prs = Inr ()" using r by (intro check_invariants_ok) auto
  with assms check_and_copy_ok [OF assms(1)] show ?thesis
    by (simp add: simple_def apply_changes_def copy_of_def)
qed

definition joint_start :: "configuration \<Rightarrow> configuration" where
  "joint_start cfg = set_outgoing
     (hset_extend (jc_outgoing (cfg_voters cfg)) (jc_incoming (cfg_voters cfg))) cfg"

lemma joint_start_core:
  assumes "conf_core cfg K" and "\<not> joint cfg"
  shows "conf_core (joint_start cfg) K \<and> out (joint_start cfg) = inc cfg \<and> inc (joint_start cfg) = inc cfg"
  using assms by (auto simp: conf_core_def conf_distinct_def joint_start_def joint_def)

lemma enter_joint_eq:
  assumes "tracker_inv t" and "\<not> joint (tr_conf t)" and "inc (tr_conf t) \<noteq> {}"
    and f: "fold apply_one ccs (joint_start (tr_conf t), copy_of t) = (cfg, prs)"
  shows "enter_joint t al ccs =
    (if inc cfg = {} then Inl (ConfChangeError ''removed all voters'')
     else Inr (cfg\<lparr>cfg_auto_leave := al\<rparr>, icm_changes prs))"
proof -
  note s = joint_start_core [OF copy_of_core [OF assms(1)] assms(2)]
  have core: "conf_core (joint_start (tr_conf t)) (icm_keys (copy_of t))" using s by blast
  have r: "conf_core cfg (icm_keys prs)" "jc_outgoing (cfg_voters cfg) = jc_outgoing (cfg_voters (joint_start (tr_conf t)))"
    using fold_apply_one [OF core f] by blast+
  have "joint (cfg\<lparr>cfg_auto_leave := al\<rparr>)" using r(2) s assms(3) by (auto simp: joint_def)
  moreover have "conf_core (cfg\<lparr>cfg_auto_leave := al\<rparr>) (icm_keys prs)"
    using r(1) by (simp add: conf_core_def conf_distinct_def)
  ultimately have "check_invariants (cfg\<lparr>cfg_auto_leave := al\<rparr>) prs = Inr ()"
    by (intro check_invariants_ok) auto
  with assms check_and_copy_ok [OF assms(1)] show ?thesis
    by (simp add: enter_joint_def apply_changes_def copy_of_def joint_start_def [symmetric] Let_def)
qed


lemma fold_leave_one:
  "icm_keys (fold (leave_one cfg) ids prs) = icm_keys prs - (set ids - inc cfg - lrn cfg)
   \<and> icm_base (fold (leave_one cfg) ids prs) = icm_base prs"
  by (induction ids arbitrary: prs) (auto simp: leave_one_def)

definition left_joint :: "configuration \<Rightarrow> configuration" where
  "left_joint cfg =
     (set_outgoing [] (cfg\<lparr>cfg_learners := hset_extend (cfg_learners cfg) (cfg_learners_next cfg),
        cfg_learners_next := []\<rparr>))\<lparr>cfg_auto_leave := False\<rparr>"

lemma left_joint_core:
  assumes "conf_core cfg K"
  shows "conf_core (left_joint cfg) (K - (out cfg - inc cfg - (lrn cfg \<union> nxt cfg)))"
  using assms by (auto simp: conf_core_def conf_distinct_def left_joint_def)

lemma leave_joint_eq:
  assumes "tracker_inv t" and "joint (tr_conf t)"
  shows "\<exists>prs. leave_joint t = Inr (left_joint (tr_conf t), icm_changes prs)
     \<and> conf_core (left_joint (tr_conf t)) (icm_keys prs) \<and> icm_base prs = tr_progress t"
proof -
  let ?c = "(tr_conf t)\<lparr>cfg_learners := hset_extend (cfg_learners (tr_conf t)) (cfg_learners_next (tr_conf t)),
        cfg_learners_next := []\<rparr>"
  define prs where "prs = fold (leave_one ?c) (jc_outgoing (cfg_voters ?c)) (copy_of t)"
  have keys: "icm_keys prs = icm_keys (copy_of t) - (out ?c - inc ?c - lrn ?c)"
    and base: "icm_base prs = tr_progress t"
    using fold_leave_one [of ?c "jc_outgoing (cfg_voters ?c)" "copy_of t"]
    by (simp_all add: prs_def copy_of_def)
  then have core: "conf_core (left_joint (tr_conf t)) (icm_keys prs)"
    using left_joint_core [OF copy_of_core [OF assms(1)]] by simp
  moreover have "\<not> cfg_auto_leave (left_joint (tr_conf t))" by (simp add: left_joint_def)
  ultimately have "check_invariants (left_joint (tr_conf t)) prs = Inr ()"
    by (intro check_invariants_ok) auto
  with assms check_and_copy_ok [OF assms(1)] have "leave_joint t = Inr (left_joint (tr_conf t), icm_changes prs)"
    by (simp add: leave_joint_def copy_of_def [symmetric] joint_def Let_def left_joint_def prs_def)
  with core base show ?thesis by blast
qed

text \<open>The three operations keep the tracker consistent, with at least one voter.\<close>

lemma simple_inv:
  assumes "tracker_inv t" and "simple t ccs = Inr (cfg, ch)"
  shows "tracker_inv (apply_conf t cfg ch n)"
proof -
  obtain c p where f: "fold apply_one ccs (tr_conf t, copy_of t) = (c, p)"
    by (cases "fold apply_one ccs (tr_conf t, copy_of t)")
  have nj: "\<not> joint (tr_conf t)" using assms(2) by (auto simp: simple_def)
  have eq: "cfg = c" "ch = icm_changes p"
    using simple_eq [OF assms(1) nj f] assms(2) by (auto split: if_splits)
  note r = fold_apply_one [OF copy_of_core [OF assms(1)] f]
  have "\<not> cfg_auto_leave c" using r assms(1) nj by (simp add: tracker_inv_def)
  with r show ?thesis unfolding eq by (intro apply_conf_inv [OF assms(1)]) (auto simp: copy_of_def)
qed

lemma enter_joint_inv:
  assumes "tracker_inv t" and "enter_joint t al ccs = Inr (cfg, ch)"
  shows "tracker_inv (apply_conf t cfg ch n) \<and> out cfg = inc (tr_conf t) \<and> joint cfg"
proof -
  obtain c p where f: "fold apply_one ccs (joint_start (tr_conf t), copy_of t) = (c, p)"
    by (cases "fold apply_one ccs (joint_start (tr_conf t), copy_of t)")
  have nj: "\<not> joint (tr_conf t)" and ne: "inc (tr_conf t) \<noteq> {}"
    using assms(2) check_and_copy_ok [OF assms(1)] by (auto simp: enter_joint_def split: if_splits)
  have eq: "cfg = c\<lparr>cfg_auto_leave := al\<rparr>" "ch = icm_changes p"
    using enter_joint_eq [OF assms(1) nj ne f] assms(2) by (auto split: if_splits)
  note s = joint_start_core [OF copy_of_core [OF assms(1)] nj]
  then have r: "conf_core c (icm_keys p)" "out c = inc (tr_conf t)" "icm_base p = tr_progress t"
    using fold_apply_one [OF _ f] by (auto simp: copy_of_def)
  have j: "joint cfg" using r(2) ne eq by (auto simp: joint_def)
  moreover have "conf_core cfg (icm_keys p)" using r(1) eq by (simp add: conf_core_def conf_distinct_def)
  ultimately show ?thesis using r eq by (auto intro!: apply_conf_inv [OF assms(1)])
qed

lemma leave_joint_inv:
  assumes "tracker_inv t" and "leave_joint t = Inr (cfg, ch)"
  shows "tracker_inv (apply_conf t cfg ch n) \<and> cfg = left_joint (tr_conf t)"
proof -
  have "joint (tr_conf t)" using assms(2) by (auto simp: leave_joint_def split: if_splits)
  from leave_joint_eq [OF assms(1) this] assms(2) show ?thesis
    by (auto intro!: apply_conf_inv [OF assms(1)] simp: left_joint_def)
qed

text \<open>Two majorities of sets that differ in one element meet.\<close>

lemma sym_diff_card:
  assumes "distinct a" and "distinct b"
  shows "symmetric_difference_count a b = card (set a - set b) + card (set b - set a)"
proof -
  have "{x \<in> set a. x \<notin> set b} = set a - set b" "{x \<in> set b. x \<notin> set a} = set b - set a" by auto
  with assms show ?thesis by (simp add: symmetric_difference_count_def length_filter_le_of_subset)
qed

lemma majorities_meet_off_by_one:
  assumes d: "distinct a" "distinct b" and s: "symmetric_difference_count a b \<le> 1"
    and P: "majority (length a) \<le> length (filter P a)" and Q: "majority (length b) \<le> length (filter Q b)"
  shows "\<exists>v. P v \<and> Q v"
proof (rule ccontr)
  assume no: "\<not> ?thesis"
  let ?p = "{v \<in> set a. P v}" and ?q = "{v \<in> set b. Q v}"
  have "card ?p + card ?q = card (?p \<union> ?q)" using no by (intro card_Un_disjoint [symmetric]) auto
  also have "\<dots> \<le> card (set a \<union> set b)" by (intro card_mono) auto
  finally have u: "card ?p + card ?q \<le> card (set a \<union> set b)" .
  have c: "card (set a \<union> set b) = card (set a) + card (set b - set a)"
    "card (set a \<union> set b) = card (set b) + card (set a - set b)"
    by (metis Un_Diff_cancel card_Un_disjoint Diff_disjoint List.finite_set finite_Diff)
       (metis Un_Diff_cancel Un_commute card_Un_disjoint Diff_disjoint List.finite_set finite_Diff)
  have "2 * majority (card (set a)) > card (set a)" "2 * majority (card (set b)) > card (set b)"
    by (rule majority_overlap)+
  with u c P Q s d show False
    by (simp add: sym_diff_card length_filter_le_of_subset distinct_card [symmetric] majority_def)
qed


section \<open>Restoring\<close>

text \<open>Adding one node to a configuration that is not joint.\<close>

lemma simple_add:
  assumes "tracker_inv t" and "\<not> joint (tr_conf t)" and "i \<noteq> 0" and "i \<notin> inc (tr_conf t) \<union> lrn (tr_conf t)"
    and "ty = AddNode \<or> (ty = AddLearnerNode \<and> inc (tr_conf t) \<noteq> {})"
  shows "\<exists>cfg ch. simple t [new_conf_change_single i ty] = Inr (cfg, ch) \<and> \<not> joint cfg
     \<and> inc cfg = (if ty = AddNode then {i} else {}) \<union> inc (tr_conf t)
     \<and> lrn cfg = (if ty = AddNode then {} else {i}) \<union> lrn (tr_conf t)"
proof -
  let ?cc = "new_conf_change_single i ty"
  obtain c p where f: "fold apply_one [?cc] (tr_conf t, copy_of t) = (c, p)"
    by (cases "fold apply_one [?cc] (tr_conf t, copy_of t)")
  have core: "conf_core (tr_conf t) (icm_keys (copy_of t))" by (rule copy_of_core [OF assms(1)])
  have role: "role_of (last_change [?cc] j) (tr_conf t) c j"
    and r: "conf_core c (icm_keys p)" "jc_outgoing (cfg_voters c) = jc_outgoing (cfg_voters (tr_conf t))" for j
    using fold_apply_one [OF core f] by blast+
  have out0: "out (tr_conf t) = {}" using assms(2) by (simp add: joint_def)
  have i: "i \<in> inc c \<longleftrightarrow> ty = AddNode" "i \<in> lrn c \<longleftrightarrow> ty = AddLearnerNode"
    using role [of i] assms(3) out0 by (simp_all add: role_of_def changed_def new_conf_change_single_def)
  have j: "j \<in> inc c \<longleftrightarrow> j \<in> inc (tr_conf t)" "j \<in> lrn c \<longleftrightarrow> j \<in> lrn (tr_conf t)" if "j \<noteq> i" for j
    using role [of j] that by (simp_all add: role_of_def changed_def new_conf_change_single_def)
  have sets: "inc c = (if ty = AddNode then {i} else {}) \<union> inc (tr_conf t)"
  proof (rule set_eqI)
    fix x show "x \<in> inc c \<longleftrightarrow> x \<in> (if ty = AddNode then {i} else {}) \<union> inc (tr_conf t)"
      using i(1) j(1) [of x] assms(4) by (cases "x = i") auto
  qed
  have lsets: "lrn c = (if ty = AddNode then {} else {i}) \<union> lrn (tr_conf t)"
  proof (rule set_eqI)
    fix x show "x \<in> lrn c \<longleftrightarrow> x \<in> (if ty = AddNode then {} else {i}) \<union> lrn (tr_conf t)"
      using i(2) j(2) [of x] assms(4,5) by (cases "x = i") auto
  qed
  have "symmetric_difference_count (jc_incoming (cfg_voters c)) (jc_incoming (cfg_voters (tr_conf t))) \<le> 1"
  proof -
    have "inc c - inc (tr_conf t) \<subseteq> {i}" "inc (tr_conf t) - inc c = {}" using sets by auto
    then have "card (inc c - inc (tr_conf t)) \<le> 1" "card (inc (tr_conf t) - inc c) = 0"
      by (auto dest: subset_singletonD)
    moreover have "distinct (jc_incoming (cfg_voters c))" "distinct (jc_incoming (cfg_voters (tr_conf t)))"
      using r(1) core by (auto simp: conf_core_def conf_distinct_def)
    ultimately show ?thesis by (simp only: sym_diff_card add_0_right)
  qed
  moreover have "inc c \<noteq> {}" using sets assms(5) by auto
  ultimately have "simple t [?cc] = Inr (c, icm_changes p)" using simple_eq [OF assms(1,2) f] by simp
  moreover have "\<not> joint c" using r(2) assms(2) by (simp add: joint_def)
  ultimately show ?thesis using sets lsets by blast
qed

lemma restore_simple_append:
  "restore_simple n (xs @ ys) t =
     (case restore_simple n xs t of (t', Inl e) \<Rightarrow> (t', Inl e) | (t', Inr _) \<Rightarrow> restore_simple n ys t')"
  by (induction xs arbitrary: t) (auto split: sum.splits prod.splits)

lemma restore_simple_adds:
  assumes "tracker_inv t" and "\<not> joint (tr_conf t)" and "distinct ids" and "0 \<notin> set ids"
    and "set ids \<inter> (inc (tr_conf t) \<union> lrn (tr_conf t)) = {}"
    and "ty = AddNode \<or> (ty = AddLearnerNode \<and> inc (tr_conf t) \<noteq> {})"
  shows "\<exists>t'. restore_simple n (map (\<lambda>i. new_conf_change_single i ty) ids) t = (t', Inr ())
     \<and> tracker_inv t' \<and> \<not> joint (tr_conf t')
     \<and> inc (tr_conf t') = (if ty = AddNode then set ids else {}) \<union> inc (tr_conf t)
     \<and> lrn (tr_conf t') = (if ty = AddNode then {} else set ids) \<union> lrn (tr_conf t)"
  using assms
proof (induction ids arbitrary: t)
  case Nil
  then show ?case by auto
next
  case (Cons i ids)
  obtain cfg ch where one: "simple t [new_conf_change_single i ty] = Inr (cfg, ch)" "\<not> joint cfg"
    "inc cfg = (if ty = AddNode then {i} else {}) \<union> inc (tr_conf t)"
    "lrn cfg = (if ty = AddNode then {} else {i}) \<union> lrn (tr_conf t)"
    using simple_add [of t i ty] Cons.prems by auto
  let ?u = "apply_conf t cfg ch n"
  have u: "tracker_inv ?u" "tr_conf ?u = cfg"
    using simple_inv [OF Cons.prems(1) one(1)] by (simp_all add: apply_conf_def)
  have "\<exists>t'. restore_simple n (map (\<lambda>i. new_conf_change_single i ty) ids) ?u = (t', Inr ())
     \<and> tracker_inv t' \<and> \<not> joint (tr_conf t')
     \<and> inc (tr_conf t') = (if ty = AddNode then set ids else {}) \<union> inc (tr_conf ?u)
     \<and> lrn (tr_conf t') = (if ty = AddNode then {} else set ids) \<union> lrn (tr_conf ?u)"
    using Cons.prems(2-6) one u by (intro Cons.IH) (auto split: if_splits)
  with one u show ?case by (auto split: if_splits)
qed


lemma last_change_append:
  "last_change (xs @ ys) i = (case last_change ys i of None \<Rightarrow> last_change xs i | Some ty \<Rightarrow> Some ty)"
  by (induction xs) (auto split: option.splits)

lemma last_change_all:
  "last_change (map (\<lambda>i. new_conf_change_single i ty) ids) j = (if j \<in> set ids \<and> j \<noteq> 0 then Some ty else None)"
  by (induction ids) (auto simp: changed_def new_conf_change_single_def)

definition conf_of_state :: "conf_state \<Rightarrow> configuration \<Rightarrow> bool" where
  "conf_of_state cs cfg \<longleftrightarrow>
     inc cfg = set (cs_voters cs) \<and> out cfg = set (cs_voters_outgoing cs) \<and> lrn cfg = set (cs_learners cs)
     \<and> nxt cfg = set (cs_learners_next cs) \<and> cfg_auto_leave cfg = cs_auto_leave cs"

lemma restored_roles:
  fixes cs :: conf_state
  defines "ccs \<equiv> snd (to_conf_change_single cs)"
  assumes core: "conf_core c0 K" "\<not> joint c0"
    and c0: "inc c0 = set (cs_voters_outgoing cs)" "lrn c0 = {}"
    and cs: "conf_core cfg K'" "to_conf_state cfg = cs" "0 \<notin> K'"
    and role: "\<And>j. role_of (last_change ccs j) (joint_start c0) c j"
  shows "inc c = inc cfg \<and> lrn c = lrn cfg \<and> nxt c = nxt cfg"
proof -
  have st: "out (joint_start c0) = out cfg" "inc (joint_start c0) = out cfg"
    "lrn (joint_start c0) = {}" "nxt (joint_start c0) = {}"
  proof -
    have o: "cs_voters_outgoing cs = jc_outgoing (cfg_voters cfg)"
      unfolding cs(2) [symmetric] by (simp add: to_conf_state_def)
    show "out (joint_start c0) = out cfg" "inc (joint_start c0) = out cfg"
      using joint_start_core [OF core] unfolding c0 o by simp_all
    show "lrn (joint_start c0) = {}" using c0(2) by (simp add: joint_start_def)
    have "nxt c0 \<subseteq> out c0" "out c0 = {}" using core by (simp_all add: conf_core_def joint_def)
    then show "nxt (joint_start c0) = {}" by (simp add: joint_start_def)
  qed
  have K: "K' = inc cfg \<union> out cfg \<union> lrn cfg" "nxt cfg \<subseteq> out cfg" using cs(1) by (simp_all add: conf_core_def)
  have nz: "0 \<notin> inc cfg" "0 \<notin> out cfg" "0 \<notin> lrn cfg" "0 \<notin> nxt cfg" using K cs(3) by auto
  have last: "last_change ccs j =
      (if j \<in> nxt cfg \<or> j \<in> lrn cfg then Some AddLearnerNode else if j \<in> inc cfg then Some AddNode
       else if j \<in> out cfg then Some RemoveNode else None)" for j
    using nz by (cases "j = 0") (simp_all add: ccs_def to_conf_change_single_def to_conf_state_def
        last_change_append last_change_all cs(2) [symmetric])
  have one: "(j \<in> inc c \<longleftrightarrow> j \<in> inc cfg) \<and> (j \<in> lrn c \<longleftrightarrow> j \<in> lrn cfg) \<and> (j \<in> nxt c \<longleftrightarrow> j \<in> nxt cfg)" for j
  proof -
    have "j \<in> lrn cfg \<Longrightarrow> j \<notin> inc cfg \<and> j \<notin> out cfg" "j \<in> nxt cfg \<Longrightarrow> j \<in> out cfg \<and> j \<notin> inc cfg"
      using cs(1) by (auto simp: conf_core_def)
    with role [of j] show ?thesis by (simp add: role_of_def st last split: if_splits) blast
  qed
  show ?thesis using one by (simp add: set_eq_iff)
qed

lemma tracker_new_inv: "tracker_inv (tracker_new cap)"
  by (auto simp: tracker_inv_def tracker_new_def configuration_empty_def conf_core_def conf_distinct_def)

lemma restore_conf_returns:
  assumes core: "conf_core cfg K" and "0 \<notin> K" and "inc cfg \<noteq> {}" and "\<not> joint cfg \<longrightarrow> \<not> cfg_auto_leave cfg"
    and cs: "cs = to_conf_state cfg"
    and t: "tracker_inv t" "inc (tr_conf t) = {}" "out (tr_conf t) = {}" "lrn (tr_conf t) = {}"
  shows "\<exists>t'. restore_conf t n cs = (t', Inr ()) \<and> tracker_inv t' \<and> conf_of_state cs (tr_conf t')"
proof (cases "joint cfg")
  case False
  have d: "distinct (cs_voters cs)" "distinct (cs_learners cs)" "0 \<notin> set (cs_voters cs)" "0 \<notin> set (cs_learners cs)"
    "set (cs_learners cs) \<inter> set (cs_voters cs) = {}" "cs_voters cs \<noteq> []" "cs_voters_outgoing cs = []"
    "cs_learners_next cs = []" "\<not> cs_auto_leave cs"
    using core assms(2-4) cs False by (auto simp: to_conf_state_def conf_core_def conf_distinct_def joint_def)
  have nj: "\<not> joint (tr_conf t)" using t by (simp add: joint_def)
  obtain t1 where t1: "restore_simple n (map (\<lambda>i. new_conf_change_single i AddNode) (cs_voters cs)) t = (t1, Inr ())"
    "tracker_inv t1" "\<not> joint (tr_conf t1)" "inc (tr_conf t1) = set (cs_voters cs)" "lrn (tr_conf t1) = {}"
    using restore_simple_adds [OF t(1) nj d(1,3), of AddNode n] t by auto
  obtain t2 where t2: "restore_simple n (map (\<lambda>i. new_conf_change_single i AddLearnerNode) (cs_learners cs)) t1 = (t2, Inr ())"
    "tracker_inv t2" "\<not> joint (tr_conf t2)" "inc (tr_conf t2) = set (cs_voters cs)" "lrn (tr_conf t2) = set (cs_learners cs)"
    using restore_simple_adds [OF t1(2,3) d(2,4), of AddLearnerNode n] t1 d by auto
  have "restore_conf t n cs = (t2, Inr ())"
    using t1(1) t2(1) d by (simp add: restore_conf_def to_conf_change_single_def restore_simple_append)
  moreover have "conf_of_state cs (tr_conf t2)"
    using t2 d by (auto simp: conf_of_state_def tracker_inv_def conf_core_def joint_def)
  ultimately show ?thesis using t2(2) by blast
next
  case True
  have d: "distinct (cs_voters_outgoing cs)" "0 \<notin> set (cs_voters_outgoing cs)" "cs_voters_outgoing cs \<noteq> []"
    using core assms(2) cs True by (auto simp: to_conf_state_def conf_core_def conf_distinct_def joint_def)
  have nj: "\<not> joint (tr_conf t)" using t by (simp add: joint_def)
  obtain t1 where t1: "restore_simple n (map (\<lambda>i. new_conf_change_single i AddNode) (cs_voters_outgoing cs)) t = (t1, Inr ())"
    "tracker_inv t1" "\<not> joint (tr_conf t1)" "inc (tr_conf t1) = set (cs_voters_outgoing cs)" "lrn (tr_conf t1) = {}"
    using restore_simple_adds [OF t(1) nj d(1,2), of AddNode n] t by auto
  let ?ccs = "snd (to_conf_change_single cs)"
  obtain c p where f: "fold apply_one ?ccs (joint_start (tr_conf t1), copy_of t1) = (c, p)"
    by (cases "fold apply_one ?ccs (joint_start (tr_conf t1), copy_of t1)")
  note s = joint_start_core [OF copy_of_core [OF t1(2)] t1(3)]
  have role: "role_of (last_change ?ccs j) (joint_start (tr_conf t1)) c j" for j
    using fold_apply_one [OF _ f] s by blast
  have roles: "inc c = inc cfg" "lrn c = lrn cfg" "nxt c = nxt cfg"
    using restored_roles [OF copy_of_core [OF t1(2)] t1(3-5) core cs [symmetric] assms(2) role] by auto
  have ne: "inc (tr_conf t1) \<noteq> {}" using t1(4) d by simp
  have e: "enter_joint t1 (cs_auto_leave cs) ?ccs = Inr (c\<lparr>cfg_auto_leave := cs_auto_leave cs\<rparr>, icm_changes p)"
    using enter_joint_eq [OF t1(2,3) ne f] roles(1) assms(3) by simp
  have "restore_conf t n cs
      = (apply_conf t1 (c\<lparr>cfg_auto_leave := cs_auto_leave cs\<rparr>) (icm_changes p) n, Inr ())"
    using t1(1) e d by (simp add: restore_conf_def to_conf_change_single_def Let_def)
  moreover have "conf_of_state cs (c\<lparr>cfg_auto_leave := cs_auto_leave cs\<rparr>)"
    using roles cs enter_joint_inv [OF t1(2) e] t1(4) by (simp add: conf_of_state_def to_conf_state_def)
  ultimately show ?thesis using enter_joint_inv [OF t1(2) e, of n] by (auto simp: apply_conf_def)
qed


section \<open>Properties\<close>

text \<open>The membership changes a node applies, and the trackers they lead to.\<close>

inductive conf_step :: "progress_tracker \<Rightarrow> progress_tracker \<Rightarrow> bool" where
  simple: "simple t ccs = Inr (cfg, ch) \<Longrightarrow> conf_step t (apply_conf t cfg ch n)"
| enter: "enter_joint t al ccs = Inr (cfg, ch) \<Longrightarrow> conf_step t (apply_conf t cfg ch n)"
| leave: "leave_joint t = Inr (cfg, ch) \<Longrightarrow> conf_step t (apply_conf t cfg ch n)"

inductive conf_reachable :: "usize \<Rightarrow> progress_tracker \<Rightarrow> bool" for cap where
  start: "conf_reachable cap (tracker_new cap)"
| step: "conf_reachable cap t \<Longrightarrow> conf_step t t' \<Longrightarrow> conf_reachable cap t'"

lemma conf_step_inv: "conf_step t t' \<Longrightarrow> tracker_inv t \<Longrightarrow> tracker_inv t'"
  by (induction rule: conf_step.induct) (auto dest: simple_inv enter_joint_inv leave_joint_inv)

lemma conf_reachable_inv: "conf_reachable cap t \<Longrightarrow> tracker_inv t"
  by (induction rule: conf_reachable.induct) (auto intro: tracker_new_inv conf_step_inv)

text \<open>
  (C23) Every tracker that membership changes lead to is consistent: it has a progress for exactly
  the members, no node is both learner and voter, staged learners are outgoing voters only, and
  nothing is staged and nothing left automatically outside a joint configuration.
\<close>

theorem conf_reachable_consistent:
  assumes "conf_reachable cap t"
  shows "(tracker_get t i \<noteq> None \<longleftrightarrow>
            joint_contains (cfg_voters (tr_conf t)) i \<or> i \<in> set (cfg_learners (tr_conf t)))
     \<and> \<not> (joint_contains (cfg_voters (tr_conf t)) i \<and> i \<in> set (cfg_learners (tr_conf t)))
     \<and> (i \<in> set (cfg_learners_next (tr_conf t)) \<longrightarrow>
           i \<in> set (jc_outgoing (cfg_voters (tr_conf t))) \<and> i \<notin> set (jc_incoming (cfg_voters (tr_conf t))))
     \<and> (\<not> joint (tr_conf t) \<longrightarrow> cfg_learners_next (tr_conf t) = [] \<and> \<not> cfg_auto_leave (tr_conf t))"
proof -
  have inv: "tracker_inv t" by (rule conf_reachable_inv [OF assms])
  then have "tracker_get t i \<noteq> None \<longleftrightarrow> i \<in> inc (tr_conf t) \<union> out (tr_conf t) \<union> lrn (tr_conf t)"
    by (simp add: tracker_inv_def tracker_get_def conf_core_def map_of_eq_None_iff)
  with inv show ?thesis by (auto simp: tracker_inv_def conf_core_def joint_contains_def joint_def)
qed

lemma conf_reachable_consistent_witness:
  "\<exists>t. conf_reachable 8 t \<and> joint_contains (cfg_voters (tr_conf t)) 1 \<and> tracker_get t 1 \<noteq> None"
proof -
  obtain cfg ch where s: "simple (tracker_new 8) [new_conf_change_single 1 AddNode] = Inr (cfg, ch)"
    "inc cfg = {1}"
    using simple_add [OF tracker_new_inv [of 8], of 1 AddNode]
    by (auto simp: tracker_new_def configuration_empty_def joint_def)
  let ?t = "apply_conf (tracker_new 8) cfg ch 1"
  have r: "conf_reachable 8 ?t"
    by (rule conf_reachable.step [OF conf_reachable.start conf_step.simple [OF s(1)]])
  have "joint_contains (cfg_voters (tr_conf ?t)) 1" using s(2) by (simp add: apply_conf_def joint_contains_def)
  with r conf_reachable_consistent [OF r, of 1] show ?thesis by blast
qed

text \<open>
  (C28) A list of changes acts as the last change that names each node: an accepted simple change
  makes a voter of a node last added, a learner of a node last added as learner, and drops one last
  removed; nodes that are not named keep their role, and a change with node id 0 does nothing.
\<close>

theorem simple_last_change_wins:
  assumes "conf_reachable cap t" and "simple t ccs = Inr (cfg, ch)"
  shows "(i \<in> set (jc_incoming (cfg_voters cfg)) \<longleftrightarrow>
           (case last_change ccs i of None \<Rightarrow> i \<in> set (jc_incoming (cfg_voters (tr_conf t)))
            | Some ty \<Rightarrow> ty = AddNode)) \<and>
         (i \<in> set (cfg_learners cfg) \<longleftrightarrow>
           (case last_change ccs i of None \<Rightarrow> i \<in> set (cfg_learners (tr_conf t))
            | Some ty \<Rightarrow> ty = AddLearnerNode))"
proof -
  have inv: "tracker_inv t" by (rule conf_reachable_inv [OF assms(1)])
  obtain c p where f: "fold apply_one ccs (tr_conf t, copy_of t) = (c, p)"
    by (cases "fold apply_one ccs (tr_conf t, copy_of t)")
  have nj: "\<not> joint (tr_conf t)" using assms(2) by (auto simp: simple_def)
  have "cfg = c" using simple_eq [OF inv nj f] assms(2) by (auto split: if_splits)
  moreover have "role_of (last_change ccs i) (tr_conf t) c i"
    using fold_apply_one [OF copy_of_core [OF inv] f] by blast
  ultimately show ?thesis using nj by (simp add: role_of_def joint_def split: option.splits)
qed

lemma simple_last_change_wins_witness:
  "\<exists>cfg ch. simple (tracker_new 8) [new_conf_change_single 1 AddNode] = Inr (cfg, ch)
     \<and> 1 \<in> set (jc_incoming (cfg_voters cfg))"
proof -
  obtain cfg ch where s: "simple (tracker_new 8) [new_conf_change_single 1 AddNode] = Inr (cfg, ch)"
    using simple_add [OF tracker_new_inv [of 8], of 1 AddNode]
    by (auto simp: tracker_new_def configuration_empty_def joint_def)
  from simple_last_change_wins [OF conf_reachable.start s, of 1] s show ?thesis
    by (auto simp: changed_def new_conf_change_single_def)
qed

lemma nonempty_of_set: "set xs = insert x A \<Longrightarrow> xs \<noteq> []"
  by auto

lemma won_incoming:
  "joint_vote_result (cfg_voters cfg) f = Won \<Longrightarrow> inc cfg \<noteq> {} \<Longrightarrow>
     majority (length (jc_incoming (cfg_voters cfg)))
       \<le> length (filter (\<lambda>v. f v = Some True) (jc_incoming (cfg_voters cfg)))"
  by (auto simp: joint_Won vote_result_Won yes_count_def)

lemma won_outgoing:
  "joint_vote_result (cfg_voters cfg) f = Won \<Longrightarrow> out cfg \<noteq> {} \<Longrightarrow>
     majority (length (jc_outgoing (cfg_voters cfg)))
       \<le> length (filter (\<lambda>v. f v = Some True) (jc_outgoing (cfg_voters cfg)))"
  by (auto simp: joint_Won vote_result_Won yes_count_def)

lemma tracker_inv_distinct:
  "tracker_inv t \<Longrightarrow> distinct (jc_incoming (cfg_voters (tr_conf t))) \<and> distinct (jc_outgoing (cfg_voters (tr_conf t)))"
  by (simp add: tracker_inv_def conf_core_def conf_distinct_def)

lemma simple_one_voter:
  assumes "tracker_inv t" and "simple t ccs = Inr (cfg, ch)"
  shows "inc cfg \<noteq> {} \<and>
    symmetric_difference_count (jc_incoming (cfg_voters (tr_conf t))) (jc_incoming (cfg_voters cfg)) \<le> 1"
proof -
  obtain c p where f: "fold apply_one ccs (tr_conf t, copy_of t) = (c, p)"
    by (cases "fold apply_one ccs (tr_conf t, copy_of t)")
  have nj: "\<not> joint (tr_conf t)" using assms(2) by (auto simp: simple_def)
  show ?thesis using simple_eq [OF assms(1) nj f] assms(2)
    by (auto simp: symmetric_difference_count_def split: if_splits)
qed

text \<open>
  (C20) Quorums before and after a membership change always share a node: votes won in the old and
  in the new configuration were both granted by some common voter, for simple changes, for
  entering and for leaving a joint configuration.
\<close>

theorem conf_step_quorums_meet:
  assumes "conf_reachable cap t" and "conf_step t t'"
    and "jc_incoming (cfg_voters (tr_conf t)) \<noteq> []"
    and f: "joint_vote_result (cfg_voters (tr_conf t)) f = Won"
    and g: "joint_vote_result (cfg_voters (tr_conf t')) g = Won"
  shows "\<exists>v. f v = Some True \<and> g v = Some True"
proof -
  have inv: "tracker_inv t" by (rule conf_reachable_inv [OF assms(1)])
  note d = tracker_inv_distinct [OF inv] tracker_inv_distinct [OF conf_step_inv [OF assms(2) inv]]
  have ne: "inc (tr_conf t) \<noteq> {}" using assms(3) by simp
  note old = won_incoming [OF f ne]
  from assms(2) show ?thesis
  proof cases
    case (simple ccs cfg ch n)
    have s: "inc (tr_conf t') \<noteq> {}" "symmetric_difference_count (jc_incoming (cfg_voters (tr_conf t)))
        (jc_incoming (cfg_voters (tr_conf t'))) \<le> 1"
      using simple_one_voter [OF inv simple(2)] simple(1) by (simp_all add: apply_conf_def)
    show ?thesis by (rule majorities_meet_off_by_one [OF _ _ s(2) old won_incoming [OF g s(1)]]) (use d in auto)
  next
    case (enter al ccs cfg ch n)
    have o: "out (tr_conf t') = inc (tr_conf t)"
      using enter_joint_inv [OF inv enter(2)] enter(1) by (simp add: apply_conf_def)
    then have "symmetric_difference_count (jc_incoming (cfg_voters (tr_conf t)))
        (jc_outgoing (cfg_voters (tr_conf t'))) \<le> 1"
      using d by (simp add: sym_diff_card)
    from majorities_meet_off_by_one [OF _ _ this old won_outgoing [OF g]] o ne d show ?thesis by auto
  next
    case (leave cfg ch n)
    have "jc_incoming (cfg_voters (tr_conf t')) = jc_incoming (cfg_voters (tr_conf t))"
      using leave_joint_inv [OF inv leave(2)] leave(1) by (simp add: apply_conf_def left_joint_def)
    with two_majorities_meet [OF old, of "\<lambda>v. g v = Some True"] won_incoming [OF g] ne show ?thesis by auto
  qed
qed

lemma conf_step_quorums_meet_witness:
  "\<exists>t t'. conf_reachable 8 t \<and> conf_step t t' \<and>
     (\<exists>v. yes_from {1} v = Some True \<and> yes_from {1, 2} v = Some True)"
proof -
  obtain cfg ch where s: "simple (tracker_new 8) [new_conf_change_single 1 AddNode] = Inr (cfg, ch)"
    "inc cfg = {1}" "\<not> joint cfg" "lrn cfg = {}"
    using simple_add [OF tracker_new_inv [of 8], of 1 AddNode]
    by (auto simp: tracker_new_def configuration_empty_def joint_def)
  let ?t = "apply_conf (tracker_new 8) cfg ch 1"
  have r: "conf_reachable 8 ?t" by (rule conf_reachable.step [OF conf_reachable.start conf_step.simple [OF s(1)]])
  have inv: "tracker_inv ?t" by (rule conf_reachable_inv [OF r])
  obtain cfg2 ch2 where s2: "simple ?t [new_conf_change_single 2 AddNode] = Inr (cfg2, ch2)" "inc cfg2 = {1, 2}" "\<not> joint cfg2"
    using simple_add [OF inv, of 2 AddNode] s(2-4) by (auto simp: apply_conf_def insert_commute [of 2])
  let ?u = "apply_conf ?t cfg2 ch2 1"
  have st: "conf_step ?t ?u" by (rule conf_step.simple [OF s2(1)])
  have w: "joint_vote_result (cfg_voters c) (yes_from (inc c)) = Won" if "\<not> joint c" for c
    using that majority_votes.quorums.quorum_all [of "jc_incoming (cfg_voters c)"]
    by (simp add: joint_Won joint_def majority_vote_result_def [of "[]"])
  have tc: "tr_conf ?t = cfg" "tr_conf ?u = cfg2" by (simp_all add: apply_conf_def)
  have won: "joint_vote_result (cfg_voters (tr_conf ?t)) (yes_from {1}) = Won"
    "joint_vote_result (cfg_voters (tr_conf ?u)) (yes_from {1, 2}) = Won"
    using w [OF s(3)] w [OF s2(3)] by (simp_all only: tc s(2) s2(2))
  have ne: "jc_incoming (cfg_voters (tr_conf ?t)) \<noteq> []" unfolding tc by (rule nonempty_of_set [OF s(2)])
  show ?thesis
    by (rule exI [of _ ?t], rule exI [of _ ?u])
       (intro conjI r st conf_step_quorums_meet [OF r st ne won])
qed

text \<open>
  (C22) Restoring an empty tracker from the \<open>ConfState\<close> of a configuration succeeds and gives the
  same \<open>ConfState\<close> back, up to the order of its lists: no member, role or flag is lost, also in the
  middle of a joint change.
\<close>

theorem restore_to_conf_state:
  assumes "conf_reachable cap t" and "jc_incoming (cfg_voters (tr_conf t)) \<noteq> []" and "tracker_get t 0 = None"
  shows "\<exists>t'. restore_conf (tracker_new n) next_idx (to_conf_state (tr_conf t)) = (t', Inr ())
     \<and> conf_state_eq (to_conf_state (tr_conf t')) (to_conf_state (tr_conf t))"
proof -
  have inv: "tracker_inv t" by (rule conf_reachable_inv [OF assms(1)])
  then have core: "conf_core (tr_conf t) (fst ` set (tr_progress t))" by (simp add: tracker_inv_def)
  have z: "0 \<notin> fst ` set (tr_progress t)" using assms(3) by (simp add: tracker_get_def map_of_eq_None_iff)
  have e: "inc (tr_conf (tracker_new n)) = {}" "out (tr_conf (tracker_new n)) = {}" "lrn (tr_conf (tracker_new n)) = {}"
    by (simp_all add: tracker_new_def configuration_empty_def)
  obtain t' where "restore_conf (tracker_new n) next_idx (to_conf_state (tr_conf t)) = (t', Inr ())"
    "conf_of_state (to_conf_state (tr_conf t)) (tr_conf t')"
    using restore_conf_returns [OF core z _ _ refl tracker_new_inv e] assms(2) inv
    by (auto simp: tracker_inv_def)
  moreover from this have "conf_state_eq (to_conf_state (tr_conf t')) (to_conf_state (tr_conf t))"
    by (simp add: conf_state_eq_def conf_of_state_def to_conf_state_def eq_without_order_iff)
  ultimately show ?thesis by blast
qed

lemma restore_to_conf_state_witness:
  "\<exists>t t'. conf_reachable 8 t \<and> cs_voters (to_conf_state (tr_conf t)) \<noteq> []
     \<and> restore_conf (tracker_new 8) 1 (to_conf_state (tr_conf t)) = (t', Inr ())"
proof -
  obtain cfg ch where s: "simple (tracker_new 8) [new_conf_change_single 1 AddNode] = Inr (cfg, ch)"
    "inc cfg = {1}" "\<not> joint cfg" "lrn cfg = {}"
    using simple_add [OF tracker_new_inv [of 8], of 1 AddNode]
    by (auto simp: tracker_new_def configuration_empty_def joint_def)
  let ?t = "apply_conf (tracker_new 8) cfg ch 1"
  have r: "conf_reachable 8 ?t" by (rule conf_reachable.step [OF conf_reachable.start conf_step.simple [OF s(1)]])
  then have "fst ` set (tr_progress ?t) = {1}"
    using conf_reachable_inv [OF r] s by (simp add: tracker_inv_def conf_core_def apply_conf_def joint_def)
  then have "tracker_get ?t 0 = None" by (simp add: tracker_get_def map_of_eq_None_iff)
  moreover have "jc_incoming (cfg_voters (tr_conf ?t)) \<noteq> []"
    using nonempty_of_set [OF s(2)] by (simp add: apply_conf_def)
  ultimately show ?thesis
    using restore_to_conf_state [OF r, of 8 1] r by (auto simp: to_conf_state_def)
qed

end
