(* ===== verification/Read_Only.thy ===== *)
theory Read_Only
  imports Config
begin

text \<open>
  \<open>src/read_only.rs\<close>: the queue of linearizable read requests a leader waits to confirm. A request
  is keyed by its context; the map holds the request and who acknowledged it, the queue the order
  of arrival. A \<open>VecDeque\<close> is a list, its front first.

  \<open>read_only_inv\<close> says that queue and map hold the same keys, each once; it is what keeps
  \<open>advance\<close> from panicking.
\<close>

section \<open>State and operations\<close>

record read_state =
  rs_index :: u64
  rs_request_ctx :: bytes

record read_index_status =
  ri_req :: message
  ri_index :: u64
  ri_acks :: "u64 hset"

record read_only =
  ro_option :: read_only_option
  ro_pending_read_index :: "(bytes, read_index_status) hmap"
  ro_read_index_queue :: "bytes list"

definition read_only_new :: "read_only_option \<Rightarrow> read_only" where
  "read_only_new opt = \<lparr>ro_option = opt, ro_pending_read_index = [], ro_read_index_queue = []\<rparr>"

definition add_request :: "read_only \<Rightarrow> u64 \<Rightarrow> message \<Rightarrow> u64 \<Rightarrow> read_only option" where
  "add_request ro index req self_id =
     do {
       e \<leftarrow> vec_get (m_entries req) 0;
       let key = e_data e;
       if hmap_contains (ro_pending_read_index ro) key then Some ro
       else
         (let acks = hset_insert self_id [];
              status = \<lparr>ri_req = req, ri_index = index, ri_acks = acks\<rparr>
          in Some (ro\<lparr>ro_pending_read_index := AList.update key status (ro_pending_read_index ro),
                      ro_read_index_queue := ro_read_index_queue ro @ [key]\<rparr>))
     }"

definition recv_ack :: "read_only \<Rightarrow> u64 \<Rightarrow> bytes \<Rightarrow> u64 hset option \<times> read_only" where
  "recv_ack ro i ctx =
     (case map_of (ro_pending_read_index ro) ctx of
        None \<Rightarrow> (None, ro)
      | Some rs \<Rightarrow>
          (let acks = hset_insert i (ri_acks rs)
           in (Some acks, ro\<lparr>ro_pending_read_index :=
                 AList.update ctx (rs\<lparr>ri_acks := acks\<rparr>) (ro_pending_read_index ro)\<rparr>)))"

text \<open>\<open>Iterator::position\<close> with the check the closure makes on every element it visits.\<close>

fun advance_position :: "(bytes, read_index_status) hmap \<Rightarrow> bytes \<Rightarrow> nat \<Rightarrow> bytes list \<Rightarrow> nat option option" where
  "advance_position pending ctx i [] = Some None"
| "advance_position pending ctx i (x # xs) =
     do {
       rust_assert (hmap_contains pending x);
       if x = ctx then Some (Some i) else advance_position pending ctx (i + 1) xs
     }"

fun advance_pop :: "nat \<Rightarrow> read_only \<Rightarrow> read_index_status list \<Rightarrow> (read_index_status list \<times> read_only) option" where
  "advance_pop 0 ro rss = Some (rss, ro)"
| "advance_pop (Suc n) ro rss =
     (case ro_read_index_queue ro of
        [] \<Rightarrow> None
      | rs # q \<Rightarrow>
          (case map_of (ro_pending_read_index ro) rs of
             None \<Rightarrow> None
           | Some status \<Rightarrow>
               advance_pop n (ro\<lparr>ro_read_index_queue := q,
                 ro_pending_read_index := AList.delete rs (ro_pending_read_index ro)\<rparr>) (rss @ [status])))"

definition advance :: "read_only \<Rightarrow> bytes \<Rightarrow> (read_index_status list \<times> read_only) option" where
  "advance ro ctx =
     do {
       p \<leftarrow> advance_position (ro_pending_read_index ro) ctx 0 (ro_read_index_queue ro);
       (case p of None \<Rightarrow> Some ([], ro) | Some i \<Rightarrow> advance_pop (i + 1) ro [])
     }"

definition last_pending_request_ctx :: "read_only \<Rightarrow> bytes option" where
  "last_pending_request_ctx ro =
     (if ro_read_index_queue ro = [] then None else Some (last (ro_read_index_queue ro)))"

definition pending_read_count :: "read_only \<Rightarrow> usize" where
  "pending_read_count ro = length (ro_read_index_queue ro)"

section \<open>Queue and map agree\<close>

definition read_only_inv :: "read_only \<Rightarrow> bool" where
  "read_only_inv ro \<longleftrightarrow>
     distinct (ro_read_index_queue ro) \<and> hmap_wf (ro_pending_read_index ro)
     \<and> dom (map_of (ro_pending_read_index ro)) = set (ro_read_index_queue ro)"

lemma read_only_new_inv: "read_only_inv (read_only_new opt)"
  by (simp add: read_only_inv_def read_only_new_def)

lemma pending_iff: "read_only_inv ro \<Longrightarrow> hmap_contains (ro_pending_read_index ro) k \<longleftrightarrow> k \<in> set (ro_read_index_queue ro)"
  unfolding read_only_inv_def hmap_contains_def by (metis domIff)

lemma add_request_inv:
  assumes "read_only_inv ro" and "add_request ro i req self_id = Some ro'"
  shows "read_only_inv ro'"
proof (cases "hmap_contains (ro_pending_read_index ro) (e_data (m_entries req ! 0))")
  case True
  then show ?thesis using assms by (auto simp: add_request_def bind_eq_Some_conv)
next
  case False
  let ?k = "e_data (m_entries req ! 0)"
  have k: "?k \<notin> set (ro_read_index_queue ro)" using False pending_iff [OF assms(1)] by simp
  obtain st where ro': "ro' = ro\<lparr>ro_pending_read_index := AList.update ?k st (ro_pending_read_index ro),
      ro_read_index_queue := ro_read_index_queue ro @ [?k]\<rparr>"
    using assms(2) False by (auto simp: add_request_def bind_eq_Some_conv Let_def)
  have "dom (map_of (AList.update ?k st (ro_pending_read_index ro))) = insert ?k (dom (map_of (ro_pending_read_index ro)))"
    unfolding hmap_get_update by (rule dom_fun_upd [THEN trans]) simp
  with assms(1) k ro' show ?thesis by (simp add: read_only_inv_def del: hmap_get_update)
qed

lemma recv_ack_inv: "read_only_inv ro \<Longrightarrow> read_only_inv (snd (recv_ack ro i ctx))"
  by (auto simp: recv_ack_def read_only_inv_def Let_def split: option.split)

lemma advance_position_eq:
  "set q \<subseteq> dom (map_of p) \<Longrightarrow>
     advance_position p ctx i q = Some (if ctx \<in> set q then Some (i + length (takeWhile (\<lambda>x. x \<noteq> ctx) q)) else None)"
  by (induction q arbitrary: i) (auto simp: hmap_contains_def)

lemma advance_pop_eq:
  assumes "distinct (q @ rest)" and "set (q @ rest) \<subseteq> dom (map_of (ro_pending_read_index ro))"
    and "ro_read_index_queue ro = q @ rest" and "hmap_wf (ro_pending_read_index ro)"
  shows "\<exists>ro'. advance_pop (length q) ro rss =
       Some (rss @ map (\<lambda>k. the (map_of (ro_pending_read_index ro) k)) q, ro')
     \<and> ro_read_index_queue ro' = rest \<and> ro_option ro' = ro_option ro
     \<and> hmap_wf (ro_pending_read_index ro')
     \<and> map_of (ro_pending_read_index ro') = (\<lambda>k. if k \<in> set q then None else map_of (ro_pending_read_index ro) k)"
  using assms
proof (induction q arbitrary: ro rss)
  case Nil
  then show ?case by auto
next
  case (Cons k q)
  let ?ro = "ro\<lparr>ro_read_index_queue := q @ rest, ro_pending_read_index := AList.delete k (ro_pending_read_index ro)\<rparr>"
  obtain st where st: "map_of (ro_pending_read_index ro) k = Some st" using Cons.prems(2) by auto
  have pre: "distinct (q @ rest)" "set (q @ rest) \<subseteq> dom (map_of (ro_pending_read_index ?ro))"
    "ro_read_index_queue ?ro = q @ rest" "hmap_wf (ro_pending_read_index ?ro)"
    using Cons.prems by auto
  obtain ro' where ro': "advance_pop (length q) ?ro (rss @ [st]) =
       Some ((rss @ [st]) @ map (\<lambda>k. the (map_of (ro_pending_read_index ?ro) k)) q, ro')"
     "ro_read_index_queue ro' = rest" "ro_option ro' = ro_option ?ro" "hmap_wf (ro_pending_read_index ro')"
     "map_of (ro_pending_read_index ro') = (\<lambda>k. if k \<in> set q then None else map_of (ro_pending_read_index ?ro) k)"
    using Cons.IH [OF pre, of "rss @ [st]"] by blast
  have "map (\<lambda>k. the (map_of (ro_pending_read_index ?ro) k)) q = map (\<lambda>k. the (map_of (ro_pending_read_index ro) k)) q"
    using Cons.prems(1) by auto
  with ro' st Cons.prems(3) show ?case by (intro exI [of _ ro']) auto
qed

section \<open>Properties\<close>

text \<open>
  (C40) Confirming a read request releases it together with every request that arrived before it, in
  the order of arrival, each exactly once; the later ones stay pending with their acknowledgements,
  and an unknown context releases nothing. The call never panics on a queue built by the operations.
\<close>

theorem advance_releases_in_order:
  assumes "read_only_inv ro"
  shows "\<exists>rss ro'. advance ro ctx = Some (rss, ro') \<and> read_only_inv ro'
     \<and> (if ctx \<in> set (ro_read_index_queue ro)
        then (\<exists>before. ro_read_index_queue ro = before @ ctx # ro_read_index_queue ro'
                \<and> map Some rss = map (map_of (ro_pending_read_index ro)) (before @ [ctx]))
        else rss = [] \<and> ro' = ro)
     \<and> (\<forall>k \<in> set (ro_read_index_queue ro').
          map_of (ro_pending_read_index ro') k = map_of (ro_pending_read_index ro) k)"
proof (cases "ctx \<in> set (ro_read_index_queue ro)")
  case False
  with assms show ?thesis by (simp add: advance_def advance_position_eq read_only_inv_def)
next
  case True
  let ?q = "ro_read_index_queue ro"
  define b where "b = takeWhile (\<lambda>x. x \<noteq> ctx) ?q"
  have "dropWhile (\<lambda>x. x \<noteq> ctx) ?q \<noteq> []" using True by (auto simp: dropWhile_eq_Nil_conv)
  then obtain y rest where y: "dropWhile (\<lambda>x. x \<noteq> ctx) ?q = y # rest" by (meson neq_Nil_conv)
  then have "y = ctx" by (simp add: dropWhile_eq_Cons_conv)
  with y have q: "?q = b @ ctx # rest" unfolding b_def by (metis takeWhile_dropWhile_id)
  have pos: "advance_position (ro_pending_read_index ro) ctx 0 ?q = Some (Some (length b))"
    using assms True by (simp add: advance_position_eq read_only_inv_def b_def)
  obtain ro' where ro': "advance_pop (length (b @ [ctx])) ro [] =
       Some ([] @ map (\<lambda>k. the (map_of (ro_pending_read_index ro) k)) (b @ [ctx]), ro')"
     "ro_read_index_queue ro' = rest" "hmap_wf (ro_pending_read_index ro')"
     "map_of (ro_pending_read_index ro') = (\<lambda>k. if k \<in> set (b @ [ctx]) then None else map_of (ro_pending_read_index ro) k)"
    using advance_pop_eq [of "b @ [ctx]" rest ro "[]"] assms q by (auto simp: read_only_inv_def)
  have d: "distinct (b @ ctx # rest)" "dom (map_of (ro_pending_read_index ro)) = set (b @ ctx # rest)"
    using assms q by (simp_all add: read_only_inv_def)
  have "dom (map_of (ro_pending_read_index ro')) = dom (map_of (ro_pending_read_index ro)) - set (b @ [ctx])"
    unfolding ro'(4) by (auto split: if_splits)
  also have "\<dots> = set rest" using d by auto
  finally have inv: "read_only_inv ro'" using ro' d by (simp add: read_only_inv_def)
  have "map_of (ro_pending_read_index ro) k = Some (the (map_of (ro_pending_read_index ro) k))"
    if "k \<in> set (b @ [ctx])" for k
  proof -
    have "k \<in> dom (map_of (ro_pending_read_index ro))" using that d(2) by auto
    then show ?thesis by auto
  qed
  then have "map Some (map (\<lambda>k. the (map_of (ro_pending_read_index ro) k)) (b @ [ctx]))
      = map (map_of (ro_pending_read_index ro)) (b @ [ctx])" by auto
  moreover have "advance ro ctx = Some (map (\<lambda>k. the (map_of (ro_pending_read_index ro) k)) (b @ [ctx]), ro')"
    using pos ro'(1) by (simp add: advance_def)
  moreover have "\<forall>k \<in> set rest. map_of (ro_pending_read_index ro') k = map_of (ro_pending_read_index ro) k"
    using ro'(4) d(1) by auto
  ultimately show ?thesis using True q ro'(2) inv by auto
qed

lemma advance_releases_in_order_witness:
  "\<exists>ro rss ro'. add_request (read_only_new Safe) 3 (default_message\<lparr>m_entries := [default_entry\<lparr>e_data := [7]\<rparr>]\<rparr>) 1 = Some ro
     \<and> advance ro [7] = Some (rss, ro') \<and> map ri_index rss = [3] \<and> ro_read_index_queue ro' = []"
proof -
  let ?m = "default_message\<lparr>m_entries := [default_entry\<lparr>e_data := [7]\<rparr>]\<rparr>"
  let ?st = "\<lparr>ri_req = ?m, ri_index = 3, ri_acks = [1]\<rparr>"
  let ?ro = "\<lparr>ro_option = Safe, ro_pending_read_index = [([7], ?st)], ro_read_index_queue = [[7]]\<rparr>"
  have a: "add_request (read_only_new Safe) 3 ?m 1 = Some ?ro"
    by (simp add: add_request_def read_only_new_def hmap_contains_def hset_insert_def Let_def)
  have q: "[7] \<in> set (ro_read_index_queue ?ro)" by simp
  obtain rss ro' bf where r: "advance ?ro [7] = Some (rss, ro')" "ro_read_index_queue ?ro = bf @ [7] # ro_read_index_queue ro'"
    "map Some rss = map (map_of (ro_pending_read_index ?ro)) (bf @ [[7]])"
    using advance_releases_in_order [OF add_request_inv [OF read_only_new_inv a], of "[7]"] unfolding if_P [OF q] by blast
  have "bf = [] \<and> ro_read_index_queue ro' = []" using r(2) by (cases bf) simp_all
  moreover from this r(3) have "rss = [?st]" by auto
  ultimately show ?thesis using r(1) a by (intro exI [of _ ?ro]) simp
qed

end
