(* ===== verification/Raft_Core.thy ===== *)
theory Raft_Core
  imports Raft_Log Confchange Read_Only
begin

text \<open>
  The first half of \<open>src/raft.rs\<close>: roles, the state of a node (\<open>RaftCore\<close> and \<open>Raft\<close>), the limit
  on uncommitted data, and the sending of messages by the core.

  \<open>Raft\<close> dereferences to its \<open>RaftCore\<close>, so its record extends the record of the core; the
  operations of the core are polymorphic in the extension. A progress the code borrows mutably is an
  argument and part of the result, as is the vector of outgoing messages. The numbers drawn from the
  random generator are those of the environment, one after the other: \<open>rc_rng\<close> counts them. Logging
  is not modelled.
\<close>

section \<open>Roles and constants\<close>

definition CAMPAIGN_PRE_ELECTION :: bytes where
  "CAMPAIGN_PRE_ELECTION = map of_char ''CampaignPreElection''"

definition CAMPAIGN_ELECTION :: bytes where
  "CAMPAIGN_ELECTION = map of_char ''CampaignElection''"

definition CAMPAIGN_TRANSFER :: bytes where
  "CAMPAIGN_TRANSFER = map of_char ''CampaignTransfer''"

datatype state_role = Follower | Candidate | Leader | PreCandidate

record soft_state =
  ss_leader_id :: u64
  ss_raft_state :: state_role

section \<open>Uncommitted entries\<close>

record uncommitted_state =
  us_max_uncommitted_size :: usize
  us_uncommitted_size :: usize
  us_last_log_tail_index :: u64

definition is_no_limit :: "uncommitted_state \<Rightarrow> bool" where
  "is_no_limit u \<longleftrightarrow> us_max_uncommitted_size u = NO_LIMIT"

definition maybe_increase_uncommitted_size :: "uncommitted_state \<Rightarrow> entry list \<Rightarrow> (bool \<times> uncommitted_state) option" where
  "maybe_increase_uncommitted_size u ents =
     (if is_no_limit u then Some (True, u)
      else do {
        size \<leftarrow> sum_from 0 (map (\<lambda>e. length (e_data e)) ents);
        fits \<leftarrow>
          (if size = 0 \<or> us_uncommitted_size u = 0 then Some True
           else do { total \<leftarrow> u64_add size (us_uncommitted_size u); Some (total \<le> us_max_uncommitted_size u) });
        if fits then do {
          total \<leftarrow> u64_add (us_uncommitted_size u) size;
          Some (True, u\<lparr>us_uncommitted_size := total\<rparr>)
        }
        else Some (False, u)
      })"

definition maybe_reduce_uncommitted_size :: "uncommitted_state \<Rightarrow> entry list \<Rightarrow> (bool \<times> uncommitted_state) option" where
  "maybe_reduce_uncommitted_size u ents =
     (if is_no_limit u \<or> ents = [] then Some (True, u)
      else do {
        size \<leftarrow> sum_from 0 (map (\<lambda>e. length (e_data e)) (dropWhile (\<lambda>e. e_index e \<le> us_last_log_tail_index u) ents));
        if size > us_uncommitted_size u then Some (False, u\<lparr>us_uncommitted_size := 0\<rparr>)
        else do {
          rest \<leftarrow> u64_sub (us_uncommitted_size u) size;
          Some (True, u\<lparr>us_uncommitted_size := rest\<rparr>)
        }
      })"

section \<open>The state of a node\<close>

record 's raft_core =
  rc_term :: u64
  rc_vote :: u64
  rc_id :: u64
  rc_read_states :: "read_state list"
  rc_raft_log :: "'s raft_log"
  rc_max_inflight :: usize
  rc_max_msg_size :: u64
  rc_pending_request_snapshot :: u64
  rc_state :: state_role
  rc_promotable :: bool
  rc_leader_id :: u64
  rc_lead_transferee :: "u64 option"
  rc_pending_conf_index :: u64
  rc_read_only :: read_only
  rc_election_elapsed :: usize
  rc_heartbeat_elapsed :: usize
  rc_check_quorum :: bool
  rc_pre_vote :: bool
  rc_skip_bcast_commit :: bool
  rc_batch_append :: bool
  rc_disable_proposal_forwarding :: bool
  rc_heartbeat_timeout :: usize
  rc_election_timeout :: usize
  rc_randomized_election_timeout :: usize
  rc_min_election_timeout :: usize
  rc_max_election_timeout :: usize
  rc_priority :: i64
  rc_uncommitted_state :: uncommitted_state
  rc_max_committed_size_per_ready :: u64
  rc_rng :: nat

record 's raft = "'s raft_core" +
  r_prs :: progress_tracker
  r_msgs :: "message list"

abbreviation rc_committed :: "('s, 'x) raft_core_scheme \<Rightarrow> u64" where
  "rc_committed r \<equiv> rl_committed (rc_raft_log r)"

section \<open>Messages\<close>

definition new_message :: "u64 \<Rightarrow> message_type \<Rightarrow> u64 option \<Rightarrow> message" where
  "new_message to ty from =
     (let m = default_message\<lparr>m_to := to\<rparr>;
          m = (case from of None \<Rightarrow> m | Some i \<Rightarrow> m\<lparr>m_from := i\<rparr>)
      in m\<lparr>m_type := ty\<rparr>)"

definition get_priority :: "message \<Rightarrow> i64" where
  "get_priority m =
     (if m_priority m \<noteq> 0 then m_priority m
      else if int (m_deprecated_priority m) \<le> I64_MAX then int (m_deprecated_priority m) else I64_MAX)"

definition vote_resp_msg_type :: "message_type \<Rightarrow> message_type option" where
  "vote_resp_msg_type t =
     (case t of
        MsgRequestVote \<Rightarrow> Some MsgRequestVoteResponse
      | MsgRequestPreVote \<Rightarrow> Some MsgRequestPreVoteResponse
      | _ \<Rightarrow> None)"

definition send :: "('s, 'x) raft_core_scheme \<Rightarrow> message \<Rightarrow> message list \<Rightarrow> message list option" where
  "send r m msgs =
     do {
       let m = (if m_from m = INVALID_ID then m\<lparr>m_from := rc_id r\<rparr> else m);
       m \<leftarrow>
         (if m_type m \<in> {MsgRequestVote, MsgRequestPreVote, MsgRequestVoteResponse, MsgRequestPreVoteResponse}
          then do { rust_assert (m_term m \<noteq> 0); Some m }
          else do {
            rust_assert (m_term m = 0);
            Some (if m_type m \<noteq> MsgPropose \<and> m_type m \<noteq> MsgReadIndex then m\<lparr>m_term := rc_term r\<rparr> else m)
          });
       let m =
         (if m_type m = MsgRequestVote \<or> m_type m = MsgRequestPreVote then
            (let m = (if rc_priority r > 0 then m\<lparr>m_deprecated_priority := nat (rc_priority r)\<rparr> else m)
             in m\<lparr>m_priority := rc_priority r\<rparr>)
          else m);
       Some (msgs @ [m])
     }"

section \<open>Replication messages\<close>

text \<open>\<open>(sent, m, pr, r)\<close>: whether to send, the message and the progress filled in.\<close>

definition prepare_send_snapshot ::
  "'s env \<Rightarrow> ('s, 'x) raft_core_scheme \<Rightarrow> message \<Rightarrow> progress \<Rightarrow> u64
     \<Rightarrow> (bool \<times> message \<times> progress \<times> ('s, 'x) raft_core_scheme) option" where
  "prepare_send_snapshot E r m pr to =
     (if \<not> pr_recent_active pr then Some (False, m, pr, r)
      else do {
        let m = m\<lparr>m_type := MsgSnapshot\<rparr>;
        (snapshot_r, l) \<leftarrow> log_snapshot E (rc_raft_log r) (pr_pending_request_snapshot pr) to;
        let r = r\<lparr>rc_raft_log := l\<rparr>;
        (case snapshot_r of
           Inl e \<Rightarrow> if raft_error_eq e (Store SnapshotTemporarilyUnavailable) then Some (False, m, pr, r) else None
         | Inr snap \<Rightarrow> do {
             rust_assert (snap_index snap \<noteq> 0);
             Some (True, m\<lparr>m_snapshot := snap\<rparr>, progress_become_snapshot pr (snap_index snap), r)
           })
      })"

definition prepare_send_entries ::
  "('s, 'x) raft_core_scheme \<Rightarrow> message \<Rightarrow> progress \<Rightarrow> u64 \<Rightarrow> entry list \<Rightarrow> (message \<times> progress) option" where
  "prepare_send_entries r m pr term ents =
     do {
       index \<leftarrow> u64_sub (pr_next_idx pr) 1;
       let m = m\<lparr>m_type := MsgAppend, m_index := index, m_log_term := term, m_entries := ents,
                 m_commit := rc_committed r\<rparr>;
       pr \<leftarrow> (if m_entries m \<noteq> [] then progress_update_state pr (e_index (last (m_entries m))) else Some pr);
       Some (m, pr)
     }"

fun try_batching ::
  "('s, 'x) raft_core_scheme \<Rightarrow> u64 \<Rightarrow> message list \<Rightarrow> progress \<Rightarrow> entry list \<Rightarrow> (bool \<times> message list \<times> progress) option" where
  "try_batching r to [] pr ents = Some (False, [], pr)"
| "try_batching r to (msg # msgs) pr ents =
     (if m_type msg = MsgAppend \<and> m_to msg = to then
        (if ents \<noteq> [] then do {
           c \<leftarrow> is_continuous_ents msg ents;
           if \<not> c then Some (False, msg # msgs, pr)
           else do {
             let msg = msg\<lparr>m_entries := m_entries msg @ ents\<rparr>;
             pr \<leftarrow> progress_update_state pr (e_index (last (m_entries msg)));
             Some (True, msg\<lparr>m_commit := rc_committed r\<rparr> # msgs, pr)
           }
         }
         else Some (True, msg\<lparr>m_commit := rc_committed r\<rparr> # msgs, pr))
      else do {
        (b, msgs, pr) \<leftarrow> try_batching r to msgs pr ents;
        Some (b, msg # msgs, pr)
      })"

text \<open>The tail of \<open>maybe_send_append\<close> after a snapshot was or was not prepared.\<close>

definition send_prepared_snapshot ::
  "'s env \<Rightarrow> ('s, 'x) raft_core_scheme \<Rightarrow> message \<Rightarrow> u64 \<Rightarrow> progress \<Rightarrow> message list
     \<Rightarrow> (bool \<times> ('s, 'x) raft_core_scheme \<times> progress \<times> message list) option" where
  "send_prepared_snapshot E r m to pr msgs =
     do {
       (ok, m, pr, r) \<leftarrow> prepare_send_snapshot E r m pr to;
       if \<not> ok then Some (False, r, pr, msgs)
       else do { msgs \<leftarrow> send r m msgs; Some (True, r, pr, msgs) }
     }"

definition maybe_send_append ::
  "'s env \<Rightarrow> ('s, 'x) raft_core_scheme \<Rightarrow> u64 \<Rightarrow> progress \<Rightarrow> bool \<Rightarrow> message list
     \<Rightarrow> (bool \<times> ('s, 'x) raft_core_scheme \<times> progress \<times> message list) option" where
  "maybe_send_append E r to pr allow_empty msgs =
     (if progress_is_paused pr then Some (False, r, pr, msgs)
      else do {
        let m = default_message\<lparr>m_to := to\<rparr>;
        if pr_pending_request_snapshot pr \<noteq> INVALID_INDEX then send_prepared_snapshot E r m to pr msgs
        else do {
          (ents, l) \<leftarrow> log_entries E (rc_raft_log r) (pr_next_idx pr) (Some (rc_max_msg_size r))
                        (SendAppend to (rc_term r) (\<not> allow_empty));
          let r = r\<lparr>rc_raft_log := l\<rparr>;
          if \<not> allow_empty \<and> (case ents of Inl _ \<Rightarrow> True | Inr es \<Rightarrow> es = []) then Some (False, r, pr, msgs)
          else do {
            prev \<leftarrow> u64_sub (pr_next_idx pr) 1;
            term \<leftarrow> log_term E (rc_raft_log r) prev;
            (case (term, ents) of
               (Inr term, Inr ents) \<Rightarrow> do {
                 (batched, msgs, pr) \<leftarrow>
                   (if rc_batch_append r then try_batching r to msgs pr ents else Some (False, msgs, pr));
                 if batched then Some (True, r, pr, msgs)
                 else do {
                   (m, pr) \<leftarrow> prepare_send_entries r m pr term ents;
                   msgs \<leftarrow> send r m msgs;
                   Some (True, r, pr, msgs)
                 }
               }
             | (_, Inl e) \<Rightarrow>
                 if e = Store LogTemporarilyUnavailable then Some (False, r, pr, msgs)
                 else send_prepared_snapshot E r m to pr msgs
             | _ \<Rightarrow> send_prepared_snapshot E r m to pr msgs)
          }
        }
      })"

definition send_append ::
  "'s env \<Rightarrow> ('s, 'x) raft_core_scheme \<Rightarrow> u64 \<Rightarrow> progress \<Rightarrow> message list
     \<Rightarrow> (('s, 'x) raft_core_scheme \<times> progress \<times> message list) option" where
  "send_append E r to pr msgs =
     do { (_, r, pr, msgs) \<leftarrow> maybe_send_append E r to pr True msgs; Some (r, pr, msgs) }"

definition send_heartbeat ::
  "('s, 'x) raft_core_scheme \<Rightarrow> u64 \<Rightarrow> progress \<Rightarrow> bytes option \<Rightarrow> message list \<Rightarrow> message list option" where
  "send_heartbeat r to pr ctx msgs =
     (let m = default_message\<lparr>m_to := to, m_type := MsgHeartbeat, m_commit := min (pr_matched pr) (rc_committed r)\<rparr>;
          m = (case ctx of None \<Rightarrow> m | Some c \<Rightarrow> m\<lparr>m_context := c\<rparr>)
      in send r m msgs)"

section \<open>The loop that sends all it can\<close>

text \<open>
  Every message that is sent uses up the progress: a probe pauses, a snapshot pauses, and a
  replicating progress has one message more in flight. The window of messages in flight bounds their
  number; should there be more of them than the window holds, the range of \<open>usize\<close> does.
\<close>

definition send_budget :: "progress \<Rightarrow> nat" where
  "send_budget pr =
     (if progress_is_paused pr then 0
      else if pr_state pr \<noteq> Replicate then 1
      else if in_count (pr_ins pr) < in_cap (pr_ins pr) then in_cap (pr_ins pr) - in_count (pr_ins pr)
      else Suc (U64_MAX - in_count (pr_ins pr)))"

lemma inflights_add_count:
  "inflights_add s x = Some s' \<Longrightarrow>
     in_count s' = Suc (in_count s) \<and> in_count s < U64_MAX \<and> in_cap s' = in_cap s \<and> in_count s \<noteq> in_cap s"
  by (auto simp: inflights_add_def inflights_full_def Let_def bind_eq_Some_conv split: if_splits)

lemma update_state_budget:
  assumes "progress_update_state pr i = Some pr'" and "\<not> progress_is_paused pr"
  shows "send_budget pr' < send_budget pr"
proof (cases "pr_state pr")
  case Replicate
  then obtain ins where ins: "inflights_add (pr_ins pr) i = Some ins" "pr_ins pr' = ins" "pr_state pr' = Replicate"
    using assms(1) by (auto simp: progress_update_state_def progress_optimistic_update_def bind_eq_Some_conv)
  from inflights_add_count [OF ins(1)] ins Replicate assms(2) show ?thesis
    by (auto simp: send_budget_def progress_is_paused_def inflights_full_def)
qed (use assms in \<open>auto simp: progress_update_state_def progress_pause_def send_budget_def progress_is_paused_def\<close>)

lemma become_snapshot_budget: "\<not> progress_is_paused pr \<Longrightarrow> send_budget (progress_become_snapshot pr i) < send_budget pr"
  by (simp add: send_budget_def progress_is_paused_def progress_become_snapshot_def)

lemmas opaque_calls =
  returnsI [of "send r m msgs" for r m msgs]
  returnsI [of "log_snapshot E l i to" for E l i to]
  returnsI [of "log_entries E l i sz c" for E l i sz c]
  returnsI [of "log_term E l i" for E l i]

lemma send_prepared_snapshot_budget:
  assumes "\<not> progress_is_paused pr"
  shows "returns (send_prepared_snapshot E r m to pr msgs) (\<lambda>(b, r', pr', msgs'). b \<longrightarrow> send_budget pr' < send_budget pr)"
  unfolding send_prepared_snapshot_def prepare_send_snapshot_def
  by (intro returns_rules opaque_calls) (use become_snapshot_budget [OF assms] in auto)

lemma try_batching_budget:
  "\<not> progress_is_paused pr \<Longrightarrow> ents \<noteq> [] \<Longrightarrow>
     returns (try_batching r to msgs pr ents) (\<lambda>(b, msgs', pr'). if b then send_budget pr' < send_budget pr else pr' = pr)"
  by (induction msgs) (auto simp: returns_def bind_eq_Some_conv update_state_budget Let_def)

lemma prepare_send_entries_budget:
  "\<not> progress_is_paused pr \<Longrightarrow> ents \<noteq> [] \<Longrightarrow>
     returns (prepare_send_entries r m pr t ents) (\<lambda>(m, pr'). send_budget pr' < send_budget pr)"
  by (auto simp: returns_def prepare_send_entries_def bind_eq_Some_conv update_state_budget Let_def)

lemma maybe_send_append_budget:
  "returns (maybe_send_append E r to pr False msgs) (\<lambda>(b, r', pr', msgs'). b \<longrightarrow> send_budget pr' < send_budget pr)"
proof (cases "progress_is_paused pr")
  case False
  note rules = send_prepared_snapshot_budget [OF False] try_batching_budget [OF False, THEN returns_mono]
    prepare_send_entries_budget [THEN returns_mono]
  show ?thesis
    unfolding maybe_send_append_def
    by (intro returns_rules rules opaque_calls) (use False in \<open>auto split: if_splits\<close>)
qed (simp add: maybe_send_append_def)

function send_append_aggressively ::
  "'s env \<Rightarrow> ('s, 'x) raft_core_scheme \<Rightarrow> u64 \<Rightarrow> progress \<Rightarrow> message list
     \<Rightarrow> (('s, 'x) raft_core_scheme \<times> progress \<times> message list) option" where
  "send_append_aggressively E r to pr msgs =
     do {
       (sent, r, pr, msgs) \<leftarrow> maybe_send_append E r to pr False msgs;
       if sent then send_append_aggressively E r to pr msgs else Some (r, pr, msgs)
     }"
  by pat_completeness auto
termination
  by (relation "measure (\<lambda>(_, _, _, pr, _). send_budget pr)") (use maybe_send_append_budget in \<open>fastforce simp: returns_def\<close>)+

declare send_append_aggressively.simps [simp del]

end
