(* ===== verification/Raft.thy ===== *)
theory Raft
  imports Raft_Core
begin

text \<open>
  The second half of \<open>src/raft.rs\<close>: \<open>impl Raft\<close>, the state machine that reacts to messages and
  ticks. Every method is a function from the environment and the node to the new node, with \<open>None\<close>
  for a panic; \<open>step\<close> and what it calls also return the \<open>Result\<close> of the method. A method that takes
  \<open>&self\<close> but reads entries through the storage returns the node too, since the storage may change.

  \<open>campaign\<close> and \<open>poll\<close> call each other; the recursion ends because a campaign that is not a
  pre-election makes the node a candidate, and the poll of a candidate does not campaign again.
\<close>

section \<open>Accessors and settings\<close>

definition set_priority :: "'s raft \<Rightarrow> i64 \<Rightarrow> 's raft" where
  "set_priority r p = r\<lparr>rc_priority := p\<rparr>"

definition raft_snap :: "'s raft \<Rightarrow> snapshot option" where
  "raft_snap r = un_snapshot (rl_unstable (rc_raft_log r))"

definition raft_pending_read_count :: "'s raft \<Rightarrow> usize" where
  "raft_pending_read_count r = pending_read_count (rc_read_only r)"

definition ready_read_count :: "'s raft \<Rightarrow> usize" where
  "ready_read_count r = length (rc_read_states r)"

definition raft_soft_state :: "'s raft \<Rightarrow> soft_state" where
  "raft_soft_state r = \<lparr>ss_leader_id = rc_leader_id r, ss_raft_state = rc_state r\<rparr>"

definition raft_hard_state :: "'s raft \<Rightarrow> hard_state" where
  "raft_hard_state r = \<lparr>hs_term = rc_term r, hs_vote = rc_vote r, hs_commit = rc_committed r\<rparr>"

definition in_lease :: "'s raft \<Rightarrow> bool" where
  "in_lease r \<longleftrightarrow> rc_state r = Leader \<and> rc_check_quorum r"

definition set_randomized_election_timeout :: "'s raft \<Rightarrow> usize \<Rightarrow> 's raft option" where
  "set_randomized_election_timeout r t =
     do {
       rust_assert (rc_min_election_timeout r \<le> t \<and> t < rc_max_election_timeout r);
       Some (r\<lparr>rc_randomized_election_timeout := t\<rparr>)
     }"

definition set_skip_bcast_commit :: "'s raft \<Rightarrow> bool \<Rightarrow> 's raft" where
  "set_skip_bcast_commit r skip = r\<lparr>rc_skip_bcast_commit := skip\<rparr>"

definition set_batch_append :: "'s raft \<Rightarrow> bool \<Rightarrow> 's raft" where
  "set_batch_append r b = r\<lparr>rc_batch_append := b\<rparr>"

definition set_max_committed_size_per_ready :: "'s raft \<Rightarrow> u64 \<Rightarrow> 's raft" where
  "set_max_committed_size_per_ready r sz = r\<lparr>rc_max_committed_size_per_ready := sz\<rparr>"

definition set_check_quorum :: "'s raft \<Rightarrow> bool \<Rightarrow> 's raft" where
  "set_check_quorum r b = r\<lparr>rc_check_quorum := b\<rparr>"

definition set_max_apply_unpersisted_log_limit :: "'s raft \<Rightarrow> u64 \<Rightarrow> 's raft" where
  "set_max_apply_unpersisted_log_limit r limit =
     r\<lparr>rc_raft_log := (rc_raft_log r)\<lparr>rl_max_apply_unpersisted_log_limit := limit\<rparr>\<rparr>"

definition commit_to_current_term :: "'s env \<Rightarrow> 's raft \<Rightarrow> bool option" where
  "commit_to_current_term E r =
     do { t \<leftarrow> log_term E (rc_raft_log r) (rc_committed r); Some (t = Inr (rc_term r)) }"

definition apply_to_current_term :: "'s env \<Rightarrow> 's raft \<Rightarrow> bool option" where
  "apply_to_current_term E r =
     do { t \<leftarrow> log_term E (rc_raft_log r) (rl_applied (rc_raft_log r)); Some (t = Inr (rc_term r)) }"

definition has_pending_conf :: "'s raft \<Rightarrow> bool" where
  "has_pending_conf r \<longleftrightarrow> rc_pending_conf_index r > rl_applied (rc_raft_log r)"

definition should_bcast_commit :: "'s raft \<Rightarrow> bool" where
  "should_bcast_commit r \<longleftrightarrow> \<not> rc_skip_bcast_commit r \<or> has_pending_conf r"

definition pass_election_timeout :: "'s raft \<Rightarrow> bool" where
  "pass_election_timeout r \<longleftrightarrow> rc_election_elapsed r \<ge> rc_randomized_election_timeout r"

definition uncommitted_size :: "'s raft \<Rightarrow> usize" where
  "uncommitted_size r = us_uncommitted_size (rc_uncommitted_state r)"

section \<open>Sending to peers\<close>

definition raft_send :: "'s raft \<Rightarrow> message \<Rightarrow> 's raft option" where
  "raft_send r m = do { msgs \<leftarrow> send r m (r_msgs r); Some (r\<lparr>r_msgs := msgs\<rparr>) }"

definition put_progress :: "'s raft \<Rightarrow> u64 \<Rightarrow> progress \<Rightarrow> 's raft" where
  "put_progress r i pr = r\<lparr>r_prs := tracker_put (r_prs r) i pr\<rparr>"

definition raft_send_append :: "'s env \<Rightarrow> 's raft \<Rightarrow> u64 \<Rightarrow> 's raft option" where
  "raft_send_append E r to =
     do {
       pr \<leftarrow> tracker_get (r_prs r) to;
       (r, pr, msgs) \<leftarrow> send_append E r to pr (r_msgs r);
       Some ((put_progress r to pr)\<lparr>r_msgs := msgs\<rparr>)
     }"

definition raft_send_append_aggressively :: "'s env \<Rightarrow> 's raft \<Rightarrow> u64 \<Rightarrow> 's raft option" where
  "raft_send_append_aggressively E r to =
     do {
       pr \<leftarrow> tracker_get (r_prs r) to;
       (r, pr, msgs) \<leftarrow> send_append_aggressively E r to pr (r_msgs r);
       Some ((put_progress r to pr)\<lparr>r_msgs := msgs\<rparr>)
     }"

text \<open>The loops over all peers but the node itself, in the order of the map.\<close>

fun for_each_peer ::
  "(u64 \<Rightarrow> progress \<Rightarrow> 's raft \<Rightarrow> message list \<Rightarrow> ('s raft \<times> progress \<times> message list) option) \<Rightarrow> u64
     \<Rightarrow> progress_map \<Rightarrow> 's raft \<Rightarrow> message list \<Rightarrow> ('s raft \<times> progress_map \<times> message list) option" where
  "for_each_peer f self_id [] r msgs = Some (r, [], msgs)"
| "for_each_peer f self_id ((i, pr) # prs) r msgs =
     do {
       (r, pr, msgs) \<leftarrow> (if i = self_id then Some (r, pr, msgs) else f i pr r msgs);
       (r, prs, msgs) \<leftarrow> for_each_peer f self_id prs r msgs;
       Some (r, (i, pr) # prs, msgs)
     }"

definition bcast ::
  "(u64 \<Rightarrow> progress \<Rightarrow> 's raft \<Rightarrow> message list \<Rightarrow> ('s raft \<times> progress \<times> message list) option) \<Rightarrow> 's raft \<Rightarrow> 's raft option" where
  "bcast f r =
     do {
       (r', prs, msgs) \<leftarrow> for_each_peer f (rc_id r) (tr_progress (r_prs r)) r (r_msgs r);
       Some (r'\<lparr>r_prs := (r_prs r)\<lparr>tr_progress := prs\<rparr>, r_msgs := msgs\<rparr>)
     }"

definition bcast_append :: "'s env \<Rightarrow> 's raft \<Rightarrow> 's raft option" where
  "bcast_append E r = bcast (\<lambda>i pr r msgs. send_append E r i pr msgs) r"

definition bcast_heartbeat_with_ctx :: "'s raft \<Rightarrow> bytes option \<Rightarrow> 's raft option" where
  "bcast_heartbeat_with_ctx r ctx =
     bcast (\<lambda>i pr r msgs. do { msgs \<leftarrow> send_heartbeat r i pr ctx msgs; Some (r, pr, msgs) }) r"

definition bcast_heartbeat :: "'s raft \<Rightarrow> 's raft option" where
  "bcast_heartbeat r = bcast_heartbeat_with_ctx r (last_pending_request_ctx (rc_read_only r))"

definition ping :: "'s raft \<Rightarrow> 's raft option" where
  "ping r = (if rc_state r = Leader then bcast_heartbeat r else Some r)"

section \<open>Commit and append\<close>

definition raft_maybe_commit :: "'s env \<Rightarrow> 's raft \<Rightarrow> (bool \<times> 's raft) option" where
  "raft_maybe_commit E r =
     do {
       (mci, _) \<leftarrow> maximal_committed_index (r_prs r);
       (b, l) \<leftarrow> log_maybe_commit E (rc_raft_log r) mci (rc_term r);
       let r = r\<lparr>rc_raft_log := l\<rparr>;
       if b then do {
         pr \<leftarrow> tracker_get (r_prs r) (rc_id r);
         Some (True, put_progress r (rc_id r) (progress_update_committed pr (rc_committed r)))
       }
       else Some (False, r)
     }"

definition raft_enable_group_commit :: "'s env \<Rightarrow> 's raft \<Rightarrow> bool \<Rightarrow> 's raft option" where
  "raft_enable_group_commit E r enable =
     do {
       let r = r\<lparr>r_prs := tracker_enable_group_commit (r_prs r) enable\<rparr>;
       if rc_state r = Leader \<and> \<not> enable then do {
         (b, r) \<leftarrow> raft_maybe_commit E r;
         if b then bcast_append E r else Some r
       }
       else Some r
     }"

fun assign_groups :: "(u64 \<times> u64) list \<Rightarrow> progress_tracker \<Rightarrow> progress_tracker option" where
  "assign_groups [] t = Some t"
| "assign_groups ((peer_id, group_id) # ids) t =
     do {
       rust_assert (group_id > 0);
       assign_groups ids
         (case tracker_get t peer_id of
            None \<Rightarrow> t
          | Some pr \<Rightarrow> tracker_put t peer_id (pr\<lparr>pr_commit_group_id := group_id\<rparr>))
     }"

definition assign_commit_groups :: "'s env \<Rightarrow> 's raft \<Rightarrow> (u64 \<times> u64) list \<Rightarrow> 's raft option" where
  "assign_commit_groups E r ids =
     do {
       t \<leftarrow> assign_groups ids (r_prs r);
       let r = r\<lparr>r_prs := t\<rparr>;
       if rc_state r = Leader \<and> tr_group_commit (r_prs r) then do {
         (b, r) \<leftarrow> raft_maybe_commit E r;
         if b then bcast_append E r else Some r
       }
       else Some r
     }"

definition clear_commit_group :: "'s raft \<Rightarrow> 's raft" where
  "clear_commit_group r =
     r\<lparr>r_prs := (r_prs r)\<lparr>tr_progress := hmap_map (\<lambda>_ pr. pr\<lparr>pr_commit_group_id := 0\<rparr>) (tr_progress (r_prs r))\<rparr>\<rparr>"

definition check_group_commit_consistent :: "'s env \<Rightarrow> 's raft \<Rightarrow> bool option option" where
  "check_group_commit_consistent E r =
     (if rc_state r \<noteq> Leader then Some None
      else do {
        a \<leftarrow> apply_to_current_term E r;
        if \<not> a then Some None
        else do {
          (index, use_group_commit) \<leftarrow> maximal_committed_index (r_prs r);
          Some (Some (use_group_commit \<and> index = rc_committed r))
        }
      })"

text \<open>The loop of \<open>append_entry\<close> that gives the entries their terms and indices.\<close>

fun number_entries :: "u64 \<Rightarrow> u64 \<Rightarrow> nat \<Rightarrow> entry list \<Rightarrow> entry list option" where
  "number_entries term li i [] = Some []"
| "number_entries term li i (e # es) =
     do {
       a \<leftarrow> u64_add li 1;
       index \<leftarrow> u64_add a i;
       es \<leftarrow> number_entries term li (i + 1) es;
       Some (e\<lparr>e_term := term, e_index := index\<rparr> # es)
     }"

definition append_entry :: "'s env \<Rightarrow> 's raft \<Rightarrow> entry list \<Rightarrow> (bool \<times> 's raft) option" where
  "append_entry E r es =
     do {
       (ok, u) \<leftarrow> maybe_increase_uncommitted_size (rc_uncommitted_state r) es;
       let r = r\<lparr>rc_uncommitted_state := u\<rparr>;
       if \<not> ok then Some (False, r)
       else do {
         li \<leftarrow> log_last_index E (rc_raft_log r);
         es \<leftarrow> number_entries (rc_term r) li 0 es;
         (_, l) \<leftarrow> log_append E (rc_raft_log r) es;
         Some (True, r\<lparr>rc_raft_log := l\<rparr>)
       }
     }"

definition commit_apply_internal :: "'s env \<Rightarrow> 's raft \<Rightarrow> u64 \<Rightarrow> bool \<Rightarrow> 's raft option" where
  "commit_apply_internal E r applied skip_check =
     do {
       let old_applied = rl_applied (rc_raft_log r);
       l \<leftarrow>
         (if \<not> skip_check then applied_to (rc_raft_log r) applied
          else do { rust_assert (applied > 0); Some (applied_to_unchecked (rc_raft_log r) applied) });
       let r = r\<lparr>rc_raft_log := l\<rparr>;
       if cfg_auto_leave (tr_conf (r_prs r)) \<and> old_applied \<le> rc_pending_conf_index r
          \<and> applied \<ge> rc_pending_conf_index r \<and> rc_state r = Leader
       then do {
         (ok, r) \<leftarrow> append_entry E r [default_entry\<lparr>e_type := EntryConfChangeV2\<rparr>];
         rust_assert ok;
         li \<leftarrow> log_last_index E (rc_raft_log r);
         Some (r\<lparr>rc_pending_conf_index := li\<rparr>)
       }
       else Some r
     }"

definition commit_apply :: "'s env \<Rightarrow> 's raft \<Rightarrow> u64 \<Rightarrow> 's raft option" where
  "commit_apply E r applied = commit_apply_internal E r applied False"

definition on_persist_entries :: "'s env \<Rightarrow> 's raft \<Rightarrow> u64 \<Rightarrow> u64 \<Rightarrow> 's raft option" where
  "on_persist_entries E r index term =
     do {
       (update, l) \<leftarrow> log_maybe_persist E (rc_raft_log r) index term;
       let r = r\<lparr>rc_raft_log := l\<rparr>;
       if update \<and> rc_state r = Leader then do {
         pr \<leftarrow> tracker_get (r_prs r) (rc_id r);
         (pr, b) \<leftarrow> progress_maybe_update pr index;
         let r = put_progress r (rc_id r) pr;
         if b then do {
           (b, r) \<leftarrow> raft_maybe_commit E r;
           if b \<and> should_bcast_commit r then bcast_append E r else Some r
         }
         else Some r
       }
       else Some r
     }"

definition on_persist_snap :: "'s raft \<Rightarrow> u64 \<Rightarrow> 's raft option" where
  "on_persist_snap r index =
     do { (_, l) \<leftarrow> log_maybe_persist_snap (rc_raft_log r) index; Some (r\<lparr>rc_raft_log := l\<rparr>) }"

section \<open>Role changes\<close>

definition gen_range :: "'s env \<Rightarrow> nat \<Rightarrow> usize \<Rightarrow> usize \<Rightarrow> usize option" where
  "gen_range E n lo hi = (if lo < hi then Some (lo + rng_draw E n mod (hi - lo)) else None)"

definition reset_randomized_election_timeout :: "'s env \<Rightarrow> 's raft \<Rightarrow> 's raft option" where
  "reset_randomized_election_timeout E r =
     do {
       timeout \<leftarrow> gen_range E (rc_rng r) (rc_min_election_timeout r) (rc_max_election_timeout r);
       Some (r\<lparr>rc_randomized_election_timeout := timeout, rc_rng := rc_rng r + 1\<rparr>)
     }"

definition abort_leader_transfer :: "'s raft \<Rightarrow> 's raft" where
  "abort_leader_transfer r = r\<lparr>rc_lead_transferee := None\<rparr>"

text \<open>The loop of \<open>reset\<close> over the progress of every member.\<close>

definition reset_progress :: "u64 \<Rightarrow> u64 \<Rightarrow> u64 \<Rightarrow> u64 \<Rightarrow> progress_map \<Rightarrow> progress_map option" where
  "reset_progress self_id last_index persisted committed prs =
     (if prs = [] then Some []
      else do {
        nxt \<leftarrow> u64_add last_index 1;
        Some (hmap_map (\<lambda>i pr.
          let pr = progress_reset pr nxt
          in if i = self_id then pr\<lparr>pr_matched := persisted, pr_committed_index := committed\<rparr> else pr) prs)
      })"

definition raft_reset :: "'s env \<Rightarrow> 's raft \<Rightarrow> u64 \<Rightarrow> 's raft option" where
  "raft_reset E r term =
     do {
       let r = (if rc_term r \<noteq> term then r\<lparr>rc_term := term, rc_vote := INVALID_ID\<rparr> else r);
       let r = r\<lparr>rc_leader_id := INVALID_ID\<rparr>;
       r \<leftarrow> reset_randomized_election_timeout E r;
       let r = r\<lparr>rc_election_elapsed := 0, rc_heartbeat_elapsed := 0\<rparr>;
       let r = abort_leader_transfer r;
       let r = r\<lparr>r_prs := tracker_reset_votes (r_prs r)\<rparr>;
       let r = r\<lparr>rc_pending_conf_index := 0, rc_read_only := read_only_new (ro_option (rc_read_only r)),
                 rc_pending_request_snapshot := INVALID_INDEX\<rparr>;
       last_index \<leftarrow> log_last_index E (rc_raft_log r);
       prs \<leftarrow> reset_progress (rc_id r) last_index (rl_persisted (rc_raft_log r)) (rc_committed r) (tr_progress (r_prs r));
       Some (r\<lparr>r_prs := (r_prs r)\<lparr>tr_progress := prs\<rparr>\<rparr>)
     }"

definition become_follower :: "'s env \<Rightarrow> 's raft \<Rightarrow> u64 \<Rightarrow> u64 \<Rightarrow> 's raft option" where
  "become_follower E r term leader_id =
     do {
       let pending_request_snapshot = rc_pending_request_snapshot r;
       r \<leftarrow> raft_reset E r term;
       Some (set_max_apply_unpersisted_log_limit
         (r\<lparr>rc_leader_id := leader_id, rc_state := Follower, rc_pending_request_snapshot := pending_request_snapshot\<rparr>) 0)
     }"

definition become_candidate :: "'s env \<Rightarrow> 's raft \<Rightarrow> 's raft option" where
  "become_candidate E r =
     do {
       rust_assert (rc_state r \<noteq> Leader);
       term \<leftarrow> u64_add (rc_term r) 1;
       r \<leftarrow> raft_reset E r term;
       Some (r\<lparr>rc_vote := rc_id r, rc_state := Candidate\<rparr>)
     }"

definition become_pre_candidate :: "'s raft \<Rightarrow> 's raft option" where
  "become_pre_candidate r =
     do {
       rust_assert (rc_state r \<noteq> Leader);
       Some (r\<lparr>rc_state := PreCandidate, r_prs := tracker_reset_votes (r_prs r), rc_leader_id := INVALID_ID\<rparr>)
     }"

definition become_leader :: "'s env \<Rightarrow> 's raft \<Rightarrow> 's raft option" where
  "become_leader E r =
     do {
       rust_assert (rc_state r \<noteq> Follower);
       r \<leftarrow> raft_reset E r (rc_term r);
       let r = r\<lparr>rc_leader_id := rc_id r, rc_state := Leader\<rparr>;
       last_index \<leftarrow> log_last_index E (rc_raft_log r);
       rust_assert (last_index = rl_persisted (rc_raft_log r));
       let r = r\<lparr>rc_uncommitted_state := (rc_uncommitted_state r)\<lparr>us_uncommitted_size := 0, us_last_log_tail_index := last_index\<rparr>\<rparr>;
       pr \<leftarrow> tracker_get (r_prs r) (rc_id r);
       pr \<leftarrow> progress_become_replicate pr;
       let r = (put_progress r (rc_id r) pr)\<lparr>rc_pending_conf_index := last_index\<rparr>;
       (ok, r) \<leftarrow> append_entry E r [default_entry];
       rust_assert ok;
       Some r
     }"

section \<open>Elections\<close>

definition send_vote_request ::
  "'s env \<Rightarrow> 's raft \<Rightarrow> bytes \<Rightarrow> message_type \<Rightarrow> u64 \<Rightarrow> u64 \<Rightarrow> u64 \<Rightarrow> u64 \<Rightarrow> message list \<Rightarrow> message list option" where
  "send_vote_request E r campaign_type vote_msg term commit commit_term i msgs =
     (if i = rc_id r then Some msgs
      else do {
        last_index \<leftarrow> log_last_index E (rc_raft_log r);
        last_term \<leftarrow> log_last_term E (rc_raft_log r);
        let m = (new_message i vote_msg None)\<lparr>m_term := term, m_index := last_index, m_log_term := last_term,
                   m_commit := commit, m_commit_term := commit_term\<rparr>;
        let m = (if campaign_type = CAMPAIGN_TRANSFER then m\<lparr>m_context := campaign_type\<rparr> else m);
        send r m msgs
      })"

definition begin_campaign :: "'s env \<Rightarrow> 's raft \<Rightarrow> bytes \<Rightarrow> (message_type \<times> u64 \<times> 's raft) option" where
  "begin_campaign E r campaign_type =
     (if campaign_type = CAMPAIGN_PRE_ELECTION then do {
        r \<leftarrow> become_pre_candidate r;
        term \<leftarrow> u64_add (rc_term r) 1;
        Some (MsgRequestPreVote, term, r)
      }
      else do {
        r \<leftarrow> become_candidate E r;
        Some (MsgRequestVote, rc_term r, r)
      })"

lemma begin_campaign_state:
  "begin_campaign E r ct = Some (t, u, r') \<Longrightarrow> rc_state r' = (if ct = CAMPAIGN_PRE_ELECTION then PreCandidate else Candidate)"
  by (auto simp: begin_campaign_def become_pre_candidate_def become_candidate_def bind_eq_Some_conv split: if_splits)

lemma campaign_types [simp]: "CAMPAIGN_ELECTION \<noteq> CAMPAIGN_PRE_ELECTION" "CAMPAIGN_TRANSFER \<noteq> CAMPAIGN_PRE_ELECTION"
  by (simp_all add: CAMPAIGN_ELECTION_def CAMPAIGN_PRE_ELECTION_def CAMPAIGN_TRANSFER_def)

function campaign :: "'s env \<Rightarrow> 's raft \<Rightarrow> bytes \<Rightarrow> 's raft option"
  and poll :: "'s env \<Rightarrow> 's raft \<Rightarrow> u64 \<Rightarrow> message_type \<Rightarrow> bool \<Rightarrow> (vote_result \<times> 's raft) option" where
  "campaign E r campaign_type =
     do {
       (vote_msg, term, r) \<leftarrow> begin_campaign E r campaign_type;
       (res, r) \<leftarrow> poll E r (rc_id r) vote_msg True;
       if res = Won then Some r
       else do {
         (commit, commit_term) \<leftarrow> commit_info E (rc_raft_log r);
         msgs \<leftarrow> fold_panic (send_vote_request E r campaign_type vote_msg term commit commit_term)
           (union_iter (joint_ids (cfg_voters (tr_conf (r_prs r))))) (r_msgs r);
         Some (r\<lparr>r_msgs := msgs\<rparr>)
       }
     }"
| "poll E r from ty vote =
     do {
       let r = r\<lparr>r_prs := record_vote (r_prs r) from vote\<rparr>;
       let (gr, rj, res) = tally_votes (r_prs r);
       r \<leftarrow>
         (case res of
            Won \<Rightarrow>
              if rc_state r = PreCandidate then campaign E r CAMPAIGN_ELECTION
              else do { r \<leftarrow> become_leader E r; bcast_append E r }
          | Lost \<Rightarrow> become_follower E r (rc_term r) INVALID_ID
          | Pending \<Rightarrow> Some r);
       Some (res, r)
     }"
  by pat_completeness auto
termination
  by (relation "measure (case_sum (\<lambda>(_, _, ct). if ct = CAMPAIGN_PRE_ELECTION then 3 else 1)
        (\<lambda>(_, r, _). if rc_state r = PreCandidate then 2 else 0))")
    (auto dest!: begin_campaign_state split: if_splits)

declare campaign.simps [simp del] poll.simps [simp del]

end
