(* ===== verification/Raft_Step.thy ===== *)
theory Raft_Step
  imports Raft
begin

text \<open>
  \<open>src/raft.rs\<close> continued: the handlers of messages for each role, \<open>step\<close>, the clock, snapshots
  and membership changes, and the construction of a node.
\<close>

section \<open>Reads\<close>

definition handle_ready_read_index :: "'s raft \<Rightarrow> message \<Rightarrow> u64 \<Rightarrow> (message option \<times> 's raft) option" where
  "handle_ready_read_index r req index =
     (if m_from req = INVALID_ID \<or> m_from req = rc_id r then do {
        e \<leftarrow> vec_get (m_entries req) 0;
        let rs = \<lparr>rs_index = index, rs_request_ctx = e_data e\<rparr>;
        Some (None, r\<lparr>rc_read_states := rc_read_states r @ [rs]\<rparr>)
      }
      else
        Some (Some (default_message\<lparr>m_type := MsgReadIndexResp, m_to := m_from req, m_index := index,
                      m_entries := m_entries req\<rparr>), r))"

definition respond_read :: "'s raft \<Rightarrow> message \<Rightarrow> u64 \<Rightarrow> 's raft option" where
  "respond_read r req index =
     do {
       (resp, r) \<leftarrow> handle_ready_read_index r req index;
       (case resp of None \<Rightarrow> Some r | Some m \<Rightarrow> raft_send r m)
     }"

text \<open>The requests that an acknowledged context releases.\<close>

definition respond_reads :: "'s raft \<Rightarrow> bytes \<Rightarrow> 's raft option" where
  "respond_reads r ctx =
     do {
       (rss, ro) \<leftarrow> advance (rc_read_only r) ctx;
       fold_panic (\<lambda>rs r. respond_read r (ri_req rs) (ri_index rs)) rss (r\<lparr>rc_read_only := ro\<rparr>)
     }"

section \<open>Small senders\<close>

definition send_timeout_now :: "'s raft \<Rightarrow> u64 \<Rightarrow> 's raft option" where
  "send_timeout_now r to = raft_send r (new_message to MsgTimeoutNow None)"

definition send_request_snapshot :: "'s env \<Rightarrow> 's raft \<Rightarrow> 's raft option" where
  "send_request_snapshot E r =
     do {
       hint \<leftarrow> log_last_index E (rc_raft_log r);
       t \<leftarrow> log_term E (rc_raft_log r) hint;
       log_term \<leftarrow> unwrap t;
       raft_send r (default_message\<lparr>m_type := MsgAppendResponse, m_index := rc_committed r, m_reject := True,
         m_reject_hint := hint, m_to := rc_leader_id r, m_request_snapshot := rc_pending_request_snapshot r,
         m_log_term := log_term\<rparr>)
     }"

definition request_snapshot :: "'s env \<Rightarrow> 's raft \<Rightarrow> (unit result \<times> 's raft) option" where
  "request_snapshot E r =
     (if rc_state r = Leader \<or> rc_leader_id r = INVALID_ID \<or> raft_snap r \<noteq> None
         \<or> rc_pending_request_snapshot r \<noteq> INVALID_INDEX
      then Some (Inl RequestSnapshotDropped, r)
      else do {
        request_index \<leftarrow> log_last_index E (rc_raft_log r);
        t \<leftarrow> log_term E (rc_raft_log r) request_index;
        request_index_term \<leftarrow> unwrap t;
        if rc_term r = request_index_term then do {
          r \<leftarrow> send_request_snapshot E (r\<lparr>rc_pending_request_snapshot := request_index\<rparr>);
          Some (Inr (), r)
        }
        else Some (Inl RequestSnapshotDropped, r)
      })"

section \<open>Pending membership changes\<close>

definition is_conf_change :: "entry \<Rightarrow> bool" where
  "is_conf_change e \<longleftrightarrow> e_type e = EntryConfChange \<or> e_type e = EntryConfChangeV2"

definition has_unapplied_conf_changes ::
  "'s env \<Rightarrow> 's raft \<Rightarrow> u64 \<Rightarrow> u64 \<Rightarrow> get_entries_for \<Rightarrow> (bool \<times> 's raft) option" where
  "has_unapplied_conf_changes E r lo hi context =
     (if rl_applied (rc_raft_log r) \<ge> rc_committed r then Some (False, r)
      else do {
        (res, found, l) \<leftarrow> log_scan E (rc_raft_log r) lo hi (rc_max_committed_size_per_ready r) context
          (\<lambda>ents found. if list_ex is_conf_change ents then (False, True) else (True, found)) False;
        unwrap res;
        Some (found, r\<lparr>rc_raft_log := l\<rparr>)
      })"

definition hup :: "'s env \<Rightarrow> 's raft \<Rightarrow> bool \<Rightarrow> 's raft option" where
  "hup E r transfer_leader =
     (if rc_state r = Leader then Some r
      else do {
        first \<leftarrow> maybe_first_index (rl_unstable (rc_raft_log r));
        low \<leftarrow> (case first of Some idx \<Rightarrow> Some idx | None \<Rightarrow> u64_add (rl_applied (rc_raft_log r)) 1);
        high \<leftarrow> u64_add (rc_committed r) 1;
        (pending, r) \<leftarrow> has_unapplied_conf_changes E r low high TransferLeader;
        if pending then Some r
        else if transfer_leader then campaign E r CAMPAIGN_TRANSFER
        else if rc_pre_vote r then campaign E r CAMPAIGN_PRE_ELECTION
        else campaign E r CAMPAIGN_ELECTION
      })"

definition maybe_commit_by_vote :: "'s env \<Rightarrow> 's raft \<Rightarrow> message \<Rightarrow> 's raft option" where
  "maybe_commit_by_vote E r m =
     (if m_commit m = 0 \<or> m_commit_term m = 0 then Some r
      else do {
        let last_commit = rc_committed r;
        if m_commit m \<le> last_commit \<or> rc_state r = Leader then Some r
        else do {
          (b, l) \<leftarrow> log_maybe_commit E (rc_raft_log r) (m_commit m) (m_commit_term m);
          let r = r\<lparr>rc_raft_log := l\<rparr>;
          if \<not> b then Some r
          else if rc_state r \<noteq> Candidate \<and> rc_state r \<noteq> PreCandidate then Some r
          else do {
            low \<leftarrow> u64_add last_commit 1;
            high \<leftarrow> u64_add (rc_committed r) 1;
            (pending, r) \<leftarrow> has_unapplied_conf_changes E r low high CommitByVote;
            if pending then become_follower E r (rc_term r) INVALID_ID else Some r
          }
        }
      })"

section \<open>Handlers of a leader\<close>

definition append_acked :: "progress \<Rightarrow> message \<Rightarrow> progress option" where
  "append_acked pr m =
     (case pr_state pr of
        Probe \<Rightarrow> progress_become_replicate pr
      | Snapshot \<Rightarrow> if progress_is_snapshot_caught_up pr then progress_become_probe pr else Some pr
      | Replicate \<Rightarrow> do { ins \<leftarrow> inflights_free_to (pr_ins pr) (m_index m); Some (pr\<lparr>pr_ins := ins\<rparr>) })"

definition handle_append_response :: "'s env \<Rightarrow> 's raft \<Rightarrow> message \<Rightarrow> 's raft option" where
  "handle_append_response E r m =
     do {
       next_probe_index \<leftarrow>
         (if m_reject m \<and> m_log_term m > 0
          then do { (i, _) \<leftarrow> find_conflict_by_term E (rc_raft_log r) (m_reject_hint m) (m_log_term m); Some i }
          else Some (m_reject_hint m));
       (case tracker_get (r_prs r) (m_from m) of
          None \<Rightarrow> Some r
        | Some pr \<Rightarrow> do {
            let pr = progress_update_committed (pr\<lparr>pr_recent_active := True\<rparr>) (m_commit m);
            if m_reject m then do {
              (pr, b) \<leftarrow> progress_maybe_decr_to pr (m_index m) next_probe_index (m_request_snapshot m);
              if b then do {
                pr \<leftarrow> (if pr_state pr = Replicate then progress_become_probe pr else Some pr);
                raft_send_append E (put_progress r (m_from m) pr) (m_from m)
              }
              else Some (put_progress r (m_from m) pr)
            }
            else do {
              let old_paused = progress_is_paused pr;
              (pr, b) \<leftarrow> progress_maybe_update pr (m_index m);
              if \<not> b then Some (put_progress r (m_from m) pr)
              else do {
                pr \<leftarrow> append_acked pr m;
                (b, r) \<leftarrow> raft_maybe_commit E (put_progress r (m_from m) pr);
                r \<leftarrow>
                  (if b then (if should_bcast_commit r then bcast_append E r else Some r)
                   else if old_paused then raft_send_append E r (m_from m)
                   else Some r);
                r \<leftarrow> raft_send_append_aggressively E r (m_from m);
                if rc_lead_transferee r = Some (m_from m) then do {
                  last_index \<leftarrow> log_last_index E (rc_raft_log r);
                  pr \<leftarrow> tracker_get (r_prs r) (m_from m);
                  if pr_matched pr = last_index then send_timeout_now r (m_from m) else Some r
                }
                else Some r
              }
            }
          })
     }"

definition handle_heartbeat_response :: "'s env \<Rightarrow> 's raft \<Rightarrow> message \<Rightarrow> 's raft option" where
  "handle_heartbeat_response E r m =
     (case tracker_get (r_prs r) (m_from m) of
        None \<Rightarrow> Some r
      | Some pr \<Rightarrow> do {
          let pr = progress_resume ((progress_update_committed pr (m_commit m))\<lparr>pr_recent_active := True\<rparr>);
          pr \<leftarrow>
            (if pr_state pr = Replicate \<and> inflights_full (pr_ins pr)
             then do { ins \<leftarrow> inflights_free_first_one (pr_ins pr); Some (pr\<lparr>pr_ins := ins\<rparr>) }
             else Some pr);
          last_index \<leftarrow> log_last_index E (rc_raft_log r);
          r \<leftarrow>
            (if pr_matched pr < last_index \<or> pr_pending_request_snapshot pr \<noteq> INVALID_INDEX
             then raft_send_append E (put_progress r (m_from m) pr) (m_from m)
             else Some (put_progress r (m_from m) pr));
          if ro_option (rc_read_only r) \<noteq> Safe \<or> m_context m = [] then Some r
          else
            (let (acks, ro) = recv_ack (rc_read_only r) (m_from m) (m_context m);
                 r = r\<lparr>rc_read_only := ro\<rparr>
             in case acks of
                  None \<Rightarrow> Some r
                | Some acks \<Rightarrow> if has_quorum (r_prs r) acks then respond_reads r (m_context m) else Some r)
        })"

definition handle_transfer_leader :: "'s env \<Rightarrow> 's raft \<Rightarrow> message \<Rightarrow> 's raft option" where
  "handle_transfer_leader E r m =
     (if tracker_get (r_prs r) (m_from m) = None then Some r
      else if m_from m \<in> set (cfg_learners (tr_conf (r_prs r))) then Some r
      else if rc_lead_transferee r = Some (m_from m) then Some r
      else do {
        let r = (if rc_lead_transferee r \<noteq> None then abort_leader_transfer r else r);
        if m_from m = rc_id r then Some r
        else do {
          let r = r\<lparr>rc_election_elapsed := 0, rc_lead_transferee := Some (m_from m)\<rparr>;
          pr \<leftarrow> tracker_get (r_prs r) (m_from m);
          last_index \<leftarrow> log_last_index E (rc_raft_log r);
          if pr_matched pr = last_index then send_timeout_now r (m_from m)
          else raft_send_append E r (m_from m)
        }
      })"

definition handle_snapshot_status :: "'s raft \<Rightarrow> message \<Rightarrow> 's raft option" where
  "handle_snapshot_status r m =
     (case tracker_get (r_prs r) (m_from m) of
        None \<Rightarrow> Some r
      | Some pr \<Rightarrow>
          if pr_state pr \<noteq> Snapshot then Some r
          else do {
            pr \<leftarrow> progress_become_probe (if m_reject m then progress_snapshot_failure pr else pr);
            let pr = (progress_pause pr)\<lparr>pr_pending_request_snapshot := INVALID_INDEX\<rparr>;
            Some (put_progress r (m_from m) pr)
          })"

definition handle_unreachable :: "'s raft \<Rightarrow> message \<Rightarrow> 's raft option" where
  "handle_unreachable r m =
     (case tracker_get (r_prs r) (m_from m) of
        None \<Rightarrow> Some r
      | Some pr \<Rightarrow>
          if pr_state pr = Replicate then do {
            pr \<leftarrow> progress_become_probe pr;
            Some (put_progress r (m_from m) pr)
          }
          else Some r)"

definition check_quorum_active :: "'s raft \<Rightarrow> bool \<times> 's raft" where
  "check_quorum_active r =
     (let (t, b) = quorum_recently_active (r_prs r) (rc_id r) in (b, r\<lparr>r_prs := t\<rparr>))"

text \<open>
  The loop of a proposal over its entries: a membership change that may not be proposed now is
  replaced by an empty entry, one that may is remembered as pending, and one that cannot be decoded
  drops the proposal.
\<close>

definition proposed_change :: "'s env \<Rightarrow> entry \<Rightarrow> (string + conf_change_v2) option" where
  "proposed_change E e =
     (case e_type e of
        EntryConfChange \<Rightarrow>
          Some (case pb_read_conf_change E (e_data e) of Inl err \<Rightarrow> Inl err | Inr cc \<Rightarrow> Inr (conf_change_into_v2 cc))
      | EntryConfChangeV2 \<Rightarrow> Some (pb_read_conf_change_v2 E (e_data e))
      | EntryNormal \<Rightarrow> None)"

definition refuses_change :: "'s raft \<Rightarrow> conf_change_v2 \<Rightarrow> bool" where
  "refuses_change r cc \<longleftrightarrow>
     has_pending_conf r
     \<or> (joint (tr_conf (r_prs r)) \<and> cc2_changes cc \<noteq> [])
     \<or> (\<not> joint (tr_conf (r_prs r)) \<and> cc2_changes cc = [])"

fun propose_entries ::
  "'s env \<Rightarrow> nat \<Rightarrow> entry list \<Rightarrow> 's raft \<Rightarrow> (entry list result \<times> 's raft) option" where
  "propose_entries E i [] r = Some (Inr [], r)"
| "propose_entries E i (e # es) r =
     do {
       step \<leftarrow>
         (case proposed_change E e of
            None \<Rightarrow> Some (Inr (e, r))
          | Some (Inl _) \<Rightarrow> Some (Inl ProposalDropped)
          | Some (Inr cc) \<Rightarrow>
              if refuses_change r cc then Some (Inr (default_entry, r))
              else do {
                li \<leftarrow> log_last_index E (rc_raft_log r);
                a \<leftarrow> u64_add li i;
                b \<leftarrow> u64_add a 1;
                Some (Inr (e, r\<lparr>rc_pending_conf_index := b\<rparr>))
              });
       (case step of
          Inl err \<Rightarrow> Some (Inl err, r)
        | Inr (e, r) \<Rightarrow> do {
            (rest, r) \<leftarrow> propose_entries E (i + 1) es r;
            Some (case rest of Inl err \<Rightarrow> Inl err | Inr es \<Rightarrow> Inr (e # es), r)
          })
     }"

definition leader_propose :: "'s env \<Rightarrow> 's raft \<Rightarrow> message \<Rightarrow> (unit result \<times> 's raft) option" where
  "leader_propose E r m =
     do {
       rust_assert (m_entries m \<noteq> []);
       if \<not> hmap_contains (tr_progress (r_prs r)) (rc_id r) then Some (Inl ProposalDropped, r)
       else if rc_lead_transferee r \<noteq> None then Some (Inl ProposalDropped, r)
       else do {
         (res, r) \<leftarrow> propose_entries E 0 (m_entries m) r;
         (case res of
            Inl err \<Rightarrow> Some (Inl err, r)
          | Inr es \<Rightarrow> do {
              (ok, r) \<leftarrow> append_entry E r es;
              if \<not> ok then Some (Inl ProposalDropped, r)
              else do { r \<leftarrow> bcast_append E r; Some (Inr (), r) }
            })
       }
     }"

definition leader_read_index :: "'s env \<Rightarrow> 's raft \<Rightarrow> message \<Rightarrow> 's raft option" where
  "leader_read_index E r m =
     do {
       c \<leftarrow> commit_to_current_term E r;
       if \<not> c then Some r
       else if tracker_is_singleton (r_prs r) then respond_read r m (rc_committed r)
       else
         (case ro_option (rc_read_only r) of
            Safe \<Rightarrow> do {
              e \<leftarrow> vec_get (m_entries m) 0;
              ro \<leftarrow> add_request (rc_read_only r) (rc_committed r) m (rc_id r);
              bcast_heartbeat_with_ctx (r\<lparr>rc_read_only := ro\<rparr>) (Some (e_data e))
            }
          | LeaseBased \<Rightarrow> respond_read r m (rc_committed r))
     }"

definition ok_step :: "'s raft option \<Rightarrow> (unit result \<times> 's raft) option" where
  "ok_step m = do { r \<leftarrow> m; Some (Inr (), r) }"

definition step_leader :: "'s env \<Rightarrow> 's raft \<Rightarrow> message \<Rightarrow> (unit result \<times> 's raft) option" where
  "step_leader E r m =
     (case m_type m of
        MsgBeat \<Rightarrow> ok_step (bcast_heartbeat r)
      | MsgCheckQuorum \<Rightarrow>
          (let (active, r) = check_quorum_active r
           in ok_step (if \<not> active then become_follower E r (rc_term r) INVALID_ID else Some r))
      | MsgPropose \<Rightarrow> leader_propose E r m
      | MsgReadIndex \<Rightarrow> ok_step (leader_read_index E r m)
      | MsgAppendResponse \<Rightarrow> ok_step (handle_append_response E r m)
      | MsgHeartbeatResponse \<Rightarrow> ok_step (handle_heartbeat_response E r m)
      | MsgSnapStatus \<Rightarrow> ok_step (handle_snapshot_status r m)
      | MsgUnreachable \<Rightarrow> ok_step (handle_unreachable r m)
      | MsgTransferLeader \<Rightarrow> ok_step (handle_transfer_leader E r m)
      | _ \<Rightarrow> Some (Inr (), r))"

section \<open>Membership and snapshots\<close>

definition post_conf_change :: "'s env \<Rightarrow> 's raft \<Rightarrow> (conf_state \<times> 's raft) option" where
  "post_conf_change E r =
     do {
       let cs = to_conf_state (tr_conf (r_prs r));
       let is_voter = joint_contains (cfg_voters (tr_conf (r_prs r))) (rc_id r);
       let r = r\<lparr>rc_promotable := is_voter\<rparr>;
       if \<not> is_voter \<and> rc_state r = Leader then Some (cs, r)
       else if rc_state r \<noteq> Leader \<or> cs_voters cs = [] then Some (cs, r)
       else do {
         (b, r) \<leftarrow> raft_maybe_commit E r;
         r \<leftarrow>
           (if b then bcast_append E r
            else bcast (\<lambda>i pr r msgs. do {
                   (_, r, pr, msgs) \<leftarrow> maybe_send_append E r i pr False msgs;
                   Some (r, pr, msgs)
                 }) r);
         r \<leftarrow>
           (case last_pending_request_ctx (rc_read_only r) of
              None \<Rightarrow> Some r
            | Some ctx \<Rightarrow>
                (let (acks, ro) = recv_ack (rc_read_only r) (rc_id r) ctx;
                     r = r\<lparr>rc_read_only := ro\<rparr>
                 in case acks of
                      None \<Rightarrow> Some r
                    | Some acks \<Rightarrow> if has_quorum (r_prs r) acks then respond_reads r ctx else Some r));
         Some (cs,
           (case rc_lead_transferee r of
              None \<Rightarrow> r
            | Some e \<Rightarrow>
                if \<not> joint_contains (cfg_voters (tr_conf (r_prs r))) e then abort_leader_transfer r else r))
       }
     }"

definition apply_conf_change :: "'s env \<Rightarrow> 's raft \<Rightarrow> conf_change_v2 \<Rightarrow> (conf_state result \<times> 's raft) option" where
  "apply_conf_change E r cc =
     (case (if cc2_leave_joint cc then leave_joint (r_prs r)
            else case cc2_enter_joint cc of
                   Some auto_leave \<Rightarrow> enter_joint (r_prs r) auto_leave (cc2_changes cc)
                 | None \<Rightarrow> simple (r_prs r) (cc2_changes cc)) of
        Inl e \<Rightarrow> Some (Inl e, r)
      | Inr (cfg, changes) \<Rightarrow> do {
          li \<leftarrow> log_last_index E (rc_raft_log r);
          (cs, r) \<leftarrow> post_conf_change E (r\<lparr>r_prs := apply_conf (r_prs r) cfg changes li\<rparr>);
          Some (Inr cs, r)
        })"

text \<open>The configuration part of \<open>restore\<close>, once the log holds the snapshot.\<close>

definition restore_tracker :: "'s env \<Rightarrow> 's raft \<Rightarrow> conf_state \<Rightarrow> 's raft option" where
  "restore_tracker E r cs =
     do {
       last_index \<leftarrow> log_last_index E (rc_raft_log r);
       let (t, res) = restore_conf (tracker_clear (r_prs r)) last_index cs;
       unwrap res;
       (new_cs, r) \<leftarrow> post_conf_change E (r\<lparr>r_prs := t\<rparr>);
       rust_assert (conf_state_eq cs new_cs);
       pr \<leftarrow> tracker_get (r_prs r) (rc_id r);
       n \<leftarrow> u64_sub (pr_next_idx pr) 1;
       (pr, _) \<leftarrow> progress_maybe_update pr n;
       Some ((put_progress r (rc_id r) pr)\<lparr>rc_pending_request_snapshot := INVALID_INDEX\<rparr>)
     }"

definition raft_restore :: "'s env \<Rightarrow> 's raft \<Rightarrow> snapshot \<Rightarrow> (bool \<times> 's raft) option" where
  "raft_restore E r snap =
     (if snap_index snap < rc_committed r then Some (False, r)
      else if rc_state r \<noteq> Follower then do {
        term \<leftarrow> u64_add (rc_term r) 1;
        r \<leftarrow> become_follower E r term INVALID_INDEX;
        Some (False, r)
      }
      else do {
        let cs = sm_conf_state (sn_metadata snap);
        if list_all (\<lambda>i. i \<noteq> rc_id r) (cs_voters cs @ cs_learners cs @ cs_voters_outgoing cs) then Some (False, r)
        else do {
          same \<leftarrow>
            (if rc_pending_request_snapshot r = INVALID_INDEX
             then match_term E (rc_raft_log r) (snap_index snap) (snap_term snap) else Some False);
          if same then do {
            l \<leftarrow> commit_to E (rc_raft_log r) (snap_index snap);
            Some (False, r\<lparr>rc_raft_log := l\<rparr>)
          }
          else do {
            l \<leftarrow> log_restore (rc_raft_log r) snap;
            r \<leftarrow> restore_tracker E (r\<lparr>rc_raft_log := l\<rparr>) cs;
            Some (True, r)
          }
        }
      })"

section \<open>Handlers of a follower\<close>

definition handle_append_entries :: "'s env \<Rightarrow> 's raft \<Rightarrow> message \<Rightarrow> 's raft option" where
  "handle_append_entries E r m =
     (if rc_pending_request_snapshot r \<noteq> INVALID_INDEX then send_request_snapshot E r
      else if m_index m < rc_committed r then
        raft_send r (default_message\<lparr>m_type := MsgAppendResponse, m_to := m_from m, m_index := rc_committed r,
                       m_commit := rc_committed r\<rparr>)
      else do {
        let to_send = default_message\<lparr>m_to := m_from m, m_type := MsgAppendResponse\<rparr>;
        (res, l) \<leftarrow> maybe_append E (rc_raft_log r) (m_index m) (m_log_term m) (m_commit m) (m_entries m);
        let r = r\<lparr>rc_raft_log := l\<rparr>;
        to_send \<leftarrow>
          (case res of
             Some (_, last_idx) \<Rightarrow> Some (to_send\<lparr>m_index := last_idx\<rparr>)
           | None \<Rightarrow> do {
               last_index \<leftarrow> log_last_index E (rc_raft_log r);
               let hint_index = min (m_index m) last_index;
               (hint_index, hint_term) \<leftarrow> find_conflict_by_term E (rc_raft_log r) hint_index (m_log_term m);
               (case hint_term of
                  None \<Rightarrow> None
                | Some t \<Rightarrow>
                    Some (to_send\<lparr>m_index := m_index m, m_reject := True, m_reject_hint := hint_index, m_log_term := t\<rparr>))
             });
        raft_send r (to_send\<lparr>m_commit := rc_committed r\<rparr>)
      })"

definition handle_heartbeat :: "'s env \<Rightarrow> 's raft \<Rightarrow> message \<Rightarrow> 's raft option" where
  "handle_heartbeat E r m =
     do {
       l \<leftarrow> commit_to E (rc_raft_log r) (m_commit m);
       let r = r\<lparr>rc_raft_log := l\<rparr>;
       if rc_pending_request_snapshot r \<noteq> INVALID_INDEX then send_request_snapshot E r
       else raft_send r (default_message\<lparr>m_type := MsgHeartbeatResponse, m_to := m_from m, m_context := m_context m,
                           m_commit := rc_committed r\<rparr>)
     }"

definition handle_snapshot :: "'s env \<Rightarrow> 's raft \<Rightarrow> message \<Rightarrow> 's raft option" where
  "handle_snapshot E r m =
     do {
       (ok, r) \<leftarrow> raft_restore E r (m_snapshot m);
       index \<leftarrow> (if ok then log_last_index E (rc_raft_log r) else Some (rc_committed r));
       raft_send r (default_message\<lparr>m_type := MsgAppendResponse, m_to := m_from m, m_index := index\<rparr>)
     }"

definition step_candidate :: "'s env \<Rightarrow> 's raft \<Rightarrow> message \<Rightarrow> (unit result \<times> 's raft) option" where
  "step_candidate E r m =
     (case m_type m of
        MsgPropose \<Rightarrow> Some (Inl ProposalDropped, r)
      | MsgAppend \<Rightarrow> ok_step (do {
          rust_assert (rc_term r = m_term m);
          r \<leftarrow> become_follower E r (m_term m) (m_from m);
          handle_append_entries E r m
        })
      | MsgHeartbeat \<Rightarrow> ok_step (do {
          rust_assert (rc_term r = m_term m);
          r \<leftarrow> become_follower E r (m_term m) (m_from m);
          handle_heartbeat E r m
        })
      | MsgSnapshot \<Rightarrow> ok_step (do {
          rust_assert (rc_term r = m_term m);
          r \<leftarrow> become_follower E r (m_term m) (m_from m);
          handle_snapshot E r m
        })
      | t \<Rightarrow>
          if t = MsgRequestPreVoteResponse \<or> t = MsgRequestVoteResponse then
            (if (rc_state r = PreCandidate \<and> t \<noteq> MsgRequestPreVoteResponse)
                \<or> (rc_state r = Candidate \<and> t \<noteq> MsgRequestVoteResponse)
             then Some (Inr (), r)
             else ok_step (do {
               (_, r) \<leftarrow> poll E r (m_from m) t (\<not> m_reject m);
               maybe_commit_by_vote E r m
             }))
          else Some (Inr (), r))"

definition forward_to_leader :: "'s raft \<Rightarrow> message \<Rightarrow> 's raft option" where
  "forward_to_leader r m = raft_send r (m\<lparr>m_to := rc_leader_id r\<rparr>)"

definition step_follower :: "'s env \<Rightarrow> 's raft \<Rightarrow> message \<Rightarrow> (unit result \<times> 's raft) option" where
  "step_follower E r m =
     (case m_type m of
        MsgPropose \<Rightarrow>
          if rc_leader_id r = INVALID_ID then Some (Inl ProposalDropped, r)
          else if rc_disable_proposal_forwarding r then Some (Inl ProposalDropped, r)
          else ok_step (forward_to_leader r m)
      | MsgAppend \<Rightarrow> ok_step (handle_append_entries E (r\<lparr>rc_election_elapsed := 0, rc_leader_id := m_from m\<rparr>) m)
      | MsgHeartbeat \<Rightarrow> ok_step (handle_heartbeat E (r\<lparr>rc_election_elapsed := 0, rc_leader_id := m_from m\<rparr>) m)
      | MsgSnapshot \<Rightarrow> ok_step (handle_snapshot E (r\<lparr>rc_election_elapsed := 0, rc_leader_id := m_from m\<rparr>) m)
      | MsgTransferLeader \<Rightarrow>
          if rc_leader_id r = INVALID_ID then Some (Inr (), r) else ok_step (forward_to_leader r m)
      | MsgTimeoutNow \<Rightarrow> if rc_promotable r then ok_step (hup E r True) else Some (Inr (), r)
      | MsgReadIndex \<Rightarrow>
          if rc_leader_id r = INVALID_ID then Some (Inr (), r) else ok_step (forward_to_leader r m)
      | MsgReadIndexResp \<Rightarrow>
          (case m_entries m of
             [e] \<Rightarrow> do {
               let rs = \<lparr>rs_index = m_index m, rs_request_ctx = e_data e\<rparr>;
               (_, l) \<leftarrow> log_maybe_commit E (rc_raft_log r) (m_index m) (m_term m);
               Some (Inr (), r\<lparr>rc_read_states := rc_read_states r @ [rs], rc_raft_log := l\<rparr>)
             }
           | _ \<Rightarrow> Some (Inr (), r))
      | _ \<Rightarrow> Some (Inr (), r))"

section \<open>step\<close>

definition is_vote_request :: "message_type \<Rightarrow> bool" where
  "is_vote_request t \<longleftrightarrow> t = MsgRequestVote \<or> t = MsgRequestPreVote"

text \<open>
  The term of a message: \<open>(True, r)\<close> goes on with the message, \<open>(False, r)\<close> is the early return.
\<close>

definition step_term :: "'s env \<Rightarrow> 's raft \<Rightarrow> message \<Rightarrow> (bool \<times> 's raft) option" where
  "step_term E r m =
     (if m_term m = 0 then Some (True, r)
      else if m_term m > rc_term r then
        (let force = (m_context m = CAMPAIGN_TRANSFER);
             lease = (rc_check_quorum r \<and> rc_leader_id r \<noteq> INVALID_ID
                        \<and> rc_election_elapsed r < rc_election_timeout r)
         in if is_vote_request (m_type m) \<and> \<not> force \<and> lease then Some (False, r)
            else if m_type m = MsgRequestPreVote
                    \<or> (m_type m = MsgRequestPreVoteResponse \<and> \<not> m_reject m)
            then Some (True, r)
            else do {
              r \<leftarrow>
                (if m_type m = MsgAppend \<or> m_type m = MsgHeartbeat \<or> m_type m = MsgSnapshot
                 then become_follower E r (m_term m) (m_from m)
                 else become_follower E r (m_term m) INVALID_ID);
              Some (True, r)
            })
      else if m_term m < rc_term r then do {
        r \<leftarrow>
          (if (rc_check_quorum r \<or> rc_pre_vote r) \<and> (m_type m = MsgHeartbeat \<or> m_type m = MsgAppend)
           then raft_send r (new_message (m_from m) MsgAppendResponse None)
           else if m_type m = MsgRequestPreVote
           then raft_send r ((new_message (m_from m) MsgRequestPreVoteResponse None)\<lparr>m_term := rc_term r, m_reject := True\<rparr>)
           else Some r);
        Some (False, r)
      }
      else Some (True, r))"

definition can_grant_vote :: "'s env \<Rightarrow> 's raft \<Rightarrow> message \<Rightarrow> bool option" where
  "can_grant_vote E r m =
     (let can_vote =
            rc_vote r = m_from m
            \<or> (rc_vote r = INVALID_ID \<and> rc_leader_id r = INVALID_ID)
            \<or> (m_type m = MsgRequestPreVote \<and> m_term m > rc_term r)
      in if \<not> can_vote then Some False
         else do {
           up \<leftarrow> is_up_to_date E (rc_raft_log r) (m_index m) (m_log_term m);
           if \<not> up then Some False
           else do {
             last_index \<leftarrow> log_last_index E (rc_raft_log r);
             Some (m_index m > last_index \<or> rc_priority r \<le> get_priority m)
           }
         })"

definition step_vote :: "'s env \<Rightarrow> 's raft \<Rightarrow> message \<Rightarrow> 's raft option" where
  "step_vote E r m =
     do {
       grant \<leftarrow> can_grant_vote E r m;
       ty \<leftarrow> vote_resp_msg_type (m_type m);
       let to_send = new_message (m_from m) ty None;
       if grant then do {
         r \<leftarrow> raft_send r (to_send\<lparr>m_reject := False, m_term := m_term m\<rparr>);
         Some (if m_type m = MsgRequestVote then r\<lparr>rc_election_elapsed := 0, rc_vote := m_from m\<rparr> else r)
       }
       else do {
         (commit, commit_term) \<leftarrow> commit_info E (rc_raft_log r);
         r \<leftarrow> raft_send r (to_send\<lparr>m_reject := True, m_term := rc_term r, m_commit := commit, m_commit_term := commit_term\<rparr>);
         maybe_commit_by_vote E r m
       }
     }"

definition step :: "'s env \<Rightarrow> 's raft \<Rightarrow> message \<Rightarrow> (unit result \<times> 's raft) option" where
  "step E r m =
     do {
       (go, r) \<leftarrow> step_term E r m;
       if \<not> go then Some (Inr (), r)
       else if m_type m = MsgHup then ok_step (hup E r False)
       else if is_vote_request (m_type m) then ok_step (step_vote E r m)
       else
         (case rc_state r of
            PreCandidate \<Rightarrow> step_candidate E r m
          | Candidate \<Rightarrow> step_candidate E r m
          | Follower \<Rightarrow> step_follower E r m
          | Leader \<Rightarrow> step_leader E r m)
     }"

section \<open>The clock\<close>

definition tick_election :: "'s env \<Rightarrow> 's raft \<Rightarrow> (bool \<times> 's raft) option" where
  "tick_election E r =
     do {
       n \<leftarrow> u64_add (rc_election_elapsed r) 1;
       let r = r\<lparr>rc_election_elapsed := n\<rparr>;
       if \<not> pass_election_timeout r \<or> \<not> rc_promotable r then Some (False, r)
       else do {
         let r = r\<lparr>rc_election_elapsed := 0\<rparr>;
         (_, r) \<leftarrow> step E r (new_message INVALID_ID MsgHup (Some (rc_id r)));
         Some (True, r)
       }
     }"

definition tick_heartbeat :: "'s env \<Rightarrow> 's raft \<Rightarrow> (bool \<times> 's raft) option" where
  "tick_heartbeat E r =
     do {
       h \<leftarrow> u64_add (rc_heartbeat_elapsed r) 1;
       e \<leftarrow> u64_add (rc_election_elapsed r) 1;
       let r = r\<lparr>rc_heartbeat_elapsed := h, rc_election_elapsed := e\<rparr>;
       (has_ready, r) \<leftarrow>
         (if rc_election_elapsed r \<ge> rc_election_timeout r then do {
            let r = r\<lparr>rc_election_elapsed := 0\<rparr>;
            (has_ready, r) \<leftarrow>
              (if rc_check_quorum r then do {
                 (_, r) \<leftarrow> step E r (new_message INVALID_ID MsgCheckQuorum (Some (rc_id r)));
                 Some (True, r)
               } else Some (False, r));
            Some (has_ready,
              if rc_state r = Leader \<and> rc_lead_transferee r \<noteq> None then abort_leader_transfer r else r)
          } else Some (False, r));
       if rc_state r \<noteq> Leader then Some (has_ready, r)
       else if rc_heartbeat_elapsed r \<ge> rc_heartbeat_timeout r then do {
         let r = r\<lparr>rc_heartbeat_elapsed := 0\<rparr>;
         (_, r) \<leftarrow> step E r (new_message INVALID_ID MsgBeat (Some (rc_id r)));
         Some (True, r)
       }
       else Some (has_ready, r)
     }"

definition tick :: "'s env \<Rightarrow> 's raft \<Rightarrow> (bool \<times> 's raft) option" where
  "tick E r = (if rc_state r = Leader then tick_heartbeat E r else tick_election E r)"

section \<open>Construction and maintenance\<close>

definition load_state :: "'s env \<Rightarrow> 's raft \<Rightarrow> hard_state \<Rightarrow> 's raft option" where
  "load_state E r hs =
     do {
       last_index \<leftarrow> log_last_index E (rc_raft_log r);
       rust_assert (\<not> (hs_commit hs < rc_committed r \<or> hs_commit hs > last_index));
       Some (r\<lparr>rc_raft_log := (rc_raft_log r)\<lparr>rl_committed := hs_commit hs\<rparr>, rc_term := hs_term hs, rc_vote := hs_vote hs\<rparr>)
     }"

definition raft_init :: "config \<Rightarrow> 's raft_log \<Rightarrow> usize \<Rightarrow> 's raft" where
  "raft_init c l max_timeout =
     \<lparr>rc_term = 0, rc_vote = 0, rc_id = cf_id c, rc_read_states = [], rc_raft_log = l,
      rc_max_inflight = cf_max_inflight_msgs c, rc_max_msg_size = cf_max_size_per_msg c,
      rc_pending_request_snapshot = INVALID_INDEX, rc_state = Follower, rc_promotable = False,
      rc_leader_id = 0, rc_lead_transferee = None, rc_pending_conf_index = 0,
      rc_read_only = read_only_new (cf_read_only_option c), rc_election_elapsed = 0, rc_heartbeat_elapsed = 0,
      rc_check_quorum = cf_check_quorum c, rc_pre_vote = cf_pre_vote c,
      rc_skip_bcast_commit = cf_skip_bcast_commit c, rc_batch_append = cf_batch_append c,
      rc_disable_proposal_forwarding = cf_disable_proposal_forwarding c,
      rc_heartbeat_timeout = cf_heartbeat_tick c, rc_election_timeout = cf_election_tick c,
      rc_randomized_election_timeout = 0, rc_min_election_timeout = min_election_tick c,
      rc_max_election_timeout = max_timeout, rc_priority = cf_priority c,
      rc_uncommitted_state = \<lparr>us_max_uncommitted_size = cf_max_uncommitted_size c, us_uncommitted_size = 0,
                              us_last_log_tail_index = 0\<rparr>,
      rc_max_committed_size_per_ready = cf_max_committed_size_per_ready c, rc_rng = 0,
      r_prs = tracker_new (cf_max_inflight_msgs c), r_msgs = []\<rparr>"

definition raft_new :: "'s env \<Rightarrow> config \<Rightarrow> 's \<Rightarrow> 's raft result option" where
  "raft_new E c store =
     do {
       valid \<leftarrow> validate c;
       (case valid of
          Inl e \<Rightarrow> Some (Inl e)
        | Inr _ \<Rightarrow>
            (case st_initial_state E store of
               Inl e \<Rightarrow> Some (Inl e)
             | Inr raft_state \<Rightarrow> do {
                 let conf_state = rs_conf_state raft_state;
                 l \<leftarrow> raft_log_new E store c;
                 max_timeout \<leftarrow> max_election_tick c;
                 let r = raft_init c l max_timeout;
                 last_index \<leftarrow> log_last_index E (rc_raft_log r);
                 (case restore_conf (r_prs r) last_index conf_state of
                    (t, Inl e) \<Rightarrow> Some (Inl e)
                  | (t, Inr _) \<Rightarrow> do {
                      (new_cs, r) \<leftarrow> post_conf_change E (r\<lparr>r_prs := t\<rparr>);
                      rust_assert (conf_state_eq new_cs conf_state);
                      r \<leftarrow>
                        (if rs_hard_state raft_state \<noteq> default_hard_state
                         then load_state E r (rs_hard_state raft_state) else Some r);
                      r \<leftarrow> (if cf_applied c > 0 then commit_apply_internal E r (cf_applied c) True else Some r);
                      r \<leftarrow> become_follower E r (rc_term r) INVALID_ID;
                      Some (Inr r)
                    })
               }))
     }"

definition reduce_uncommitted_size :: "'s raft \<Rightarrow> entry list \<Rightarrow> 's raft option" where
  "reduce_uncommitted_size r ents =
     (if rc_state r \<noteq> Leader then Some r
      else do {
        (ok, u) \<leftarrow> maybe_reduce_uncommitted_size (rc_uncommitted_state r) ents;
        Some (r\<lparr>rc_uncommitted_state := u\<rparr>)
      })"

definition maybe_free_inflight_buffers :: "'s raft \<Rightarrow> 's raft" where
  "maybe_free_inflight_buffers r =
     r\<lparr>r_prs := (r_prs r)\<lparr>tr_progress :=
        hmap_map (\<lambda>_ pr. pr\<lparr>pr_ins := inflights_maybe_free_buffer (pr_ins pr)\<rparr>) (tr_progress (r_prs r))\<rparr>\<rparr>"

definition adjust_max_inflight_msgs :: "'s raft \<Rightarrow> u64 \<Rightarrow> usize \<Rightarrow> 's raft option" where
  "adjust_max_inflight_msgs r target cap =
     (case tracker_get (r_prs r) target of
        None \<Rightarrow> Some r
      | Some pr \<Rightarrow> do {
          ins \<leftarrow> inflights_set_cap (pr_ins pr) cap;
          Some (put_progress r target (pr\<lparr>pr_ins := ins\<rparr>))
        })"

end
