(* ===== verification/Log_Steps.thy ===== *)
theory Log_Steps
  imports Raft_Log
begin

text \<open>
  The log over \<open>MemStorage\<close> as its users drive it: appends from a leader, commits, the persisting of
  the unstable part by the application, snapshots and compaction, as a step relation whose guards
  are the obligations the code documents. The properties of the log are stated here, over the
  memory storage.
\<close>

section \<open>The view over the memory storage\<close>

abbreviation mlog_first :: "mem_storage raft_log \<Rightarrow> u64" where
  "mlog_first \<equiv> log_first mem_first"

abbreviation mlog_ents :: "mem_storage raft_log \<Rightarrow> entry list" where
  "mlog_ents \<equiv> log_ents mem_first ms_entries"

abbreviation mlog_inv :: "'t env \<Rightarrow> mem_storage raft_log \<Rightarrow> bool" where
  "mlog_inv E \<equiv> log_inv (pb_compute_size (mem_env E)) (mem_wf (pb_compute_size E)) mem_first ms_entries"

abbreviation mconflicts :: "'t env \<Rightarrow> mem_storage raft_log \<Rightarrow> entry \<Rightarrow> bool" where
  "mconflicts E l e \<equiv> log_term (mem_env E) l (e_index e) \<noteq> Some (Inr (e_term e))"

lemma mem_env_size [simp]: "pb_compute_size (mem_env E) = pb_compute_size E"
  by (simp add: mem_env_def)

lemmas mlog_view_defs = log_first_def log_ents_def

section \<open>Persisting the unstable part\<close>

lemma persist_entries_view:
  assumes inv: "mlog_inv E l" and u: "un_snapshot (rl_unstable l) = None" "un_entries (rl_unstable l) \<noteq> []"
    and hs: "hs_commit (ms_hard_state (rl_store l)) < mlog_first l + length (mlog_ents l)"
    and sz: "sum_list (map (pb_compute_size E) (ms_entries (rl_store l)))
        + sum_list (map (pb_compute_size E) (un_entries (rl_unstable l))) \<le> U64_MAX"
  shows "\<exists>s l'. mem_append (rl_store l) (un_entries (rl_unstable l)) = Some s
     \<and> log_stable_entries (l\<lparr>rl_store := s\<rparr>) (e_index (last (un_entries (rl_unstable l)))) (e_term (last (un_entries (rl_unstable l)))) = Some l'
     \<and> mlog_inv E l' \<and> mlog_first l' = mlog_first l \<and> mlog_ents l' = mlog_ents l
     \<and> ms_entries s = mlog_ents l \<and> un_entries (rl_unstable l') = []
     \<and> rl_committed l' = rl_committed l"
proof -
  let ?u = "rl_unstable l" and ?s = "rl_store l"
  let ?es = "un_entries ?u"
  note ui = mem.linv_unstable [OF inv] and wf = mem.linv_wf [OF inv]
  have off: "mem_first ?s \<le> un_offset ?u" "un_offset ?u \<le> mem_first ?s + length (ms_entries ?s)"
    using inv u by (auto simp: log_inv_def)
  have hd: "e_index (hd ?es) = un_offset ?u" "e_index (last ?es) = un_offset ?u + length ?es - 1"
    "continuous_from (un_offset ?u) ?es" "un_offset ?u + length ?es \<le> U64_MAX"
    using ui u(2) continuous_last [of "un_offset ?u" ?es] by (auto simp: unstable_inv_def)
  have lend: "mlog_first l + length (mlog_ents l) = un_offset ?u + length ?es" by (rule mem.lend [OF inv])
  let ?t = "?s\<lparr>ms_entries := take (un_offset ?u - mem_first ?s) (ms_entries ?s) @ ?es\<rparr>"
  have app: "mem_append ?s ?es = Some ?t" using mem_append_view [OF wf u(2)] off hd by simp
  have tw: "mem_wf (pb_compute_size E) ?t" "mem_first ?t = mem_first ?s"
    using mem_append_wf [OF wf u(2) _ _ _ _ _ _ app] off hd hs lend sz by auto
  let ?l = "l\<lparr>rl_store := ?t, rl_unstable := ?u\<lparr>un_offset := un_offset ?u + length ?es, un_entries := [], un_entries_size := 0\<rparr>\<rparr>"
  have "0 < length ?es" using u(2) by simp
  then have st: "log_stable_entries (l\<lparr>rl_store := ?t\<rparr>) (e_index (last ?es)) (e_term (last ?es)) = Some ?l"
    using u hd by (simp add: log_stable_entries_def unstable_stable_entries_def vec_last_def)
  have "mlog_first ?l = mlog_first l" using u tw by (simp add: mlog_view_defs)
  moreover have ents: "mlog_ents ?l = mlog_ents l" "ms_entries ?t = mlog_ents l"
  proof -
    have "length (ms_entries ?t) = un_offset ?u + length ?es - mem_first ?s" using off by simp
    then have "take (un_offset ?u + length ?es - mem_first ?s) (ms_entries ?t) = ms_entries ?t" by simp
    with u tw show "mlog_ents ?l = mlog_ents l" by (simp add: mlog_view_defs del: take_append)
    show "ms_entries ?t = mlog_ents l" using u by (simp add: mlog_view_defs)
  qed
  moreover have "mlog_inv E ?l"
  proof -
    have "mlog_first l = mem_first ?s" using u by (simp add: mlog_view_defs)
    with inv tw ui hd ents \<open>mlog_first ?l = mlog_first l\<close> off u lend show ?thesis
      by (simp add: log_inv_def unstable_inv_def)
  qed
  ultimately show ?thesis using app st by auto
qed

lemma persist_snapshot_view:
  assumes inv: "mlog_inv E l" and u: "un_snapshot (rl_unstable l) = Some sn"
    and fresh: "mem_first (rl_store l) \<le> snap_index sn" and t: "snap_index sn = 0 \<longrightarrow> snap_term sn = 0"
  shows "\<exists>s l'. mem_apply_snapshot (rl_store l) sn = Some (Inr (), s)
     \<and> log_stable_snap (l\<lparr>rl_store := s\<rparr>) (snap_index sn) = Some l'
     \<and> mlog_inv E l' \<and> mlog_first l' = mlog_first l \<and> mlog_ents l' = mlog_ents l
     \<and> un_snapshot (rl_unstable l') = None \<and> rl_committed l' = rl_committed l"
proof -
  let ?u = "rl_unstable l" and ?s = "rl_store l"
  note ui = mem.linv_unstable [OF inv] and wf = mem.linv_wf [OF inv]
  have off: "un_offset ?u = snap_index sn + 1" "un_offset ?u + length (un_entries ?u) \<le> U64_MAX"
    using ui u by (auto simp: unstable_inv_def)
  then have b: "snap_index sn < U64_MAX" by simp
  obtain r s where rs: "mem_apply_snapshot ?s sn = Some (r, s)"
    using fresh by (auto simp: mem_apply_snapshot_def mem_first_index_eq [OF wf] Let_def)
  from mem_apply_snapshot_view [OF wf b rs] fresh
  have s: "r = Inr ()" "mem_wf (pb_compute_size E) s" "mem_first s = snap_index sn + 1" "ms_entries s = []" by auto
  let ?l = "l\<lparr>rl_store := s, rl_unstable := ?u\<lparr>un_snapshot := None\<rparr>\<rparr>"
  have st: "log_stable_snap (l\<lparr>rl_store := s\<rparr>) (snap_index sn) = Some ?l"
    using u by (simp add: log_stable_snap_def unstable_stable_snap_def)
  have v: "mlog_first ?l = mlog_first l" "mlog_ents ?l = mlog_ents l" using u s off by (simp_all add: mlog_view_defs)
  have "mlog_inv E ?l" using inv u s off v ui by (simp add: log_inv_def unstable_inv_def)
  with rs st s v show ?thesis by auto
qed

text \<open>Compaction of the store below the applied position cuts the view at its front.\<close>

lemma compact_view:
  assumes inv: "mlog_inv E l" and u: "un_snapshot (rl_unstable l) = None"
    and i: "i \<le> hs_commit (ms_hard_state (rl_store l))" "i \<le> un_offset (rl_unstable l)" "i \<le> rl_committed l"
    and c: "mem_compact (rl_store l) i = Some s"
  shows "mlog_inv E (l\<lparr>rl_store := s\<rparr>) \<and> mlog_first (l\<lparr>rl_store := s\<rparr>) = max (mlog_first l) i
     \<and> mlog_ents (l\<lparr>rl_store := s\<rparr>) = drop (i - mlog_first l) (mlog_ents l)"
proof -
  let ?u = "rl_unstable l" and ?s = "rl_store l" and ?l = "l\<lparr>rl_store := s\<rparr>"
  note wf = mem.linv_wf [OF inv]
  have s: "mem_wf (pb_compute_size E) s" "mem_first s = max (mem_first ?s) i"
    using mem_compact_wf [OF wf i(1) c] by auto
  have "i \<le> mem_last_index ?s" using wf i(1) mem_last_index_eq [OF wf] by (auto simp: mem_wf_def)
  then have es: "ms_entries s = drop (i - mem_first ?s) (ms_entries ?s)"
    using mem_compact_view [OF wf] c by auto
  have off: "mem_first ?s \<le> un_offset ?u" "un_offset ?u \<le> mem_first ?s + length (ms_entries ?s)"
    using inv u by (auto simp: log_inv_def)
  have f: "mlog_first ?l = max (mlog_first l) i" using u s by (simp add: mlog_view_defs)
  have e: "mlog_ents ?l = drop (i - mlog_first l) (mlog_ents l)"
  proof -
    have "un_offset ?u - mem_first s = un_offset ?u - mem_first ?s - (i - mem_first ?s)" using s i(2) off by auto
    moreover have "i - (mem_first ?s + min (length (ms_entries ?s)) (un_offset ?u - mem_first ?s)) = 0" using i(2) off by auto
    ultimately show ?thesis using u es by (simp add: mlog_view_defs drop_take)
  qed
  have l: "mem_first s + length (ms_entries s) = mem_first ?s + length (ms_entries ?s)" using s es i(2) off by auto
  have "i - mlog_first l \<le> length (mlog_ents l)" using i(3) inv by (auto simp: log_inv_def)
  then have l2: "mlog_first ?l + length (mlog_ents ?l) = mlog_first l + length (mlog_ents l)" using f e by auto
  have "sum_list (map (pb_compute_size E) (mlog_ents ?l)) \<le> sum_list (map (pb_compute_size E) (mlog_ents l))"
    unfolding e by (metis sum_list_filter_split le_add2)
  then have "mlog_inv E ?l" using inv s f l l2 i u off by (simp add: log_inv_def)
  with f e show ?thesis by simp
qed

lemma restore_view:
  assumes inv: "mlog_inv E l" and r: "log_restore l sn = Some l'"
    and b: "snap_index sn < U64_MAX"
  shows "mlog_inv E l' \<and> mlog_first l' = snap_index sn + 1 \<and> mlog_ents l' = [] \<and> rl_committed l' = snap_index sn
     \<and> rl_committed l \<le> snap_index sn \<and> rl_applied l' = rl_applied l \<and> rl_persisted l' \<le> rl_persisted l"
proof -
  obtain u where u: "unstable_restore (rl_unstable l) sn = Some u" "rl_committed l \<le> snap_index sn"
    "l' = l\<lparr>rl_persisted := min (rl_persisted l) (rl_committed l), rl_committed := snap_index sn, rl_unstable := u\<rparr>"
    using r by (auto simp: log_restore_def Let_def min_def bind_eq_Some_conv split: if_splits)
  from unstable_restore_inv [OF u(1)] have v: "unstable_inv u" "un_offset u = snap_index sn + 1" "un_entries u = []"
    "un_snapshot u = Some sn" by auto
  with u inv b show ?thesis by (auto simp: log_inv_def mlog_view_defs)
qed

section \<open>Steps\<close>

text \<open>
  One call on the log, or one action of the application on the store it owns. The entries of an append
  are numbered without a gap and fit into 64 bits; where they start, what they overwrite and what they
  commit is up to the caller. Two guards are obligations of the callers that the code does not check:
  \<open>append\<close>, unlike \<open>maybe_append\<close>, leaves the persisted position alone, so a leader appends above it; and
  the application compacts its store only below what is stable and committed.
\<close>

abbreviation fits :: "'t env \<Rightarrow> mem_storage raft_log \<Rightarrow> u64 \<Rightarrow> entry list \<Rightarrow> bool" where
  "fits E l i es \<equiv> continuous_from i es \<and> i + length es \<le> U64_MAX
     \<and> total_size (un_entries (rl_unstable l)) + total_size es \<le> U64_MAX
     \<and> sum_list (map (pb_compute_size E) (mlog_ents l)) + sum_list (map (pb_compute_size E) es) \<le> U64_MAX"

inductive log_step :: "'t env \<Rightarrow> mem_storage raft_log \<Rightarrow> mem_storage raft_log \<Rightarrow> bool" for E where
  maybe_append: "fits E l (idx + 1) es \<Longrightarrow> maybe_append (mem_env E) l idx t committed es = Some (r, l') \<Longrightarrow> log_step E l l'"
| append: "\<lbrakk>es \<noteq> []; fits E l (e_index (hd es)) es; rl_persisted l < e_index (hd es);
     log_append (mem_env E) l es = Some (i, l')\<rbrakk> \<Longrightarrow> log_step E l l'"
| commit: "log_maybe_commit (mem_env E) l i t = Some (b, l') \<Longrightarrow> log_step E l l'"
| commit_to: "commit_to (mem_env E) l i = Some l' \<Longrightarrow> log_step E l l'"
| applied: "applied_to l i = Some l' \<Longrightarrow> log_step E l l'"
| persist: "log_maybe_persist (mem_env E) l i t = Some (b, l') \<Longrightarrow> log_step E l l'"
| persist_snap: "log_maybe_persist_snap l i = Some (b, l') \<Longrightarrow> log_step E l l'"
| restore: "snap_index sn < U64_MAX \<Longrightarrow> log_restore l sn = Some l' \<Longrightarrow> log_step E l l'"
| stable_entries: "\<lbrakk>un_snapshot (rl_unstable l) = None; un_entries (rl_unstable l) = es; es \<noteq> [];
     sum_list (map (pb_compute_size E) (ms_entries (rl_store l))) + sum_list (map (pb_compute_size E) es) \<le> U64_MAX;
     hs_commit (ms_hard_state (rl_store l)) < mlog_first l + length (mlog_ents l);
     mem_append (rl_store l) es = Some s;
     log_stable_entries (l\<lparr>rl_store := s\<rparr>) (e_index (last es)) (e_term (last es)) = Some l'\<rbrakk> \<Longrightarrow> log_step E l l'"
| stable_snapshot: "\<lbrakk>un_snapshot (rl_unstable l) = Some sn; mem_first (rl_store l) \<le> snap_index sn;
     snap_index sn = 0 \<longrightarrow> snap_term sn = 0; mem_apply_snapshot (rl_store l) sn = Some (Inr (), s);
     log_stable_snap (l\<lparr>rl_store := s\<rparr>) (snap_index sn) = Some l'\<rbrakk> \<Longrightarrow> log_step E l l'"
| compact: "\<lbrakk>un_snapshot (rl_unstable l) = None; i \<le> hs_commit (ms_hard_state (rl_store l));
     i \<le> un_offset (rl_unstable l); i \<le> rl_committed l; mem_compact (rl_store l) i = Some s\<rbrakk>
     \<Longrightarrow> log_step E l (l\<lparr>rl_store := s\<rparr>)"

inductive_cases log_stepE: "log_step E l l'"

text \<open>
  What a step leaves alone: positions only grow, and an entry that was committed stays where it is
  unless the front of the log has passed it.
\<close>

definition keeps_committed :: "mem_storage raft_log \<Rightarrow> mem_storage raft_log \<Rightarrow> bool" where
  "keeps_committed l l' \<longleftrightarrow>
     rl_committed l \<le> rl_committed l' \<and> mlog_first l \<le> mlog_first l'
     \<and> (\<forall>i. mlog_first l' \<le> i \<and> i \<le> rl_committed l \<longrightarrow>
            mlog_ents l' ! (i - mlog_first l') = mlog_ents l ! (i - mlog_first l))"

lemma keeps_committed_same_view:
  "rl_committed l \<le> rl_committed l' \<Longrightarrow> mlog_first l' = mlog_first l \<Longrightarrow> mlog_ents l' = mlog_ents l \<Longrightarrow> keeps_committed l l'"
  by (simp add: keeps_committed_def)

lemma keeps_committed_trans:
  assumes "keeps_committed a b" and "keeps_committed b c"
  shows "keeps_committed a c"
proof -
  have "mlog_ents c ! (i - mlog_first c) = mlog_ents a ! (i - mlog_first a)"
    if "mlog_first c \<le> i" "i \<le> rl_committed a" for i
    using assms that by (auto simp: keeps_committed_def)
  with assms show ?thesis by (auto simp: keeps_committed_def)
qed

lemma log_step_maybe_append:
  assumes "mlog_inv E l" and "fits E l (idx + 1) es" and "maybe_append (mem_env E) l idx t committed es = Some (r, l')"
  shows "mlog_inv E l' \<and> keeps_committed l l'"
  using mem.maybe_append_keeps [OF assms(1) _ _ _ _ assms(3)] assms(2) by (auto simp: keeps_committed_def)

lemma log_step_append:
  assumes inv: "mlog_inv E l" and es: "es \<noteq> []" "fits E l (e_index (hd es)) es" "rl_persisted l < e_index (hd es)"
    and a: "log_append (mem_env E) l es = Some (i, l')"
  shows "mlog_inv E l' \<and> keeps_committed l l'"
proof -
  have s: "rl_committed l < e_index (hd es)" "e_index (hd es) \<le> mlog_first l + length (mlog_ents l)"
    "mlog_first l' = mlog_first l" "mlog_ents l' = take (e_index (hd es) - mlog_first l) (mlog_ents l) @ es"
    "rl_committed l' = rl_committed l" "rl_persisted l' = rl_persisted l" "mlog_inv E (l'\<lparr>rl_persisted := rl_persisted l\<rparr>)"
    using mem.log_append_some [OF inv es(1) _ a] es(2,3) by auto
  have "l'\<lparr>rl_persisted := rl_persisted l\<rparr> = l'" using s(6) by simp
  with s mem.committed_prefix [OF inv s(1,2)] show ?thesis by (simp add: keeps_committed_def)
qed

lemma log_step_positions:
  assumes "mlog_inv E l" and "p < un_offset (rl_unstable l)" and "rl_committed l \<le> c"
    and "c < mlog_first l + length (mlog_ents l)"
  shows "mlog_inv E (l\<lparr>rl_committed := c, rl_persisted := p, rl_applied := a\<rparr>)
     \<and> keeps_committed l (l\<lparr>rl_committed := c, rl_persisted := p, rl_applied := a\<rparr>)"
  using assms by (simp add: log_inv_def keeps_committed_same_view)

lemma log_step_commit:
  assumes "mlog_inv E l" and "commit_to (mem_env E) l i = Some l'"
  shows "mlog_inv E l' \<and> keeps_committed l l'"
  using mem.commit_to_keeps [OF assms] by (simp add: keeps_committed_same_view)

lemma log_step_keeps:
  assumes "log_step E l l'" and inv: "mlog_inv E l"
  shows "mlog_inv E l' \<and> keeps_committed l l'"
proof -
  have same: "mlog_inv E l \<and> keeps_committed l l" using inv by (simp add: keeps_committed_same_view)
  have pos: "mlog_inv E (l\<lparr>rl_persisted := p, rl_applied := a\<rparr>) \<and> keeps_committed l (l\<lparr>rl_persisted := p, rl_applied := a\<rparr>)"
    if "p < un_offset (rl_unstable l)" for p a
    using log_step_positions [OF inv that, of "rl_committed l" a] inv by (simp add: log_inv_def)
  have off: "rl_persisted l < un_offset (rl_unstable l)" using inv by (simp add: log_inv_def)
  have snap: "snap_index sn < un_offset (rl_unstable l)" if "un_snapshot (rl_unstable l) = Some sn" for sn
    using mem.linv_unstable [OF inv] that by (simp add: unstable_inv_def)
  show ?thesis
    using assms(1)
  proof cases
    case maybe_append
    then show ?thesis using log_step_maybe_append [OF inv] by blast
  next
    case append
    then show ?thesis using log_step_append [OF inv] by blast
  next
    case (commit i t b)
    then show ?thesis using same log_step_commit [OF inv]
      by (auto simp: log_maybe_commit_def bind_eq_Some_conv split: if_splits)
  next
    case (commit_to i)
    then show ?thesis using log_step_commit [OF inv] by blast
  next
    case (applied i)
    then have "l' = l \<or> l' = l\<lparr>rl_persisted := rl_persisted l, rl_applied := i\<rparr>"
      by (auto simp: applied_to_def applied_to_unchecked_def bind_eq_Some_conv split: if_splits)
    then show ?thesis using same pos [OF off, of i] by auto
  next
    case (persist i t b)
    then have "l' = l \<or> l' = l\<lparr>rl_persisted := i, rl_applied := rl_applied l\<rparr> \<and> i < un_offset (rl_unstable l)"
      using snap by (fastforce simp: log_maybe_persist_def Let_def bind_eq_Some_conv split: if_splits option.splits)
    then show ?thesis using same pos [of i "rl_applied l"] by auto
  next
    case (persist_snap i b)
    then have "l' = l \<or> l' = l\<lparr>rl_persisted := i, rl_applied := rl_applied l\<rparr> \<and> i < un_offset (rl_unstable l)"
      by (auto simp: log_maybe_persist_snap_def bind_eq_Some_conv split: if_splits)
    then show ?thesis using same pos [of i "rl_applied l"] by auto
  next
    case (restore sn)
    from restore_view [OF inv restore(2,1)] inv show ?thesis by (auto simp: keeps_committed_def log_inv_def)
  next
    case (stable_entries es s)
    then show ?thesis using persist_entries_view [OF inv] by (auto simp: keeps_committed_same_view)
  next
    case (stable_snapshot sn s)
    then show ?thesis using persist_snapshot_view [OF inv] by (auto simp: keeps_committed_same_view)
  next
    case (compact i s)
    have "i - mlog_first l \<le> length (mlog_ents l)" using compact(5) inv by (auto simp: log_inv_def)
    moreover have "max (mlog_first l) i - mlog_first l = i - mlog_first l" by simp
    ultimately have "keeps_committed l (l\<lparr>rl_store := s\<rparr>)"
      using compact_view [OF inv compact(2-6)] by (auto simp: keeps_committed_def max_def split: if_splits)
    with compact_view [OF inv compact(2-6)] compact(1) show ?thesis by simp
  qed
qed

inductive log_steps :: "'t env \<Rightarrow> mem_storage raft_log \<Rightarrow> mem_storage raft_log \<Rightarrow> bool" for E where
  refl: "log_steps E l l"
| step: "log_steps E l l' \<Longrightarrow> log_step E l' l'' \<Longrightarrow> log_steps E l l''"

section \<open>Properties\<close>

text \<open>
  (C2) A committed entry never changes: however a follower's and a leader's appends, commits, persisting,
  snapshots and compaction are interleaved, and wherever an append starts, as long as it does not
  panic the log stays well formed, the committed index never goes back, and an entry at or below it is
  the same at every later moment the log still holds its index.
\<close>

theorem committed_entries_never_change:
  assumes "log_steps E l l'" and "mlog_inv E l"
  shows "mlog_inv E l' \<and> keeps_committed l l'"
  using assms
proof induction
  case (refl l)
  then show ?case by (simp add: keeps_committed_same_view)
next
  case (step l l' l'')
  then show ?case using log_step_keeps keeps_committed_trans by blast
qed

definition sample_log :: "mem_storage raft_log" where
  "sample_log = \<lparr>rl_store = mem_new, rl_unstable = unstable_new 1, rl_committed = 0, rl_persisted = 0, rl_applied = 0,
                 rl_max_apply_unpersisted_log_limit = 0\<rparr>"

definition sample_entry :: "u64 \<Rightarrow> u64 \<Rightarrow> entry" where
  "sample_entry i t = default_entry\<lparr>e_index := i, e_term := t\<rparr>"

lemma sample_log_inv: "mlog_inv sample_env sample_log"
  by (simp add: log_inv_def sample_log_def mem_wf_def mem_new_def mem_first_def default_snapshot_metadata_def
      default_hard_state_def unstable_new_def unstable_inv_def mlog_view_defs sample_env_def)

lemmas sample_eval = sample_log_def sample_entry_def mem_new_def unstable_new_def default_snapshot_metadata_def
  default_hard_state_def default_entry_def mem_env_def log_term_def log_first_index_def log_last_index_def
  mem_first_index_def mem_last_index_def mem_term_def maybe_first_index_def maybe_last_index_def maybe_term_def

lemma sample_append:
  "maybe_append (mem_env sample_env) sample_log 0 0 1 [sample_entry 1 1, sample_entry 2 1] =
     Some (Some (1, 2), sample_log\<lparr>rl_committed := 1,
       rl_unstable := \<lparr>un_snapshot = None, un_entries = [sample_entry 1 1, sample_entry 2 1], un_entries_size = 24, un_offset = 1\<rparr>\<rparr>)"
  by (simp add: maybe_append_def match_term_def log_append_def truncate_and_append_def commit_to_def
      entry_approximate_size_def sample_eval)

lemma committed_entries_never_change_witness:
  "\<exists>l. log_steps sample_env sample_log l \<and> keeps_committed sample_log l \<and> rl_committed l = 1"
proof -
  let ?l = "sample_log\<lparr>rl_committed := 1,
       rl_unstable := \<lparr>un_snapshot = None, un_entries = [sample_entry 1 1, sample_entry 2 1], un_entries_size = 24, un_offset = 1\<rparr>\<rparr>"
  have "log_step sample_env sample_log ?l"
    by (rule log_step.maybe_append [OF _ sample_append])
      (simp_all add: sample_log_def sample_entry_def continuous_Cons default_entry_def unstable_new_def mlog_view_defs
        mem_new_def sample_env_def entry_size_def)
  then have st: "log_steps sample_env sample_log ?l" by (rule log_steps.step [OF log_steps.refl])
  with committed_entries_never_change [OF st sample_log_inv] show ?thesis by (intro exI [of _ ?l]) simp
qed

text \<open>
  (C3) The append of a follower, for entries of positive terms that are numbered on from the index given.
  If the entry at that index has another term the log is unchanged and the call says so. Otherwise
  the first of the new entries that the log does not hold with its term decides: if there is none
  the entries of the log stay as they are, with everything after the new ones; if it lies at or below
  the committed index the call panics; and else the log is cut there and goes on with the new entries
  from there, and what was persisted above it no longer counts. In the two cases without panic the
  committed index moves to the leader's, bounded by the last new entry, and the log holds every new
  entry above its first index with its term.
\<close>

theorem append_makes_logs_match:
  assumes "mlog_inv E l" and "0 < t \<or> idx = 0" and "\<forall>e \<in> set es. 0 < e_term e" and "fits E l (idx + 1) es"
  defines "conflict \<equiv> find (mconflicts E l) es"
  shows "if log_term (mem_env E) l idx \<noteq> Some (Inr t) then maybe_append (mem_env E) l idx t committed es = Some (None, l)
    else if \<exists>e. conflict = Some e \<and> e_index e \<le> rl_committed l then maybe_append (mem_env E) l idx t committed es = None
    else \<exists>l'. maybe_append (mem_env E) l idx t committed es =
          Some (Some (case conflict of None \<Rightarrow> 0 | Some e \<Rightarrow> e_index e, idx + length es), l')
      \<and> rl_committed l' = max (rl_committed l) (min committed (idx + length es)) \<and> rl_applied l' = rl_applied l
      \<and> mlog_first l' = mlog_first l
      \<and> mlog_ents l' = (case conflict of None \<Rightarrow> mlog_ents l
          | Some e \<Rightarrow> take (e_index e - mlog_first l) (mlog_ents l) @ drop (e_index e - (idx + 1)) es)
      \<and> rl_persisted l' = (case conflict of None \<Rightarrow> rl_persisted l | Some e \<Rightarrow> min (rl_persisted l) (e_index e - 1))
      \<and> (\<forall>j < length es. mlog_first l \<le> idx + 1 + j \<longrightarrow>
           log_term (mem_env E) l' (idx + 1 + j) = Some (Inr (e_term (es ! j))))"
proof -
  note inv = assms(1)
  have es: "continuous_from (idx + 1) es" "idx + 1 + length es \<le> U64_MAX"
    "total_size (un_entries (rl_unstable l)) + total_size es \<le> U64_MAX"
    "sum_list (map (pb_compute_size E) (mlog_ents l)) + sum_list (map (pb_compute_size E) es) \<le> U64_MAX"
    using assms(4) by auto
  consider (other) "log_term (mem_env E) l idx \<noteq> Some (Inr t)"
    | (panic) e where "log_term (mem_env E) l idx = Some (Inr t)" "conflict = Some e" "e_index e \<le> rl_committed l"
    | (ok) "log_term (mem_env E) l idx = Some (Inr t)" "\<And>e. conflict = Some e \<Longrightarrow> rl_committed l < e_index e"
    by (meson not_le_imp_less)
  then show ?thesis
  proof cases
    case other
    then show ?thesis by (simp add: maybe_append_def mem.match_term_eq [OF inv])
  next
    case (panic e)
    then show ?thesis using mem.maybe_append_panics [OF inv es(1) panic(1), of e] by (auto simp: conflict_def)
  next
    case ok
    note co = ok(2) [unfolded conflict_def]
    obtain l' where l': "maybe_append (mem_env E) l idx t committed es =
          Some (Some (case conflict of None \<Rightarrow> 0 | Some e \<Rightarrow> e_index e, idx + length es), l')"
      "mlog_inv E l'" "mlog_first l' = mlog_first l"
      "rl_committed l' = max (rl_committed l) (min committed (idx + length es))" "rl_applied l' = rl_applied l"
      "case conflict of None \<Rightarrow> mlog_ents l' = mlog_ents l \<and> rl_persisted l' = rl_persisted l
        | Some e \<Rightarrow> mlog_ents l' = take (e_index e - mlog_first l) (mlog_ents l) @ drop (e_index e - (idx + 1)) es
            \<and> rl_persisted l' = min (rl_persisted l) (e_index e - 1)"
      using mem.maybe_append_ok [OF inv es(1) assms(3) ok(1) assms(2) es(2,3) _ co, of committed] es(4)
      unfolding conflict_def by auto
    have v: "case find (mconflicts E l) es of None \<Rightarrow> mlog_ents l' = mlog_ents l
        | Some e \<Rightarrow> mlog_ents l' = take (e_index e - mlog_first l) (mlog_ents l) @ drop (e_index e - (idx + 1)) es"
      using l'(6) unfolding conflict_def by (simp split: option.splits)
    have "\<forall>j < length es. mlog_first l \<le> idx + 1 + j \<longrightarrow> log_term (mem_env E) l' (idx + 1 + j) = Some (Inr (e_term (es ! j)))"
      using mem.maybe_append_holds [OF inv l'(2,3) es(1) assms(3) mem.term_below_end [OF inv ok(1) assms(2)] co v] by blast
    moreover have "\<not> (\<exists>e. conflict = Some e \<and> e_index e \<le> rl_committed l)" using ok(2) by fastforce
    ultimately show ?thesis using ok(1) l' by (auto split: option.splits)
  qed
qed

lemma append_makes_logs_match_witness:
  "maybe_append (mem_env sample_env) sample_log 0 0 1 [sample_entry 1 1, sample_entry 2 1] \<noteq> None
     \<and> (\<exists>l'. maybe_append (mem_env sample_env) sample_log 0 0 1 [sample_entry 1 1, sample_entry 2 1] = Some (Some (1, 2), l')
          \<and> mlog_ents l' = [sample_entry 1 1, sample_entry 2 1])"
proof -
  let ?es = "[sample_entry 1 1, sample_entry 2 1]"
  have m: "log_term (mem_env sample_env) sample_log 0 = Some (Inr 0)" by (simp add: sample_eval)
  have c: "find (mconflicts sample_env sample_log) ?es = Some (sample_entry 1 1)" by (simp add: sample_eval)
  have l: "rl_committed sample_log = 0" "mlog_first sample_log = 1" "mlog_ents sample_log = []"
    by (simp_all add: sample_log_def mlog_view_defs unstable_new_def mem_new_def mem_first_def default_snapshot_metadata_def)
  have e: "e_index (sample_entry 1 1) = 1" by (simp add: sample_entry_def)
  have "fits sample_env sample_log (0 + 1) ?es" "\<forall>e \<in> set ?es. 0 < e_term e"
    by (simp_all add: sample_log_def sample_entry_def continuous_Cons default_entry_def unstable_new_def mlog_view_defs mem_new_def
        sample_env_def entry_size_def)
  from append_makes_logs_match [OF sample_log_inv _ this(2,1), of 0 1] m c l e show ?thesis by auto
qed

text \<open>
  (C12) Reading a range of the log is reading one list: although the entries come from the store up to
  the unstable offset and from memory after it, the result of \<open>slice\<close> is the range of the whole
  entry list cut to the byte budget, and the log looks the same afterwards. Only a context that may
  be answered later can be told to wait.
\<close>

theorem slice_is_budgeted_range:
  assumes "mlog_inv E l" and "mlog_first l \<le> low" and "low \<le> high" and "high \<le> mlog_first l + length (mlog_ents l)"
  shows "\<exists>r l'. log_slice (mem_env E) l low high max_size c = Some (r, l')
     \<and> mlog_first l' = mlog_first l \<and> mlog_ents l' = mlog_ents l
     \<and> (can_async c \<and> r = Inl (Store LogTemporarilyUnavailable)
        \<or> map_option Inr (limit_size (pb_compute_size E) (take (high - low) (drop (low - mlog_first l) (mlog_ents l))) max_size) = Some r)"
  using mem.log_slice_eq [OF assms, of max_size c] by fastforce

definition sample_full :: "mem_storage raft_log" where
  "sample_full = sample_log\<lparr>rl_committed := 1, rl_max_apply_unpersisted_log_limit := 1,
     rl_unstable := \<lparr>un_snapshot = None, un_entries = [sample_entry 1 1, sample_entry 2 1], un_entries_size = 24, un_offset = 1\<rparr>\<rparr>"

lemma sample_full_view:
  "mlog_first sample_full = 1" "mlog_ents sample_full = [sample_entry 1 1, sample_entry 2 1]"
  by (simp_all add: sample_full_def sample_eval mlog_view_defs mem_first_def)

lemma sample_full_inv: "mlog_inv sample_env sample_full"
  using sample_full_view
  by (simp add: log_inv_def sample_full_def mem_wf_def mem_first_def unstable_inv_def sample_env_def sample_eval continuous_Cons
      entry_size_def)

lemma slice_is_budgeted_range_witness:
  "\<exists>r l'. log_slice (mem_env sample_env) sample_full 1 3 None GenReady = Some (r, l')
     \<and> r = Inr [sample_entry 1 1, sample_entry 2 1]"
  using slice_is_budgeted_range [OF sample_full_inv, of 1 3 None GenReady] by (auto simp: sample_full_view can_async_def)

text \<open>What the log offers above a position: a run of committed entries without a gap.\<close>

lemma next_entries_since_view:
  assumes "mlog_inv E l" and "rl_persisted l + rl_max_apply_unpersisted_log_limit l \<le> U64_MAX" and "since < U64_MAX"
  defines "off \<equiv> max (since + 1) (mlog_first l)"
  shows "\<exists>r s. next_entries_since (mem_env E) l since max_size = Some (r, l\<lparr>rl_store := s\<rparr>)
     \<and> has_next_entries_since (mem_env E) l since = Some (r \<noteq> None)
     \<and> (\<forall>es. r = Some es \<longrightarrow> es \<noteq> [] \<and> es = take (length es) (drop (off - mlog_first l) (mlog_ents l))
           \<and> continuous_from off es
           \<and> (\<forall>e \<in> set es. e_index e \<le> rl_committed l
                \<and> e_index e \<le> rl_persisted l + rl_max_apply_unpersisted_log_limit l))"
proof -
  define high where "high = min (rl_committed l) (rl_persisted l + rl_max_apply_unpersisted_log_limit l) + 1"
  let ?rest = "drop (off - mlog_first l) (mlog_ents l)"
  obtain s where s: "has_next_entries_since (mem_env E) l since = Some (off < high)"
    "if off < high
     then \<exists>es. limit_size (pb_compute_size E) (take (high - off) ?rest) max_size = Some es
          \<and> next_entries_since (mem_env E) l since max_size = Some (Some es, l\<lparr>rl_store := s\<rparr>)
     else next_entries_since (mem_env E) l since max_size = Some (None, l\<lparr>rl_store := s\<rparr>)"
    using mem.next_entries_since_eq [OF assms(1-3), of max_size] 
    unfolding off_def [symmetric] high_def [symmetric] mem_env_size by blast
  show ?thesis
  proof (cases "off < high")
    case True
    then obtain es where es: "limit_size (pb_compute_size E) (take (high - off) ?rest) max_size = Some es"
      "next_entries_since (mem_env E) l since max_size = Some (Some es, l\<lparr>rl_store := s\<rparr>)"
      using s(2) by auto
    have c: "high \<le> mlog_first l + length (mlog_ents l)" using assms(1) by (auto simp: high_def log_inv_def)
    have off: "mlog_first l \<le> off" by (simp add: off_def)
    have "take (high - off) ?rest \<noteq> []" using True c off by simp
    with limit_size_prefix [OF es(1)] obtain n where n: "es = take n (take (high - off) ?rest)" "0 < n" "n \<le> length (take (high - off) ?rest)"
      by auto
    have ln: "length es = n" "n \<le> high - off" using n by auto
    then have eq: "es = take (length es) ?rest" using n(1) by simp
    have "mlog_first l + (off - mlog_first l) = off" using off by simp
    then have "continuous_from off ?rest"
      using continuous_drop [OF mem.lcontinuous [OF assms(1)], of "off - mlog_first l"] True c off by simp
    with eq have cont: "continuous_from off es" by (metis continuous_take)
    have "e_index e < high" if "e \<in> set es" for e
      using that continuous_nth [OF cont] ln by (fastforce simp: in_set_conv_nth)
    then have "\<forall>e \<in> set es. e_index e \<le> rl_committed l
        \<and> e_index e \<le> rl_persisted l + rl_max_apply_unpersisted_log_limit l"
      by (simp add: high_def less_Suc_eq_le)
    moreover have "es \<noteq> []" using ln n(2) by auto
    ultimately show ?thesis using True es(2) s(1) eq cont by auto
  next
    case False
    with s show ?thesis by auto
  qed
qed

text \<open>
  (C13) What is handed to the application: whenever the log says it has entries to apply, the call
  gives at least one, they are the entries that follow the applied position without a gap, and every
  one of them is committed and at most the allowed distance above the persisted position; otherwise
  it gives none.
\<close>

theorem next_entries_are_committed:
  assumes "mlog_inv E l" and "rl_persisted l + rl_max_apply_unpersisted_log_limit l \<le> U64_MAX" and "rl_applied l < U64_MAX"
  defines "off \<equiv> max (rl_applied l + 1) (mlog_first l)"
  shows "\<exists>r l' b. next_entries (mem_env E) l max_size = Some (r, l') \<and> has_next_entries (mem_env E) l = Some b
     \<and> (case r of
          None \<Rightarrow> \<not> b
        | Some es \<Rightarrow> b \<and> es \<noteq> [] \<and> es = take (length es) (drop (off - mlog_first l) (mlog_ents l))
            \<and> (\<forall>i < length es. e_index (es ! i) = off + i
                 \<and> e_index (es ! i) \<le> rl_committed l
                 \<and> e_index (es ! i) \<le> rl_persisted l + rl_max_apply_unpersisted_log_limit l))"
proof -
  obtain r s where r: "next_entries (mem_env E) l max_size = Some (r, l\<lparr>rl_store := s\<rparr>)"
    "has_next_entries (mem_env E) l = Some (r \<noteq> None)"
    "\<forall>es. r = Some es \<longrightarrow> es \<noteq> [] \<and> es = take (length es) (drop (off - mlog_first l) (mlog_ents l))
       \<and> continuous_from off es
       \<and> (\<forall>e \<in> set es. e_index e \<le> rl_committed l \<and> e_index e \<le> rl_persisted l + rl_max_apply_unpersisted_log_limit l)"
    using next_entries_since_view [OF assms(1-3), of max_size] unfolding next_entries_def has_next_entries_def off_def by blast
  show ?thesis
  proof (cases r)
    case (Some es)
    with r(3) have es: "es \<noteq> []" "es = take (length es) (drop (off - mlog_first l) (mlog_ents l))" "continuous_from off es"
      "\<forall>i < length es. e_index (es ! i) \<le> rl_committed l
         \<and> e_index (es ! i) \<le> rl_persisted l + rl_max_apply_unpersisted_log_limit l" by auto
    then show ?thesis using r(1,2) Some by (intro exI [of _ r] exI [of _ "l\<lparr>rl_store := s\<rparr>"] exI [of _ True]) (simp add: continuous_from_def)
  next
    case None
    then show ?thesis using r(1,2) by (intro exI [of _ r] exI [of _ "l\<lparr>rl_store := s\<rparr>"] exI [of _ False]) simp
  qed
qed

lemma next_entries_are_committed_witness:
  "\<exists>r l' b. next_entries (mem_env sample_env) sample_full None = Some (r, l')
     \<and> has_next_entries (mem_env sample_env) sample_full = Some b \<and> (r = None \<longrightarrow> \<not> b)"
proof -
  have "rl_persisted sample_full + rl_max_apply_unpersisted_log_limit sample_full \<le> U64_MAX" "rl_applied sample_full < U64_MAX"
    by (simp_all add: sample_full_def sample_eval)
  then show ?thesis using next_entries_are_committed [OF sample_full_inv, of None] by (auto split: option.splits)
qed

text \<open>
  (C36) Scanning a range page by page ends, whatever the page size, and shows the callback every entry
  of the range exactly once and in order, here to a callback that collects the pages.
\<close>

theorem scan_visits_the_range:
  assumes "mlog_inv E l" and "mlog_first l \<le> lo" and "lo \<le> hi" and "hi \<le> mlog_first l + length (mlog_ents l)"
    and "\<not> can_async c"
  shows "\<exists>l'. log_scan (mem_env E) l lo hi page_size c (\<lambda>page acc. (True, acc @ page)) []
     = Some (Inr (), take (hi - lo) (drop (lo - mlog_first l) (mlog_ents l)), l')"
  using mem.log_scan_collects [OF assms, of page_size "[]"] by fastforce

lemma scan_visits_the_range_witness:
  "\<exists>l'. log_scan (mem_env sample_env) sample_full 1 3 0 GenReady (\<lambda>page acc. (True, acc @ page)) []
     = Some (Inr (), [sample_entry 1 1, sample_entry 2 1], l')"
  using scan_visits_the_range [OF sample_full_inv, of 1 3 GenReady 0] by (auto simp: sample_full_view can_async_def)

text \<open>
  (C35) The search for a conflict by term always ends: it gives the largest index at or below the
  given one whose term is at most the given term, having passed only entries of larger terms, or it
  stops right below the first entry when the storage no longer knows the term there.
\<close>

theorem find_conflict_by_term_spec:
  assumes "mlog_inv E l" and "\<And>sn. un_snapshot (rl_unstable l) = Some sn \<Longrightarrow> snap_index sn = 0 \<Longrightarrow> snap_term sn = 0"
  shows "\<exists>k t. find_conflict_by_term (mem_env E) l index tm = Some (k, t) \<and> k \<le> index
     \<and> (if mlog_first l + length (mlog_ents l) \<le> index then k = index \<and> t = None
        else (\<forall>j. k < j \<and> j \<le> index \<longrightarrow> (\<exists>u > tm. log_term (mem_env E) l j = Some (Inr u)))
          \<and> (case t of Some u \<Rightarrow> log_term (mem_env E) l k = Some (Inr u) \<and> u \<le> tm
              | None \<Rightarrow> log_term (mem_env E) l k = Some (Inl (Store Compacted)) \<and> k + 1 = mlog_first l))"
proof (cases "mlog_first l + length (mlog_ents l) \<le> index")
  case True
  then have "mlog_first l + length (mlog_ents l) - 1 < index" using mem.lfirst_pos [OF assms(1)] by linarith
  with True show ?thesis by (simp add: find_conflict_by_term_def mem.log_last_index_eq [OF assms(1)])
next
  case False
  then have "\<not> mlog_first l + length (mlog_ents l) - 1 < index" by linarith
  with False mem.conflict_scan_spec [OF assms, of tm index] show ?thesis
    by (auto simp: find_conflict_by_term_def mem.log_last_index_eq [OF assms(1)])
qed

lemma find_conflict_by_term_spec_witness:
  "\<exists>k t. find_conflict_by_term (mem_env sample_env) sample_full 2 0 = Some (k, t) \<and> k \<le> 2"
  using find_conflict_by_term_spec [OF sample_full_inv, of 2 0] by (auto simp: sample_full_def)

text \<open>
  (C37) Persisting keeps the log: when the application appends the unstable entries to its storage and
  reports the last of them as stable, the log has the same first index and the same entries, now all
  of them in the storage and none in memory.
\<close>

theorem persisting_keeps_the_log:
  assumes "mlog_inv E l" and "un_snapshot (rl_unstable l) = None" and "un_entries (rl_unstable l) \<noteq> []"
    and "hs_commit (ms_hard_state (rl_store l)) < mlog_first l + length (mlog_ents l)"
    and "sum_list (map (pb_compute_size E) (ms_entries (rl_store l)))
        + sum_list (map (pb_compute_size E) (un_entries (rl_unstable l))) \<le> U64_MAX"
  defines "e \<equiv> last (un_entries (rl_unstable l))"
  shows "\<exists>s l'. mem_append (rl_store l) (un_entries (rl_unstable l)) = Some s
     \<and> log_stable_entries (l\<lparr>rl_store := s\<rparr>) (e_index e) (e_term e) = Some l'
     \<and> mlog_first l' = mlog_first l \<and> mlog_ents l' = mlog_ents l
     \<and> ms_entries (rl_store l') = mlog_ents l \<and> un_entries (rl_unstable l') = []"
proof -
  obtain s l' where "mem_append (rl_store l) (un_entries (rl_unstable l)) = Some s"
    "log_stable_entries (l\<lparr>rl_store := s\<rparr>) (e_index e) (e_term e) = Some l'"
    "mlog_first l' = mlog_first l \<and> mlog_ents l' = mlog_ents l" "ms_entries s = mlog_ents l" "un_entries (rl_unstable l') = []"
    using persist_entries_view [OF assms(1-5)] unfolding e_def by auto
  moreover from this(2) have "rl_store l' = s" by (auto simp: log_stable_entries_def bind_eq_Some_conv)
  ultimately show ?thesis by auto
qed

lemma persisting_keeps_the_log_witness:
  "\<exists>s l'. mem_append (rl_store sample_full) (un_entries (rl_unstable sample_full)) = Some s
     \<and> log_stable_entries (sample_full\<lparr>rl_store := s\<rparr>) 2 1 = Some l' \<and> un_entries (rl_unstable l') = []"
proof -
  have "un_snapshot (rl_unstable sample_full) = None" "un_entries (rl_unstable sample_full) \<noteq> []"
    "hs_commit (ms_hard_state (rl_store sample_full)) < mlog_first sample_full + length (mlog_ents sample_full)"
    "sum_list (map (pb_compute_size sample_env) (ms_entries (rl_store sample_full)))
        + sum_list (map (pb_compute_size sample_env) (un_entries (rl_unstable sample_full))) \<le> U64_MAX"
    by (simp_all add: sample_full_view) (simp_all add: sample_full_def sample_eval sample_env_def)
  from persisting_keeps_the_log [OF sample_full_inv this] show ?thesis
    by (auto simp: sample_full_def sample_entry_def)
qed

end
