(* ===== verification/Node_Relation.thy ===== *)
theory Node_Relation
  imports Raft_Step Log_Steps
begin

text \<open>
  A calculus for relations between a node before and after an operation of \<open>src/raft.rs\<close>. Most
  operations are \<^emph>\<open>quiet\<close>: they leave the id, the term, the vote, the role, the recorded votes and the
  voters alone, never lower the committed index and send no granted vote. The operations that change
  the role are treated once, in the locale \<open>node_relation\<close>, for every relation that is transitive,
  holds of quiet steps and of the few primitive role changes.
\<close>

section \<open>Quiet steps\<close>

text \<open>A granted vote among the outgoing messages.\<close>

definition is_grant :: "message \<Rightarrow> bool" where
  "is_grant m \<longleftrightarrow> m_type m = MsgRequestVoteResponse \<and> \<not> m_reject m"

definition no_new_grant :: "message list \<Rightarrow> message list \<Rightarrow> bool" where
  "no_new_grant ms ms' \<longleftrightarrow> (\<forall>m \<in> set ms'. is_grant m \<longrightarrow> m \<in> set ms)"

lemma no_new_grant_refl [simp]: "no_new_grant ms ms"
  by (simp add: no_new_grant_def)

lemma no_new_grant_trans: "no_new_grant a b \<Longrightarrow> no_new_grant b c \<Longrightarrow> no_new_grant a c"
  by (auto simp: no_new_grant_def)

abbreviation voters_of :: "'s raft \<Rightarrow> joint_config" where
  "voters_of r \<equiv> cfg_voters (tr_conf (r_prs r))"

abbreviation votes_of :: "'s raft \<Rightarrow> (u64, bool) hmap" where
  "votes_of r \<equiv> tr_votes (r_prs r)"

definition quiet :: "'s raft \<Rightarrow> 's raft \<Rightarrow> bool" where
  "quiet r r' \<longleftrightarrow>
     rc_id r' = rc_id r \<and> rc_term r' = rc_term r \<and> rc_vote r' = rc_vote r \<and> rc_state r' = rc_state r
     \<and> votes_of r' = votes_of r \<and> voters_of r' = voters_of r
     \<and> rc_committed r \<le> rc_committed r' \<and> no_new_grant (r_msgs r) (r_msgs r')"

lemma quiet_refl [simp]: "quiet r r"
  by (simp add: quiet_def)

lemma quiet_trans: "quiet a b \<Longrightarrow> quiet b c \<Longrightarrow> quiet a c"
  using no_new_grant_trans unfolding quiet_def by fastforce

text \<open>Fields the relation does not read.\<close>

lemma quiet_other_fields [simp]:
  "quiet a (r\<lparr>rc_read_states := x0\<rparr>) = quiet a r"
  "quiet a (r\<lparr>rc_pending_request_snapshot := x1\<rparr>) = quiet a r"
  "quiet a (r\<lparr>rc_promotable := x2\<rparr>) = quiet a r"
  "quiet a (r\<lparr>rc_leader_id := x3\<rparr>) = quiet a r"
  "quiet a (r\<lparr>rc_lead_transferee := x4\<rparr>) = quiet a r"
  "quiet a (r\<lparr>rc_pending_conf_index := x5\<rparr>) = quiet a r"
  "quiet a (r\<lparr>rc_read_only := x6\<rparr>) = quiet a r"
  "quiet a (r\<lparr>rc_election_elapsed := x7\<rparr>) = quiet a r"
  "quiet a (r\<lparr>rc_heartbeat_elapsed := x8\<rparr>) = quiet a r"
  "quiet a (r\<lparr>rc_randomized_election_timeout := x9\<rparr>) = quiet a r"
  "quiet a (r\<lparr>rc_uncommitted_state := x10\<rparr>) = quiet a r"
  "quiet a (r\<lparr>rc_rng := x11\<rparr>) = quiet a r"
  by (simp_all add: quiet_def)

lemma quiet_left [simp]:
  "quiet (r\<lparr>rc_read_states := x0\<rparr>) a = quiet r a"
  "quiet (r\<lparr>rc_pending_request_snapshot := x1\<rparr>) a = quiet r a"
  "quiet (r\<lparr>rc_promotable := x2\<rparr>) a = quiet r a"
  "quiet (r\<lparr>rc_leader_id := x3\<rparr>) a = quiet r a"
  "quiet (r\<lparr>rc_lead_transferee := x4\<rparr>) a = quiet r a"
  "quiet (r\<lparr>rc_pending_conf_index := x5\<rparr>) a = quiet r a"
  "quiet (r\<lparr>rc_read_only := x6\<rparr>) a = quiet r a"
  "quiet (r\<lparr>rc_election_elapsed := x7\<rparr>) a = quiet r a"
  "quiet (r\<lparr>rc_heartbeat_elapsed := x8\<rparr>) a = quiet r a"
  "quiet (r\<lparr>rc_randomized_election_timeout := x9\<rparr>) a = quiet r a"
  "quiet (r\<lparr>rc_uncommitted_state := x10\<rparr>) a = quiet r a"
  "quiet (r\<lparr>rc_rng := x11\<rparr>) a = quiet r a"
  by (simp_all add: quiet_def)

lemma quiet_log [simp]: "rc_committed r \<le> rl_committed l \<Longrightarrow> quiet a r \<Longrightarrow> quiet a (r\<lparr>rc_raft_log := l\<rparr>)"
  by (auto simp: quiet_def)

lemma quiet_log_left: "quiet (r\<lparr>rc_raft_log := l\<rparr>) a \<Longrightarrow> rc_committed r \<le> rl_committed l \<Longrightarrow> quiet r a"
  by (auto simp: quiet_def)

lemma quiet_msgs: "quiet a r \<Longrightarrow> no_new_grant (r_msgs r) ms \<Longrightarrow> quiet a (r\<lparr>r_msgs := ms\<rparr>)"
  using no_new_grant_trans by (fastforce simp: quiet_def)

lemma quiet_prs [simp]:
  "tr_votes t = votes_of r \<Longrightarrow> cfg_voters (tr_conf t) = voters_of r \<Longrightarrow> quiet a (r\<lparr>r_prs := t\<rparr>) = quiet a r"
  "tr_votes t = votes_of r \<Longrightarrow> cfg_voters (tr_conf t) = voters_of r \<Longrightarrow> quiet (r\<lparr>r_prs := t\<rparr>) a = quiet r a"
  by (simp_all add: quiet_def)

lemma tracker_fields [simp]:
  "tr_votes (tracker_put t i pr) = tr_votes t" "tr_conf (tracker_put t i pr) = tr_conf t"
  "tr_votes (tracker_enable_group_commit t b) = tr_votes t" "tr_conf (tracker_enable_group_commit t b) = tr_conf t"
  by (simp_all add: tracker_put_def tracker_enable_group_commit_def)

lemma quiet_put [simp]: "quiet a (put_progress r i pr) = quiet a r" "quiet (put_progress r i pr) a = quiet r a"
  by (simp_all add: put_progress_def tracker_put_def)

lemma put_progress_fields [simp]:
  "rc_id (put_progress r i pr) = rc_id r" "rc_term (put_progress r i pr) = rc_term r"
  "rc_raft_log (put_progress r i pr) = rc_raft_log r" "r_msgs (put_progress r i pr) = r_msgs r"
  "rc_state (put_progress r i pr) = rc_state r" "rc_vote (put_progress r i pr) = rc_vote r"
  "votes_of (put_progress r i pr) = votes_of r" "voters_of (put_progress r i pr) = voters_of r"
  by (simp_all add: put_progress_def tracker_put_def)

section \<open>The log never uncommits\<close>

named_theorems log_returns \<open>what a call on the log does to the committed index\<close>

lemma commit_to_returns: "returns (commit_to E l i) (\<lambda>l'. rl_committed l \<le> rl_committed l')"
  by (auto simp: returns_def commit_to_def bind_eq_Some_conv split: if_splits)

lemma log_append_returns: "returns (log_append E l es) (\<lambda>(_, l'). rl_committed l' = rl_committed l)"
  by (auto simp: returns_def log_append_def Let_def bind_eq_Some_conv split: if_splits)

lemma maybe_append_returns: "returns (maybe_append E l i t c es) (\<lambda>(_, l'). rl_committed l \<le> rl_committed l')"
proof -
  note rules = returnsI [of "match_term E l i t"] returnsI [of "find_conflict E l es"] returnsI [of "vec_from es k" for k]
    log_append_returns [THEN returns_mono] commit_to_returns [THEN returns_mono]
  show ?thesis unfolding maybe_append_def by (intro returns_rules rules) (auto split: if_splits)
qed

lemma applied_to_returns: "returns (applied_to l i) (\<lambda>l'. rl_committed l' = rl_committed l)"
  by (auto simp: returns_def applied_to_def applied_to_unchecked_def bind_eq_Some_conv split: if_splits)

lemma log_maybe_commit_returns: "returns (log_maybe_commit E l i t) (\<lambda>(_, l'). rl_committed l \<le> rl_committed l')"
proof -
  note rules = returnsI [of "log_term E l i"] commit_to_returns [THEN returns_mono]
  show ?thesis unfolding log_maybe_commit_def by (intro returns_rules rules) auto
qed

lemma log_maybe_persist_returns: "returns (log_maybe_persist E l i t) (\<lambda>(_, l'). rl_committed l' = rl_committed l)"
  by (auto simp: returns_def log_maybe_persist_def Let_def bind_eq_Some_conv split: if_splits)

lemma log_maybe_persist_snap_returns: "returns (log_maybe_persist_snap l i) (\<lambda>(_, l'). rl_committed l' = rl_committed l)"
  by (auto simp: returns_def log_maybe_persist_snap_def bind_eq_Some_conv split: if_splits)

lemma log_restore_returns: "returns (log_restore l sn) (\<lambda>l'. rl_committed l \<le> rl_committed l')"
  by (auto simp: returns_def log_restore_def Let_def bind_eq_Some_conv)

lemma log_slice_returns: "returns (log_slice E l lo hi sz c) (\<lambda>(_, l'). rl_committed l' = rl_committed l)"
proof -
  note rules = returnsI [of "log_must_check_outofbounds E l lo hi"] returnsI [of "st_entries E s i j k d" for s i j k d]
    returnsI [of "unstable_slice u i j" for u i j] returnsI [of "limit_size f xs k" for f k and xs :: "entry list"]
  show ?thesis unfolding log_slice_def by (intro returns_rules rules) auto
qed

lemma log_entries_returns: "returns (log_entries E l i sz c) (\<lambda>(_, l'). rl_committed l' = rl_committed l)"
proof -
  note rules = returnsI [of "log_last_index E l"] log_slice_returns
  show ?thesis unfolding log_entries_def by (intro returns_rules rules) auto
qed

lemma log_snapshot_returns: "returns (log_snapshot E l i to) (\<lambda>(_, l'). rl_committed l' = rl_committed l)"
  by (auto simp: returns_def log_snapshot_def bind_eq_Some_conv split: option.splits if_splits)

lemma log_scan_returns: "returns (log_scan E l lo hi pg c v acc) (\<lambda>(_, _, l'). rl_committed l' = rl_committed l)"
proof (induction "hi - lo" arbitrary: l lo acc rule: less_induct)
  case less
  have IH: "returns (log_scan E l' lo' hi pg c v acc') (\<lambda>(_, _, l''). rl_committed l'' = n)"
    if "lo < lo'" "lo < hi" "rl_committed l' = n" for l' lo' acc' n
    using less [of lo' l' acc'] that by simp
  show ?case
    by (subst log_scan.simps) (intro returns_rules log_slice_returns [THEN returns_mono] IH, auto)
qed

lemmas log_returns_rules =
  commit_to_returns [THEN returns_mono] log_append_returns [THEN returns_mono] maybe_append_returns [THEN returns_mono]
  applied_to_returns [THEN returns_mono] log_maybe_commit_returns [THEN returns_mono]
  log_maybe_persist_returns [THEN returns_mono] log_maybe_persist_snap_returns [THEN returns_mono]
  log_restore_returns [THEN returns_mono] log_entries_returns [THEN returns_mono]
  log_snapshot_returns [THEN returns_mono] log_scan_returns [THEN returns_mono]

text \<open>Calls whose result the relation does not depend on.\<close>

lemmas other_calls =
  returnsI [of "log_term E l i" for E l i] returnsI [of "log_last_index E l" for E l]
  returnsI [of "log_last_term E l" for E l] returnsI [of "match_term E l i t" for E l i t]
  returnsI [of "find_conflict_by_term E l i t" for E l i t] returnsI [of "commit_info E l" for E l]
  returnsI [of "is_up_to_date E l i t" for E l i t]
  returnsI [of "unwrap x" for x] returnsI [of "vec_get xs i" for xs i] returnsI [of "tracker_get t i" for t i]
  returnsI [of "progress_become_probe p" for p] returnsI [of "progress_become_replicate p" for p]
  returnsI [of "progress_maybe_update p i" for p i] returnsI [of "progress_maybe_decr_to p i j k" for p i j k]
  returnsI [of "progress_update_state p i" for p i]
  returnsI [of "inflights_free_to s i" for s i] returnsI [of "inflights_free_first_one s" for s]
  returnsI [of "inflights_set_cap s i" for s i] returnsI [of "maximal_committed_index t" for t]
  returnsI [of "is_continuous_ents m es" for m es] returnsI [of "maybe_first_index u" for u]
  returnsI [of "gen_range E n lo hi" for E n lo hi] returnsI [of "reset_progress i j k c prs" for i j k c prs]
  returnsI [of "number_entries t li i es" for t li i es] returnsI [of "maybe_increase_uncommitted_size u es" for u es]
  returnsI [of "maybe_reduce_uncommitted_size u es" for u es] returnsI [of "add_request ro i req s" for ro i req s]
  returnsI [of "advance ro ctx" for ro ctx] 
  returnsI [of "vote_resp_msg_type t" for t] returnsI [of "append_acked pr m" for pr m]

section \<open>Sending\<close>

lemma send_returns: "\<not> is_grant m \<Longrightarrow> returns (send r m ms) (\<lambda>ms'. no_new_grant ms ms')"
  by (auto simp: returns_def send_def Let_def bind_eq_Some_conv no_new_grant_def is_grant_def split: if_splits)

lemma try_batching_returns: "returns (try_batching r to ms pr es) (\<lambda>(_, ms', _). no_new_grant ms ms')"
  by (induction ms) (auto simp: returns_def bind_eq_Some_conv no_new_grant_def is_grant_def Let_def)

definition sends :: "('s, 'x) raft_core_scheme \<Rightarrow> message list \<Rightarrow> ('s, 'x) raft_core_scheme \<Rightarrow> message list \<Rightarrow> bool" where
  "sends r ms r' ms' \<longleftrightarrow> r' = r\<lparr>rc_raft_log := rc_raft_log r'\<rparr> \<and> rc_committed r' = rc_committed r \<and> no_new_grant ms ms'"

lemma sends_refl [simp]: "sends r ms r ms"
  by (simp add: sends_def)

lemma sends_trans:
  assumes "sends a ms b ms'" and "sends b ms' c ms''"
  shows "sends a ms c ms''"
proof -
  have ab: "b = a\<lparr>rc_raft_log := rc_raft_log b\<rparr>" and bc: "c = b\<lparr>rc_raft_log := rc_raft_log c\<rparr>"
    using assms by (auto simp: sends_def)
  have "c = (a\<lparr>rc_raft_log := rc_raft_log b\<rparr>)\<lparr>rc_raft_log := rc_raft_log c\<rparr>" unfolding ab [symmetric] by (rule bc)
  then have "c = a\<lparr>rc_raft_log := rc_raft_log c\<rparr>" by simp
  with assms show ?thesis using no_new_grant_trans by (auto simp: sends_def)
qed

lemma send_prepared_snapshot_returns:
  assumes "\<not> is_grant m"
  shows "returns (send_prepared_snapshot E r m to pr ms) (\<lambda>(_, r', _, ms'). sends r ms r' ms')"
  unfolding send_prepared_snapshot_def prepare_send_snapshot_def
  by (intro returns_rules log_returns_rules send_returns [THEN returns_mono]) (auto simp: sends_def is_grant_def)

lemma prepare_send_entries_returns: "returns (prepare_send_entries r m pr t es) (\<lambda>(m', _). m_type m' = MsgAppend)"
  by (auto simp: returns_def prepare_send_entries_def Let_def bind_eq_Some_conv)

lemma maybe_send_append_returns:
  "returns (maybe_send_append E r to pr b ms) (\<lambda>(_, r', _, ms'). sends r ms r' ms')"
proof -
  have snap: "returns (send_prepared_snapshot E (r\<lparr>rc_raft_log := l\<rparr>) (default_message\<lparr>m_to := to\<rparr>) to pr ms)
      (\<lambda>(_, r', _, ms'). sends r ms r' ms')" if "rl_committed l = rc_committed r" for l
    using that by (intro send_prepared_snapshot_returns [THEN returns_mono])
      (auto simp: sends_def is_grant_def default_message_def)
  show ?thesis
    unfolding maybe_send_append_def
    by (intro returns_rules log_returns_rules other_calls snap try_batching_returns [THEN returns_mono]
        send_returns [THEN returns_mono] prepare_send_entries_returns [THEN returns_mono]
        send_prepared_snapshot_returns)
      (auto simp: sends_def is_grant_def default_message_def intro: no_new_grant_trans)
qed

lemma sends_fields: "sends r ms r' ms' \<Longrightarrow> r_prs r' = r_prs r \<and> r_msgs r' = r_msgs r"
proof -
  assume s: "sends r ms r' ms'"
  then obtain l where "r' = r\<lparr>rc_raft_log := l\<rparr>" unfolding sends_def by blast
  then show ?thesis by simp
qed

lemma sends_quiet: "sends r (r_msgs r) r' ms \<Longrightarrow> quiet r (r'\<lparr>r_msgs := ms\<rparr>)"
proof -
  assume s: "sends r (r_msgs r) r' ms"
  then obtain l where "r' = r\<lparr>rc_raft_log := l\<rparr>" unfolding sends_def by blast
  with s show ?thesis by (simp add: quiet_def sends_def)
qed

lemma sends_quiet_prs:
  assumes "sends r (r_msgs r) r' ms" and "tr_votes t = votes_of r" and "cfg_voters (tr_conf t) = voters_of r"
  shows "quiet r (r'\<lparr>r_prs := t, r_msgs := ms\<rparr>)"
  using sends_quiet [OF assms(1)] assms(2,3) by (simp add: quiet_def)

lemma sends_quiet_put:
  assumes "sends r (r_msgs r) r' ms"
  shows "quiet r (r'\<lparr>r_prs := tracker_put (r_prs r') i pr, r_msgs := ms\<rparr>)"
  using sends_quiet_prs [OF assms, of "tracker_put (r_prs r') i pr"] sends_fields [OF assms] by simp

named_theorems quiet_returns \<open>operations that are quiet\<close>

lemma send_append_returns: "returns (send_append E r to pr ms) (\<lambda>(r', _, ms'). sends r ms r' ms')"
  unfolding send_append_def by (intro returns_rules maybe_send_append_returns [THEN returns_mono]) auto

lemma send_append_aggressively_returns:
  "returns (send_append_aggressively E r to pr ms) (\<lambda>(r', _, ms'). sends r ms r' ms')"
proof (induction "send_budget pr" arbitrary: r pr ms rule: less_induct)
  case less
  have IH: "returns (send_append_aggressively E r' to pr' ms') (\<lambda>(r'', _, ms''). sends r ms r'' ms'')"
    if "send_budget pr' < send_budget pr" "sends r ms r' ms'" for r' pr' ms'
    by (rule less [OF that(1), THEN returns_mono]) (use that(2) in \<open>auto intro: sends_trans\<close>)
  show ?case
    by (subst send_append_aggressively.simps)
      (intro returns_rules returns_conj [OF maybe_send_append_budget maybe_send_append_returns, THEN returns_mono] IH, auto)
qed

lemma raft_send_quiet: "\<not> is_grant m \<Longrightarrow> returns (raft_send r m) (quiet r)"
  unfolding raft_send_def
  by (intro returns_rules send_returns [THEN returns_mono]) (auto intro: quiet_msgs)

lemma raft_send_append_quiet: "returns (raft_send_append E r to) (quiet r)"
  unfolding raft_send_append_def
  by (intro returns_rules other_calls send_append_returns [THEN returns_mono])
    (auto simp: put_progress_def intro: sends_quiet_put)

declare raft_send_append_quiet [THEN returns_mono, quiet_returns]

lemma raft_send_append_aggressively_quiet: "returns (raft_send_append_aggressively E r to) (quiet r)"
  unfolding raft_send_append_aggressively_def
  by (intro returns_rules other_calls send_append_aggressively_returns [THEN returns_mono])
    (auto simp: put_progress_def intro: sends_quiet_put)

declare raft_send_append_aggressively_quiet [THEN returns_mono, quiet_returns]

lemma for_each_peer_returns:
  assumes "\<And>i pr r ms. returns (f i pr r ms) (\<lambda>(r', _, ms'). sends r ms r' ms')"
  shows "returns (for_each_peer f s prs r ms) (\<lambda>(r', _, ms'). sends r ms r' ms')"
proof (induction prs arbitrary: r ms)
  case (Cons p prs)
  obtain i pr where p: "p = (i, pr)" by (cases p)
  show ?case
    unfolding p for_each_peer.simps
    by (intro returns_rules assms [THEN returns_mono] Cons.IH [THEN returns_mono]) (auto intro: sends_trans)
qed simp

lemma bcast_quiet:
  assumes "\<And>i pr r ms. returns (f i pr r ms) (\<lambda>(r', _, ms'). sends r ms r' ms')"
  shows "returns (bcast f r) (quiet r)"
  unfolding bcast_def
  by (intro returns_rules for_each_peer_returns [OF assms, THEN returns_mono]) (auto intro: sends_quiet_prs)

lemma bcast_append_quiet: "returns (bcast_append E r) (quiet r)"
  unfolding bcast_append_def by (intro bcast_quiet send_append_returns)

declare bcast_append_quiet [THEN returns_mono, quiet_returns]

lemma bcast_heartbeat_with_ctx_quiet: "returns (bcast_heartbeat_with_ctx r ctx) (quiet r)"
  unfolding bcast_heartbeat_with_ctx_def send_heartbeat_def
  by (intro bcast_quiet returns_rules send_returns [THEN returns_mono])
    (auto simp: is_grant_def sends_def split: option.split)

declare bcast_heartbeat_with_ctx_quiet [THEN returns_mono, quiet_returns]

lemma bcast_heartbeat_quiet: "returns (bcast_heartbeat r) (quiet r)"
  unfolding bcast_heartbeat_def by (rule bcast_heartbeat_with_ctx_quiet)

declare bcast_heartbeat_quiet [THEN returns_mono, quiet_returns]

section \<open>Commit, append and apply\<close>

lemma raft_maybe_commit_quiet: "returns (raft_maybe_commit E r) (\<lambda>(_, r'). quiet r r')"
  unfolding raft_maybe_commit_def
  by (intro returns_rules log_returns_rules other_calls) auto

declare raft_maybe_commit_quiet [THEN returns_mono, quiet_returns]

lemma raft_enable_group_commit_quiet: "returns (raft_enable_group_commit E r b) (quiet r)"
  unfolding raft_enable_group_commit_def
  by (intro returns_rules quiet_returns) (auto intro: quiet_trans)

lemma assign_groups_returns:
  "returns (assign_groups ids t) (\<lambda>t'. tr_votes t' = tr_votes t \<and> tr_conf t' = tr_conf t)"
  by (induction ids t rule: assign_groups.induct) (auto simp: returns_def bind_eq_Some_conv split: option.splits if_splits)

lemma assign_commit_groups_quiet: "returns (assign_commit_groups E r ids) (quiet r)"
  unfolding assign_commit_groups_def
  by (intro returns_rules assign_groups_returns [THEN returns_mono] quiet_returns) (auto intro: quiet_trans)

lemma append_entry_quiet: "returns (append_entry E r es) (\<lambda>(_, r'). quiet r r')"
  unfolding append_entry_def
  by (intro returns_rules log_returns_rules other_calls) auto

declare append_entry_quiet [THEN returns_mono, quiet_returns]

lemma commit_apply_internal_quiet: "returns (commit_apply_internal E r i b) (quiet r)"
  unfolding commit_apply_internal_def
  by (intro returns_rules log_returns_rules other_calls quiet_returns)
    (auto simp: applied_to_unchecked_def intro: quiet_trans dest!: quiet_log_left)

lemma commit_apply_quiet: "returns (commit_apply E r i) (quiet r)"
  unfolding commit_apply_def by (rule commit_apply_internal_quiet)

lemma on_persist_entries_quiet: "returns (on_persist_entries E r i t) (quiet r)"
  unfolding on_persist_entries_def
  by (intro returns_rules log_returns_rules other_calls quiet_returns) (auto intro: quiet_trans dest!: quiet_log_left)

lemma on_persist_snap_quiet: "returns (on_persist_snap r i) (quiet r)"
  unfolding on_persist_snap_def by (intro returns_rules log_returns_rules) auto

section \<open>Handlers\<close>

lemma returns_case_message_type [returns_rules]:
  "(x = MsgHup \<Longrightarrow> returns m0 P) \<Longrightarrow>
     (x = MsgBeat \<Longrightarrow> returns m1 P) \<Longrightarrow>
     (x = MsgPropose \<Longrightarrow> returns m2 P) \<Longrightarrow>
     (x = MsgAppend \<Longrightarrow> returns m3 P) \<Longrightarrow>
     (x = MsgAppendResponse \<Longrightarrow> returns m4 P) \<Longrightarrow>
     (x = MsgRequestVote \<Longrightarrow> returns m5 P) \<Longrightarrow>
     (x = MsgRequestVoteResponse \<Longrightarrow> returns m6 P) \<Longrightarrow>
     (x = MsgSnapshot \<Longrightarrow> returns m7 P) \<Longrightarrow>
     (x = MsgHeartbeat \<Longrightarrow> returns m8 P) \<Longrightarrow>
     (x = MsgHeartbeatResponse \<Longrightarrow> returns m9 P) \<Longrightarrow>
     (x = MsgUnreachable \<Longrightarrow> returns m10 P) \<Longrightarrow>
     (x = MsgSnapStatus \<Longrightarrow> returns m11 P) \<Longrightarrow>
     (x = MsgCheckQuorum \<Longrightarrow> returns m12 P) \<Longrightarrow>
     (x = MsgTransferLeader \<Longrightarrow> returns m13 P) \<Longrightarrow>
     (x = MsgTimeoutNow \<Longrightarrow> returns m14 P) \<Longrightarrow>
     (x = MsgReadIndex \<Longrightarrow> returns m15 P) \<Longrightarrow>
     (x = MsgReadIndexResp \<Longrightarrow> returns m16 P) \<Longrightarrow>
     (x = MsgRequestPreVote \<Longrightarrow> returns m17 P) \<Longrightarrow>
     (x = MsgRequestPreVoteResponse \<Longrightarrow> returns m18 P) \<Longrightarrow>
     returns (case x of MsgHup \<Rightarrow> m0 | MsgBeat \<Rightarrow> m1 | MsgPropose \<Rightarrow> m2 | MsgAppend \<Rightarrow>
       m3 | MsgAppendResponse \<Rightarrow> m4 | MsgRequestVote \<Rightarrow> m5 | MsgRequestVoteResponse \<Rightarrow> m6 |
       MsgSnapshot \<Rightarrow> m7 | MsgHeartbeat \<Rightarrow> m8 | MsgHeartbeatResponse \<Rightarrow> m9 | MsgUnreachable
       \<Rightarrow> m10 | MsgSnapStatus \<Rightarrow> m11 | MsgCheckQuorum \<Rightarrow> m12 | MsgTransferLeader \<Rightarrow>
       m13 | MsgTimeoutNow \<Rightarrow> m14 | MsgReadIndex \<Rightarrow> m15 | MsgReadIndexResp \<Rightarrow> m16 |
       MsgRequestPreVote \<Rightarrow> m17 | MsgRequestPreVoteResponse \<Rightarrow> m18) P"
  by (cases x) simp_all

lemma returns_case_state_role [returns_rules]:
  "(x = Follower \<Longrightarrow> returns a P) \<Longrightarrow> (x = Candidate \<Longrightarrow> returns b P) \<Longrightarrow> (x = Leader \<Longrightarrow> returns c P) \<Longrightarrow>
     (x = PreCandidate \<Longrightarrow> returns d P) \<Longrightarrow>
     returns (case x of Follower \<Rightarrow> a | Candidate \<Rightarrow> b | Leader \<Rightarrow> c | PreCandidate \<Rightarrow> d) P"
  by (cases x) simp_all

lemma returns_case_read_only_option [returns_rules]:
  "(x = Safe \<Longrightarrow> returns a P) \<Longrightarrow> (x = LeaseBased \<Longrightarrow> returns b P) \<Longrightarrow>
     returns (case x of Safe \<Rightarrow> a | LeaseBased \<Rightarrow> b) P"
  by (cases x) simp_all

lemma returns_case_vote_result [returns_rules]:
  "(x = Won \<Longrightarrow> returns a P) \<Longrightarrow> (x = Lost \<Longrightarrow> returns b P) \<Longrightarrow> (x = Pending \<Longrightarrow> returns c P) \<Longrightarrow>
     returns (case x of Won \<Rightarrow> a | Lost \<Rightarrow> b | Pending \<Rightarrow> c) P"
  by (cases x) simp_all

lemma handle_ready_read_index_quiet:
  "returns (handle_ready_read_index r req i) (\<lambda>(m, r'). quiet r r' \<and> (\<forall>m' \<in> set_option m. \<not> is_grant m'))"
  unfolding handle_ready_read_index_def
  by (intro returns_rules other_calls) (auto simp: is_grant_def)

lemma respond_read_quiet: "returns (respond_read r req i) (quiet r)"
  unfolding respond_read_def
  by (intro returns_rules handle_ready_read_index_quiet [THEN returns_mono] raft_send_quiet [THEN returns_mono])
    (auto intro: quiet_trans)

declare respond_read_quiet [THEN returns_mono, quiet_returns]

lemma respond_reads_quiet: "returns (respond_reads r ctx) (quiet r)"
  unfolding respond_reads_def
  by (intro returns_rules other_calls returns_fold respond_read_quiet [THEN returns_mono]) (auto intro: quiet_trans)

declare respond_reads_quiet [THEN returns_mono, quiet_returns]

lemma send_timeout_now_quiet: "returns (send_timeout_now r to) (quiet r)"
  unfolding send_timeout_now_def by (rule raft_send_quiet) (simp add: is_grant_def new_message_def Let_def)

declare send_timeout_now_quiet [THEN returns_mono, quiet_returns]

lemma send_request_snapshot_quiet: "returns (send_request_snapshot E r) (quiet r)"
  unfolding send_request_snapshot_def
  by (intro returns_rules other_calls raft_send_quiet) (simp add: is_grant_def)

declare send_request_snapshot_quiet [THEN returns_mono, quiet_returns]

lemma request_snapshot_quiet: "returns (request_snapshot E r) (\<lambda>(_, r'). quiet r r')"
  unfolding request_snapshot_def
  by (intro returns_rules other_calls quiet_returns) auto

lemma has_unapplied_conf_changes_quiet: "returns (has_unapplied_conf_changes E r lo hi c) (\<lambda>(_, r'). quiet r r')"
  unfolding has_unapplied_conf_changes_def
  by (intro returns_rules log_returns_rules other_calls) auto

declare has_unapplied_conf_changes_quiet [THEN returns_mono, quiet_returns]

lemma handle_append_response_quiet: "returns (handle_append_response E r m) (quiet r)"
  unfolding handle_append_response_def
  by (intro returns_rules other_calls quiet_returns) (auto intro: quiet_trans)

declare handle_append_response_quiet [THEN returns_mono, quiet_returns]

lemma handle_heartbeat_response_quiet: "returns (handle_heartbeat_response E r m) (quiet r)"
  unfolding handle_heartbeat_response_def
  by (intro returns_rules other_calls quiet_returns) (auto intro: quiet_trans)

declare handle_heartbeat_response_quiet [THEN returns_mono, quiet_returns]

lemma handle_transfer_leader_quiet: "returns (handle_transfer_leader E r m) (quiet r)"
  unfolding handle_transfer_leader_def abort_leader_transfer_def
  by (intro returns_rules other_calls quiet_returns) (auto split: if_splits)

declare handle_transfer_leader_quiet [THEN returns_mono, quiet_returns]

lemma handle_snapshot_status_quiet: "returns (handle_snapshot_status r m) (quiet r)"
  unfolding handle_snapshot_status_def by (intro returns_rules other_calls) auto

declare handle_snapshot_status_quiet [THEN returns_mono, quiet_returns]

lemma handle_unreachable_quiet: "returns (handle_unreachable r m) (quiet r)"
  unfolding handle_unreachable_def by (intro returns_rules other_calls) auto

declare handle_unreachable_quiet [THEN returns_mono, quiet_returns]

lemma propose_entries_quiet: "returns (propose_entries E i es r) (\<lambda>(_, r'). quiet r r')"
proof (induction es arbitrary: i r)
  case (Cons e es)
  show ?case
    unfolding propose_entries.simps
    by (intro returns_rules other_calls Cons.IH [THEN returns_mono]) auto
qed simp

declare propose_entries_quiet [THEN returns_mono, quiet_returns]

lemma leader_propose_quiet: "returns (leader_propose E r m) (\<lambda>(_, r'). quiet r r')"
  unfolding leader_propose_def
  by (intro returns_rules quiet_returns) (auto intro: quiet_trans)

declare leader_propose_quiet [THEN returns_mono, quiet_returns]

lemma commit_to_current_term_any: "(\<And>x. P x) \<Longrightarrow> returns (commit_to_current_term E r) P"
  by (simp add: returns_def)

lemma leader_read_index_quiet: "returns (leader_read_index E r m) (quiet r)"
  unfolding leader_read_index_def
  by (intro returns_rules other_calls quiet_returns commit_to_current_term_any) auto

declare leader_read_index_quiet [THEN returns_mono, quiet_returns]

lemma post_conf_change_quiet: "returns (post_conf_change E r) (\<lambda>(_, r'). quiet r r')"
proof -
  have b: "returns (bcast (\<lambda>i pr r msgs. do {
        (_, r, pr, msgs) \<leftarrow> maybe_send_append E r i pr False msgs; Some (r, pr, msgs) }) r) (quiet r)" for r
    by (intro bcast_quiet returns_rules maybe_send_append_returns [THEN returns_mono]) auto
  show ?thesis
    unfolding post_conf_change_def abort_leader_transfer_def
    by (intro returns_rules quiet_returns b [THEN returns_mono]) (auto intro: quiet_trans split: option.split)
qed

declare post_conf_change_quiet [THEN returns_mono, quiet_returns]

lemma handle_append_entries_quiet: "returns (handle_append_entries E r m) (quiet r)"
  unfolding handle_append_entries_def
  by (intro returns_rules quiet_returns other_calls log_returns_rules raft_send_quiet [THEN returns_mono])
    (auto simp: is_grant_def intro: quiet_log_left)

declare handle_append_entries_quiet [THEN returns_mono, quiet_returns]

lemma handle_heartbeat_quiet: "returns (handle_heartbeat E r m) (quiet r)"
  unfolding handle_heartbeat_def
  by (intro returns_rules quiet_returns other_calls log_returns_rules raft_send_quiet [THEN returns_mono])
    (auto simp: is_grant_def intro: quiet_log_left)

declare handle_heartbeat_quiet [THEN returns_mono, quiet_returns]


lemma new_message_fields [simp]:
  "m_type (new_message to ty f) = ty" "m_to (new_message to ty f) = to" "m_from (new_message to ty None) = INVALID_ID"
  by (simp_all add: new_message_def default_message_def Let_def split: option.split)

lemma quorum_recently_active_fields:
  "quorum_recently_active t i = (t', b) \<Longrightarrow> tr_votes t' = tr_votes t \<and> tr_conf t' = tr_conf t"
  by (auto simp: quorum_recently_active_def Let_def split: prod.splits)

section \<open>Role changes\<close>

text \<open>What a reset leaves alone.\<close>

definition reset_from :: "'s raft \<Rightarrow> u64 \<Rightarrow> 's raft \<Rightarrow> bool" where
  "reset_from r t r' \<longleftrightarrow>
     rc_id r' = rc_id r \<and> rc_term r' = t \<and> rc_vote r' = (if rc_term r = t then rc_vote r else INVALID_ID)
     \<and> votes_of r' = [] \<and> voters_of r' = voters_of r \<and> rc_committed r' = rc_committed r \<and> r_msgs r' = r_msgs r"

lemma raft_reset_returns: "returns (raft_reset E r t) (\<lambda>r'. reset_from r t r' \<and> rc_state r' = rc_state r)"
  unfolding raft_reset_def reset_randomized_election_timeout_def abort_leader_transfer_def tracker_reset_votes_def
  by (intro returns_rules other_calls) (auto simp: reset_from_def)

lemma become_follower_returns: "returns (become_follower E r t i) (\<lambda>r'. reset_from r t r' \<and> rc_state r' = Follower)"
  unfolding become_follower_def set_max_apply_unpersisted_log_limit_def
  by (intro returns_rules raft_reset_returns [THEN returns_mono]) (auto simp: reset_from_def)

lemma become_candidate_returns:
  "returns (become_candidate E r) (\<lambda>r'. reset_from r (rc_term r + 1) (r'\<lparr>rc_vote := INVALID_ID\<rparr>)
     \<and> rc_vote r' = rc_id r \<and> rc_state r' = Candidate)"
  unfolding become_candidate_def
  by (intro returns_rules raft_reset_returns [THEN returns_mono] returnsI [of "u64_add i j" for i j])
    (auto simp: reset_from_def bind_eq_Some_conv u64_add_def split: if_splits)

lemma become_leader_returns:
  "returns (become_leader E r) (\<lambda>r'. rc_id r' = rc_id r \<and> rc_term r' = rc_term r \<and> rc_vote r' = rc_vote r
     \<and> rc_state r' = Leader \<and> voters_of r' = voters_of r \<and> rc_committed r \<le> rc_committed r' \<and> no_new_grant (r_msgs r) (r_msgs r'))"
  unfolding become_leader_def
  by (intro returns_rules raft_reset_returns [THEN returns_mono] other_calls quiet_returns) (auto simp: reset_from_def quiet_def)

lemma send_vote_request_returns:
  "ty \<in> {MsgRequestVote, MsgRequestPreVote} \<Longrightarrow>
     returns (send_vote_request E r ct ty t c u i ms) (no_new_grant ms)"
  unfolding send_vote_request_def
  by (intro returns_rules other_calls send_returns [THEN returns_mono])
    (auto simp: is_grant_def new_message_def Let_def)

lemma vote_requests_returns:
  assumes "ty \<in> {MsgRequestVote, MsgRequestPreVote}"
  shows "returns (fold_panic (send_vote_request E r ct ty t c u) ids ms) (no_new_grant ms)"
  by (rule returns_fold) (auto intro: send_vote_request_returns [OF assms, THEN returns_mono] no_new_grant_trans)

text \<open>
  The other methods of \<open>Raft\<close> that are public, most of them for tests. Four ways to change a node are left
  out, because with them a caller can give it any role, term and vote: \<open>reset\<close>, \<open>become_leader\<close>,
  \<open>load_state\<close>, and writing to what \<open>mut_prs\<close> hands out or to a public field. \<open>become_follower\<close> is called
  with a term that is not below that of the node.
\<close>

datatype raft_call =
    SetPriority i64
  | SetRandomizedElectionTimeout usize
  | SetSkipBcastCommit bool
  | SetBatchAppend bool
  | SetMaxCommittedSizePerReady u64
  | SetCheckQuorum bool
  | SetMaxApplyUnpersistedLogLimit u64
  | CallSendAppend u64
  | CallBcastAppend
  | CallBcastHeartbeat
  | CallMaybeCommit
  | CallAppendEntry "entry list"
  | CallTickElection
  | CallBecomeFollower u64 u64
  | CallBecomeCandidate
  | CallBecomePreCandidate
  | CallCampaign bytes
  | CallHandleAppendEntries message
  | CallHandleHeartbeat message
  | CallRestore snapshot
  | CallPostConfChange
  | CallResetRandomizedElectionTimeout
  | CallSendTimeoutNow u64
  | CallAbortLeaderTransfer
  | CallMaybeIncreaseUncommittedSize "entry list"

definition call_raft :: "'s env \<Rightarrow> 's raft \<Rightarrow> raft_call \<Rightarrow> 's raft option" where
  "call_raft E r c =
     (case c of
        SetPriority p \<Rightarrow> Some (set_priority r p)
      | SetRandomizedElectionTimeout t \<Rightarrow> set_randomized_election_timeout r t
      | SetSkipBcastCommit b \<Rightarrow> Some (set_skip_bcast_commit r b)
      | SetBatchAppend b \<Rightarrow> Some (set_batch_append r b)
      | SetMaxCommittedSizePerReady n \<Rightarrow> Some (set_max_committed_size_per_ready r n)
      | SetCheckQuorum b \<Rightarrow> Some (set_check_quorum r b)
      | SetMaxApplyUnpersistedLogLimit n \<Rightarrow> Some (set_max_apply_unpersisted_log_limit r n)
      | CallSendAppend to \<Rightarrow> raft_send_append E r to
      | CallBcastAppend \<Rightarrow> bcast_append E r
      | CallBcastHeartbeat \<Rightarrow> bcast_heartbeat r
      | CallMaybeCommit \<Rightarrow> map_option snd (raft_maybe_commit E r)
      | CallAppendEntry es \<Rightarrow> map_option snd (append_entry E r es)
      | CallTickElection \<Rightarrow> map_option snd (tick_election E r)
      | CallBecomeFollower t i \<Rightarrow> if rc_term r \<le> t then become_follower E r t i else None
      | CallBecomeCandidate \<Rightarrow> become_candidate E r
      | CallBecomePreCandidate \<Rightarrow> become_pre_candidate r
      | CallCampaign ct \<Rightarrow> campaign E r ct
      | CallHandleAppendEntries m \<Rightarrow> handle_append_entries E r m
      | CallHandleHeartbeat m \<Rightarrow> handle_heartbeat E r m
      | CallRestore sn \<Rightarrow> map_option snd (raft_restore E r sn)
      | CallPostConfChange \<Rightarrow> map_option snd (post_conf_change E r)
      | CallResetRandomizedElectionTimeout \<Rightarrow> reset_randomized_election_timeout E r
      | CallSendTimeoutNow to \<Rightarrow> send_timeout_now r to
      | CallAbortLeaderTransfer \<Rightarrow> Some (abort_leader_transfer r)
      | CallMaybeIncreaseUncommittedSize es \<Rightarrow>
          do { (_, u) \<leftarrow> maybe_increase_uncommitted_size (rc_uncommitted_state r) es; Some (r\<lparr>rc_uncommitted_state := u\<rparr>) })"

text \<open>What a node is asked to do.\<close>

datatype node_input =
    Receive message
  | Tick
  | Ping
  | Applied u64
  | PersistedEntries u64 u64
  | PersistedSnap u64
  | ApplyConfChange conf_change_v2
  | RequestSnapshot
  | EnableGroupCommit bool
  | AssignCommitGroups "(u64 \<times> u64) list"
  | ClearCommitGroup
  | ReduceUncommitted "entry list"
  | AdjustInflight u64 usize
  | FreeInflightBuffers
  | StableSnap u64
  | StableEntries u64 u64
  | Call raft_call

definition react :: "'s env \<Rightarrow> 's raft \<Rightarrow> node_input \<Rightarrow> 's raft option" where
  "react E r i =
     (case i of
        Receive m \<Rightarrow> map_option snd (step E r m)
      | Tick \<Rightarrow> map_option snd (tick E r)
      | Ping \<Rightarrow> ping r
      | Applied n \<Rightarrow> commit_apply E r n
      | PersistedEntries n t \<Rightarrow> on_persist_entries E r n t
      | PersistedSnap n \<Rightarrow> on_persist_snap r n
      | ApplyConfChange cc \<Rightarrow> map_option snd (apply_conf_change E r cc)
      | RequestSnapshot \<Rightarrow> map_option snd (request_snapshot E r)
      | EnableGroupCommit b \<Rightarrow> raft_enable_group_commit E r b
      | AssignCommitGroups ids \<Rightarrow> assign_commit_groups E r ids
      | ClearCommitGroup \<Rightarrow> Some (clear_commit_group r)
      | ReduceUncommitted es \<Rightarrow> reduce_uncommitted_size r es
      | AdjustInflight n c \<Rightarrow> adjust_max_inflight_msgs r n c
      | FreeInflightBuffers \<Rightarrow> Some (maybe_free_inflight_buffers r)
      | StableSnap n \<Rightarrow> do { l \<leftarrow> log_stable_snap (rc_raft_log r) n; Some (r\<lparr>rc_raft_log := l\<rparr>) }
      | StableEntries n t \<Rightarrow> do { l \<leftarrow> log_stable_entries (rc_raft_log r) n t; Some (r\<lparr>rc_raft_log := l\<rparr>) }
      | Call c \<Rightarrow> call_raft E r c)"

text \<open>What the application writes to the store through \<open>mut_store\<close>.\<close>

definition with_store :: "'s raft \<Rightarrow> 's \<Rightarrow> 's raft" where
  "with_store r s = r\<lparr>rc_raft_log := (rc_raft_log r)\<lparr>rl_store := s\<rparr>\<rparr>"

lemma with_store_quiet [simp]: "quiet r (with_store r s)"
  by (simp add: with_store_def)

lemma returns_snd: "returns m (\<lambda>(_, r'). P r') \<Longrightarrow> returns (map_option snd m) P"
  by (auto simp: returns_def)

text \<open>
  The relations. A vote response is handed to \<open>poll\<close> only when it is acceptable: \<open>acc\<close> says what is
  known of the messages that arrive.
\<close>

locale node_relation =
  fixes R :: "'s raft \<Rightarrow> 's raft \<Rightarrow> bool" and acc :: "message \<Rightarrow> bool"
  assumes R_trans: "R a b \<Longrightarrow> R b c \<Longrightarrow> R a c"
    and R_quiet: "quiet a b \<Longrightarrow> R a b"
    and R_tracker: "rc_state a = Follower \<Longrightarrow> R a (a\<lparr>r_prs := t\<rparr>)"
    and R_follower: "rc_term a \<le> u \<Longrightarrow> reset_from a u b \<Longrightarrow> rc_state b = Follower \<Longrightarrow> R a b"
    and R_candidate: "returns (become_candidate E a) (R a)"
    and R_pre_candidate: "returns (become_pre_candidate a) (R a)"
    and R_campaign: "returns (campaign E a ct) (R a)"
    and R_poll: "rc_state a = Candidate \<or> rc_state a = PreCandidate \<Longrightarrow> acc m \<Longrightarrow>
      (rc_state a = Candidate \<longrightarrow> is_grant m \<and> m_term m \<noteq> 0 \<longrightarrow> m_term m = rc_term a) \<Longrightarrow>
      (rc_state a = Candidate \<longrightarrow> m_type m = MsgRequestVoteResponse) \<Longrightarrow>
      returns (poll E a (m_from m) (m_type m) (\<not> m_reject m)) (\<lambda>(_, b). R a b)"
    and acc_other: "m_type m \<noteq> MsgRequestVoteResponse \<Longrightarrow> acc m"
begin

lemma R_refl [simp]: "R r r"
  by (rule R_quiet) simp

lemma R_quiet_right: "R a b \<Longrightarrow> quiet b c \<Longrightarrow> R a c"
  using R_trans R_quiet by blast

lemma R_quiet_left: "quiet a b \<Longrightarrow> R b c \<Longrightarrow> R a c"
  using R_trans R_quiet by blast

lemmas R_intros = R_trans R_quiet R_quiet_right R_quiet_left quiet_trans

lemma become_follower_R: "rc_term r \<le> t \<Longrightarrow> returns (become_follower E r t i) (R r)"
  by (rule become_follower_returns [THEN returns_mono]) (auto intro: R_follower)

lemma become_follower_from_R:
  assumes "R a r" and "rc_term r \<le> t"
  shows "returns (become_follower E r t i) (\<lambda>r'. R a r' \<and> rc_state r' = Follower \<and> rc_term r' = t)"
proof (rule become_follower_returns [THEN returns_mono])
  fix r'
  assume f: "reset_from r t r' \<and> rc_state r' = Follower"
  then have "R r r'" using R_follower assms(2) by blast
  then show "R a r' \<and> rc_state r' = Follower \<and> rc_term r' = t" using assms(1) R_trans f unfolding reset_from_def by blast
qed

lemma hup_R: "returns (hup E r b) (R r)"
  unfolding hup_def
  by (intro returns_rules other_calls quiet_returns R_campaign [THEN returns_mono]) (auto intro: R_intros)

lemma maybe_commit_by_vote_R: "returns (maybe_commit_by_vote E r m) (R r)"
  unfolding maybe_commit_by_vote_def
  by (intro returns_rules log_returns_rules other_calls quiet_returns become_follower_R [THEN returns_mono])
    (auto intro: R_intros dest!: quiet_log_left)

lemma ok_step_R: "returns m (R r) \<Longrightarrow> returns (ok_step m) (\<lambda>(_, r'). R r r')"
  unfolding ok_step_def by (intro returns_rules) (auto intro: returns_mono)

text \<open>Fields that no such relation reads.\<close>

lemma R_same_right: "quiet r s \<Longrightarrow> quiet s r \<Longrightarrow> R a s = R a r"
  using R_quiet_right by blast

lemma R_same_left: "quiet r s \<Longrightarrow> quiet s r \<Longrightarrow> R s a = R r a"
  using R_quiet_left by blast

lemma R_fields [simp]:
  "R a (r\<lparr>rc_leader_id := x0\<rparr>) = R a r"
  "R a (r\<lparr>rc_lead_transferee := x1\<rparr>) = R a r"
  "R a (r\<lparr>rc_election_elapsed := x2\<rparr>) = R a r"
  "R a (r\<lparr>rc_heartbeat_elapsed := x3\<rparr>) = R a r"
  by (rule R_same_right; simp)+

lemma R_fields_left [simp]:
  "R (r\<lparr>rc_leader_id := x0\<rparr>) a = R r a"
  "R (r\<lparr>rc_lead_transferee := x1\<rparr>) a = R r a"
  "R (r\<lparr>rc_election_elapsed := x2\<rparr>) a = R r a"
  "R (r\<lparr>rc_heartbeat_elapsed := x3\<rparr>) a = R r a"
  by (rule R_same_left; simp)+

lemma R_prs_left: "R (r\<lparr>r_prs := t\<rparr>) a \<Longrightarrow> tr_votes t = votes_of r \<Longrightarrow> tr_conf t = tr_conf (r_prs r) \<Longrightarrow> R r a"
  by (erule R_quiet_left [rotated]) simp

lemma step_leader_R: "returns (step_leader E r m) (\<lambda>(_, r'). R r r')"
  unfolding step_leader_def check_quorum_active_def
  by (intro returns_rules ok_step_R quiet_returns become_follower_R [THEN returns_mono])
    (auto intro: R_quiet R_prs_left dest!: quorum_recently_active_fields split: prod.splits)

lemma restore_tracker_R:
  assumes "rc_state r = Follower"
  shows "returns (restore_tracker E r cs) (R r)"
proof -
  have step: "R r r'" if "quiet (r\<lparr>r_prs := t\<rparr>) r'" for r' t
    using R_trans [OF R_tracker R_quiet [OF that]] assms by blast
  show ?thesis
    unfolding restore_tracker_def by (intro returns_rules other_calls quiet_returns) (auto intro: step)
qed

lemma raft_restore_R: "returns (raft_restore E r sn) (\<lambda>(_, r'). R r r')"
proof -
  have log: "R r r'" if "R (r\<lparr>rc_raft_log := l\<rparr>) r'" "rc_committed r \<le> rl_committed l" for r' l
    using R_quiet_left [OF _ that(1)] that(2) by simp
  show ?thesis
    unfolding raft_restore_def
    by (intro returns_rules other_calls log_returns_rules become_follower_R [THEN returns_mono] restore_tracker_R [THEN returns_mono])
      (auto intro: log R_quiet)
qed

lemma handle_snapshot_R: "returns (handle_snapshot E r m) (R r)"
  unfolding handle_snapshot_def
  by (intro returns_rules other_calls raft_restore_R [THEN returns_mono] raft_send_quiet [THEN returns_mono])
    (auto simp: is_grant_def intro: R_quiet_right)

lemma step_candidate_R:
  assumes "rc_state r = Candidate \<or> rc_state r = PreCandidate" and "acc m"
    and "rc_state r = Candidate \<longrightarrow> is_grant m \<and> m_term m \<noteq> 0 \<longrightarrow> m_term m = rc_term r"
  shows "returns (step_candidate E r m) (\<lambda>(_, r'). R r r')"
proof -
  have poll: "returns (poll E r (m_from m) t (\<not> m_reject m)) (\<lambda>(_, b). R r b)"
    if "m_type m = t" "rc_state r = Candidate \<longrightarrow> t = MsgRequestVoteResponse" for t
    using R_poll [OF assms, of E] that by simp
  show ?thesis
    unfolding step_candidate_def
    by (intro returns_rules ok_step_R quiet_returns become_follower_R [THEN returns_mono] handle_snapshot_R [THEN returns_mono]
        poll [THEN returns_mono] maybe_commit_by_vote_R [THEN returns_mono])
      (auto intro: R_trans R_quiet_right)
qed

lemma step_follower_R: "returns (step_follower E r m) (\<lambda>(_, r'). R r r')"
  unfolding step_follower_def forward_to_leader_def
  by (intro returns_rules ok_step_R quiet_returns log_returns_rules raft_send_quiet [THEN returns_mono]
      handle_snapshot_R [THEN returns_mono] hup_R [THEN returns_mono])
    (auto simp: is_grant_def intro: R_quiet R_prs_left)

text \<open>After the term rules a message has the term of the node, unless it is local.\<close>

lemma step_term_R:
  "returns (step_term E r m) (\<lambda>(go, r'). R r r' \<and> (go \<longrightarrow> m_term m \<noteq> 0 \<longrightarrow> m_term m = rc_term r'
     \<or> m_type m = MsgRequestPreVote \<or> m_type m = MsgRequestPreVoteResponse))"
  unfolding step_term_def
  by (intro returns_rules become_follower_from_R [THEN returns_mono] raft_send_quiet [THEN returns_mono])
    (auto simp: is_grant_def new_message_def Let_def intro: R_quiet)

lemma step_R:
  assumes "\<not> is_vote_request (m_type m)" and "acc m"
  shows "returns (step E r m) (\<lambda>(_, r'). R r r')"
  unfolding step_def
  by (intro returns_rules step_term_R [THEN returns_mono] ok_step_R [THEN returns_mono] hup_R [THEN returns_mono]
      step_candidate_R [THEN returns_mono] step_follower_R [THEN returns_mono] step_leader_R [THEN returns_mono])
    (use assms in \<open>auto simp: is_grant_def intro: R_trans\<close>)

lemma tick_election_R: "returns (tick_election E r) (\<lambda>(_, r'). R r r')"
  unfolding tick_election_def
  by (intro returns_rules step_R [THEN returns_mono]) (auto simp: is_vote_request_def acc_other intro: R_quiet)

lemma tick_R: "returns (tick E r) (\<lambda>(_, r'). R r r')"
proof -
  have "returns (tick_heartbeat E r) (\<lambda>(_, r'). R r r')"
    unfolding tick_heartbeat_def abort_leader_transfer_def
    by (intro returns_rules step_R [THEN returns_mono])
      (auto simp: is_vote_request_def acc_other intro: R_quiet R_trans split: if_splits)
  then show ?thesis unfolding tick_def using tick_election_R by simp
qed

lemma call_raft_R: "returns (call_raft E r c) (R r)"
proof -
  note q = returns_mono [OF _ R_quiet]
  show ?thesis
  proof (cases c)
    case (SetRandomizedElectionTimeout t)
    then show ?thesis by (auto simp: call_raft_def returns_def set_randomized_election_timeout_def bind_eq_Some_conv intro: R_quiet)
  next
    case CallResetRandomizedElectionTimeout
    then show ?thesis by (auto simp: call_raft_def returns_def reset_randomized_election_timeout_def bind_eq_Some_conv intro: R_quiet)
  next
    case (CallMaybeIncreaseUncommittedSize es)
    then show ?thesis by (auto simp: call_raft_def returns_def bind_eq_Some_conv intro: R_quiet)
  next
    case CallTickElection
    then show ?thesis by (simp add: call_raft_def returns_snd [OF tick_election_R])
  next
    case (CallBecomeFollower t i)
    then show ?thesis using become_follower_R [of r t E i] by (simp add: call_raft_def returns_def)
  next
    case (CallRestore sn)
    then show ?thesis by (simp add: call_raft_def returns_snd [OF raft_restore_R])
  next
    case (CallSendAppend to)
    then show ?thesis using q [OF raft_send_append_quiet] by (simp add: call_raft_def)
  next
    case CallBcastAppend
    then show ?thesis using q [OF bcast_append_quiet] by (simp add: call_raft_def)
  next
    case CallBcastHeartbeat
    then show ?thesis using q [OF bcast_heartbeat_quiet] by (simp add: call_raft_def)
  next
    case CallMaybeCommit
    then show ?thesis using q [OF returns_snd [OF raft_maybe_commit_quiet]] by (simp add: call_raft_def)
  next
    case (CallAppendEntry es)
    then show ?thesis using q [OF returns_snd [OF append_entry_quiet]] by (simp add: call_raft_def)
  next
    case (CallHandleAppendEntries m)
    then show ?thesis using q [OF handle_append_entries_quiet] by (simp add: call_raft_def)
  next
    case (CallHandleHeartbeat m)
    then show ?thesis using q [OF handle_heartbeat_quiet] by (simp add: call_raft_def)
  next
    case CallPostConfChange
    then show ?thesis using q [OF returns_snd [OF post_conf_change_quiet]] by (simp add: call_raft_def)
  next
    case (CallSendTimeoutNow to)
    then show ?thesis using q [OF send_timeout_now_quiet] by (simp add: call_raft_def)
  qed (simp_all add: call_raft_def R_candidate R_pre_candidate R_campaign set_priority_def set_skip_bcast_commit_def
      set_batch_append_def set_max_committed_size_per_ready_def set_check_quorum_def
      set_max_apply_unpersisted_log_limit_def abort_leader_transfer_def R_quiet quiet_def)
qed

lemma react_R:
  assumes "case i of Receive m \<Rightarrow> acc m \<and> \<not> is_vote_request (m_type m) | ApplyConfChange _ \<Rightarrow> False | _ \<Rightarrow> True"
  shows "returns (react E r i) (R r)"
proof (cases i)
  case (Receive m)
  then show ?thesis using assms step_R [of m E r] by (simp add: react_def returns_snd)
next
  case Tick
  then show ?thesis using tick_R [of E r] by (simp add: react_def returns_snd)
next
  case (ReduceUncommitted es)
  have "returns (reduce_uncommitted_size r es) (quiet r)"
    unfolding reduce_uncommitted_size_def by (intro returns_rules other_calls) auto
  with ReduceUncommitted show ?thesis using R_quiet by (auto simp: react_def intro: returns_mono)
next
  case (AdjustInflight n c)
  have "returns (adjust_max_inflight_msgs r n c) (quiet r)"
    unfolding adjust_max_inflight_msgs_def by (intro returns_rules other_calls) auto
  with AdjustInflight show ?thesis using R_quiet by (auto simp: react_def intro: returns_mono)
next
  case (StableSnap n)
  have "returns (react E r i) (quiet r)"
    unfolding StableSnap by (auto simp: react_def returns_def log_stable_snap_def bind_eq_Some_conv)
  then show ?thesis using R_quiet by (rule returns_mono)
next
  case (StableEntries n t)
  have "returns (react E r i) (quiet r)"
    unfolding StableEntries by (auto simp: react_def returns_def log_stable_entries_def bind_eq_Some_conv)
  then show ?thesis using R_quiet by (rule returns_mono)
next
  case (Call c)
  then show ?thesis using call_raft_R by (simp add: react_def)
next
  case Ping
  have "returns (ping r) (quiet r)" unfolding ping_def by (intro returns_rules quiet_returns) auto
  with Ping show ?thesis using R_quiet by (auto simp: react_def intro: returns_mono)
qed (use assms in \<open>auto simp: react_def clear_commit_group_def maybe_free_inflight_buffers_def R_quiet
    intro!: returns_mono [OF commit_apply_quiet R_quiet] returns_mono [OF on_persist_entries_quiet R_quiet]
      returns_mono [OF on_persist_snap_quiet R_quiet] returns_mono [OF returns_snd [OF request_snapshot_quiet] R_quiet]
      returns_mono [OF raft_enable_group_commit_quiet R_quiet] returns_mono [OF assign_commit_groups_quiet R_quiet]\<close>)

end

end
