(* ===== verification/Raft_Safety.thy ===== *)
theory Raft_Safety
  imports Node_Relation
begin

text \<open>
  What a node keeps whatever it is sent: its id, the order of its terms, its vote within a term, and
  its committed index. The relation \<open>evolves\<close> holds between the node before and after every
  operation of \<open>src/raft.rs\<close>: it is an instance of \<open>node_relation\<close>.
\<close>

section \<open>The relation\<close>

definition core_evolves :: "('s, 'x) raft_core_scheme \<Rightarrow> ('s, 'x) raft_core_scheme \<Rightarrow> bool" where
  "core_evolves r r' \<longleftrightarrow>
     rc_id r' = rc_id r \<and> rc_term r \<le> rc_term r' \<and> rc_committed r \<le> rc_committed r'
     \<and> (rc_term r' = rc_term r \<longrightarrow> rc_vote r \<noteq> INVALID_ID \<longrightarrow> rc_vote r' = rc_vote r)"

definition evolves :: "'s raft \<Rightarrow> 's raft \<Rightarrow> bool" where
  "evolves r r' \<longleftrightarrow> core_evolves r r' \<and> no_new_grant (r_msgs r) (r_msgs r')"

lemma core_evolves_refl [simp]: "core_evolves r r"
  by (simp add: core_evolves_def)

lemma core_evolves_trans: "core_evolves a b \<Longrightarrow> core_evolves b c \<Longrightarrow> core_evolves a c"
  by (auto simp: core_evolves_def)

lemma evolves_refl [simp]: "evolves r r"
  by (simp add: evolves_def)

lemma evolves_trans: "evolves a b \<Longrightarrow> evolves b c \<Longrightarrow> evolves a c"
  using core_evolves_trans no_new_grant_trans unfolding evolves_def by blast

lemma quiet_evolves: "quiet a b \<Longrightarrow> evolves a b"
  by (simp add: quiet_def evolves_def core_evolves_def)

lemma evolves_msgs: "evolves a r \<Longrightarrow> no_new_grant (r_msgs r) ms \<Longrightarrow> evolves a (r\<lparr>r_msgs := ms\<rparr>)"
  using no_new_grant_trans by (fastforce simp: evolves_def core_evolves_def)

lemma evolves_prs [simp]: "evolves a (r\<lparr>r_prs := t\<rparr>) = evolves a r" "evolves (r\<lparr>r_prs := t\<rparr>) a = evolves r a"
  by (simp_all add: evolves_def core_evolves_def)

section \<open>Elections keep it\<close>

lemma reset_evolves: "rc_term r \<le> t \<Longrightarrow> reset_from r t r' \<Longrightarrow> evolves r r'"
  by (auto simp: reset_from_def evolves_def core_evolves_def)

lemma become_candidate_ev: "returns (become_candidate E r) (evolves r)"
  by (rule become_candidate_returns [THEN returns_mono]) (auto simp: reset_from_def evolves_def core_evolves_def)

lemma become_pre_candidate_ev: "returns (become_pre_candidate r) (evolves r)"
  unfolding become_pre_candidate_def by (intro returns_rules) (simp add: evolves_def core_evolves_def)

lemma become_leader_ev: "returns (become_leader E r) (evolves r)"
  by (rule become_leader_returns [THEN returns_mono]) (auto simp: evolves_def core_evolves_def)

lemma begin_campaign_ev: "returns (begin_campaign E r ct) (\<lambda>(ty, _, r'). evolves r r' \<and> ty \<in> {MsgRequestVote, MsgRequestPreVote})"
  unfolding begin_campaign_def
  by (intro returns_rules become_candidate_ev [THEN returns_mono] become_pre_candidate_ev [THEN returns_mono]
      returnsI [of "u64_add i j" for i j]) auto

lemma become_follower_ev: "rc_term r \<le> t \<Longrightarrow> returns (become_follower E r t i) (evolves r)"
  by (rule become_follower_returns [THEN returns_mono]) (auto intro: reset_evolves)

lemma campaign_poll_ev:
  "returns (campaign E r ct) (evolves r)" "returns (poll E r from ty v) (\<lambda>(_, r'). evolves r r')"
proof (induction E r ct and E r "from" ty v rule: campaign_poll.induct)
  case (1 E r ct)
  have bc: "returns (begin_campaign E r ct) (\<lambda>x. begin_campaign E r ct = Some x \<and>
      (case x of (ty, _, r') \<Rightarrow> evolves r r' \<and> ty \<in> {MsgRequestVote, MsgRequestPreVote}))"
    using begin_campaign_ev [of E r ct] by (simp add: returns_def)
  show ?case
    by (subst campaign.simps)
      (intro returns_rules bc [THEN returns_mono]
          other_calls 1 [THEN returns_mono] vote_requests_returns [THEN returns_mono],
       auto intro: evolves_trans evolves_msgs)
next
  case (2 E r "from" ty v)
  show ?case
    by (subst poll.simps)
      (intro returns_rules become_leader_ev [THEN returns_mono] become_follower_ev [THEN returns_mono]
          bcast_append_quiet [THEN returns_mono] 2 [THEN returns_mono], auto intro: evolves_trans quiet_evolves)
qed

interpretation ev: node_relation evolves "\<lambda>_. True"
  by unfold_locales
    (auto intro: evolves_trans quiet_evolves reset_evolves become_candidate_ev become_pre_candidate_ev
      campaign_poll_ev [THEN returns_mono])

lemma apply_conf_change_ev: "returns (apply_conf_change E r cc) (\<lambda>(_, r'). evolves r r')"
  unfolding apply_conf_change_def
  by (intro returns_rules quiet_returns other_calls) (auto dest: quiet_evolves)

section \<open>Votes\<close>

text \<open>What \<open>step\<close> keeps: besides \<open>evolves\<close> it may grant one vote, to the node it now votes for.\<close>

definition advances :: "'s raft \<Rightarrow> 's raft \<Rightarrow> bool" where
  "advances r r' \<longleftrightarrow> core_evolves r r'
     \<and> (\<forall>m \<in> set (r_msgs r'). is_grant m \<longrightarrow> m \<in> set (r_msgs r)
          \<or> m_to m = INVALID_ID
          \<or> (m_term m = rc_term r' \<and> m_term m \<noteq> 0 \<and> m_to m = rc_vote r' \<and> m_from m = rc_id r'))"

lemma evolves_advances: "evolves r r' \<Longrightarrow> advances r r'"
  by (auto simp: evolves_def advances_def no_new_grant_def)

lemma evolves_advances_trans: "evolves a b \<Longrightarrow> advances b c \<Longrightarrow> advances a c"
  unfolding evolves_def advances_def no_new_grant_def by (meson core_evolves_trans)

lemma can_grant_vote_returns:
  "returns (can_grant_vote E r m) (\<lambda>g. g \<longrightarrow> m_type m = MsgRequestVote \<longrightarrow>
     rc_vote r = m_from m \<or> rc_vote r = INVALID_ID)"
  unfolding can_grant_vote_def by (intro returns_rules other_calls) auto

abbreviation sent_as :: "'s raft \<Rightarrow> message \<Rightarrow> message \<Rightarrow> bool" where
  "sent_as r m m' \<equiv> m_to m' = m_to m \<and> m_type m' = m_type m \<and> m_reject m' = m_reject m
     \<and> m_from m' = (if m_from m = INVALID_ID then rc_id r else m_from m)
     \<and> (m_type m = MsgRequestVoteResponse \<longrightarrow> m_term m' = m_term m \<and> m_term m \<noteq> 0)"

lemma raft_send_one: "returns (raft_send r m) (\<lambda>r'. \<exists>m'. r' = r\<lparr>r_msgs := r_msgs r @ [m']\<rparr> \<and> sent_as r m m')"
proof -
  have one: "returns (send r m (r_msgs r)) (\<lambda>ms'. \<exists>m'. ms' = r_msgs r @ [m'] \<and> sent_as r m m')"
    by (auto simp: returns_def send_def Let_def bind_eq_Some_conv split: if_splits)
  show ?thesis unfolding raft_send_def by (intro returns_rules one [THEN returns_mono]) (elim exE conjE, blast)
qed

lemma advances_grant:
  assumes "is_vote_request (m_type m)"
    and "m_term m \<noteq> 0 \<longrightarrow> m_type m = MsgRequestVote \<longrightarrow> rc_term r = m_term m"
    and "m_type m = MsgRequestVote \<longrightarrow> rc_vote r = m_from m \<or> rc_vote r = INVALID_ID"
    and "vote_resp_msg_type (m_type m) = Some ty" and "m_to m' = m_from m" and "m_type m' = ty" and "m_from m' = rc_id r"
    and "ty = MsgRequestVoteResponse \<longrightarrow> m_term m' = m_term m \<and> m_term m \<noteq> 0"
  shows "m_type m = MsgRequestVote \<Longrightarrow>
      advances r (r\<lparr>r_msgs := r_msgs r @ [m'], rc_election_elapsed := 0, rc_vote := m_from m\<rparr>)"
    and "m_type m \<noteq> MsgRequestVote \<Longrightarrow> advances r (r\<lparr>r_msgs := r_msgs r @ [m']\<rparr>)"
  using assms by (auto simp: advances_def core_evolves_def is_grant_def vote_resp_msg_type_def is_vote_request_def)

lemma step_vote_adv:
  assumes "is_vote_request (m_type m)"
    and "m_term m \<noteq> 0 \<longrightarrow> m_type m = MsgRequestVote \<longrightarrow> rc_term r = m_term m"
  shows "returns (step_vote E r m) (advances r)"
proof -
  have reject: "evolves (r\<lparr>r_msgs := r_msgs r @ [m']\<rparr>) r' \<Longrightarrow> m_reject m' \<Longrightarrow> advances r r'" for m' r'
    by (rule evolves_advances, rule evolves_trans [OF evolves_msgs]) (auto simp: no_new_grant_def is_grant_def)
  show ?thesis
    unfolding step_vote_def
    by (intro returns_rules can_grant_vote_returns [THEN returns_mono] other_calls raft_send_one [THEN returns_mono]
        ev.maybe_commit_by_vote_R [THEN returns_mono])
      (auto intro: reject advances_grant [OF assms])
qed

lemma step_adv: "returns (step E r m) (\<lambda>(_, r'). advances r r')"
proof (cases "is_vote_request (m_type m)")
  case True
  have vote: "returns (ok_step (step_vote E r' m)) (\<lambda>(_, r''). advances r r'')"
    if "evolves r r'" "m_term m \<noteq> 0 \<longrightarrow> m_type m = MsgRequestVote \<longrightarrow> rc_term r' = m_term m" for r'
    unfolding ok_step_def
    by (intro returns_rules step_vote_adv [THEN returns_mono]) (use that True in \<open>auto intro: evolves_advances_trans\<close>)
  have "m_type m \<noteq> MsgHup" using True by (auto simp: is_vote_request_def)
  then show ?thesis
    unfolding step_def
    by (intro returns_rules ev.step_term_R [THEN returns_mono]) (use True in \<open>auto intro: evolves_advances vote\<close>)
next
  case False
  then show ?thesis by (intro ev.step_R [THEN returns_mono]) (auto intro: evolves_advances)
qed

lemma react_adv: "returns (react E r i) (advances r)"
proof (cases i)
  case (Receive m)
  then show ?thesis using step_adv [of E r m] by (simp add: react_def returns_snd)
next
  case (ApplyConfChange cc)
  then show ?thesis
    using returns_mono [OF returns_snd [OF apply_conf_change_ev] evolves_advances] by (simp add: react_def)
qed (use ev.react_R [of i E r] evolves_advances in \<open>auto intro: returns_mono\<close>)

text \<open>
  A run: inputs in any order, with the store written and the outgoing messages taken away at any
  time; the last argument is the list of all messages taken so far.
\<close>

inductive node_run :: "'s env \<Rightarrow> 's raft \<Rightarrow> 's raft \<Rightarrow> message list \<Rightarrow> bool" for E r0 where
  start: "node_run E r0 r0 []"
| input: "node_run E r0 r sent \<Longrightarrow> react E r i = Some r' \<Longrightarrow> node_run E r0 r' sent"
| stored: "node_run E r0 r sent \<Longrightarrow> node_run E r0 (with_store r s) sent"
| taken: "node_run E r0 r sent \<Longrightarrow> node_run E r0 (r\<lparr>r_msgs := []\<rparr>) (sent @ r_msgs r)"

section \<open>Properties\<close>

text \<open>
  (C15) A node never goes back: whatever messages, ticks and notifications it gets, in any order, its
  id stays, its term and its committed index never decrease, and a vote it has cast is not changed
  as long as the term is the same.
\<close>

theorem node_never_goes_back:
  assumes "node_run E r0 r sent"
  shows "rc_id r = rc_id r0 \<and> rc_term r0 \<le> rc_term r \<and> rc_committed r0 \<le> rc_committed r
     \<and> (rc_term r = rc_term r0 \<longrightarrow> rc_vote r0 \<noteq> INVALID_ID \<longrightarrow> rc_vote r = rc_vote r0)"
proof -
  from assms have "core_evolves r0 r"
  proof induction
    case (input r sent i r')
    then have "core_evolves r r'" using returnsD [OF react_adv] by (auto simp: advances_def)
    with input.IH show ?case by (rule core_evolves_trans)
  next
    case (stored r sent s)
    then show ?case by (simp add: core_evolves_def with_store_def)
  next
    case (taken r sent)
    then show ?case by (simp add: core_evolves_def)
  qed simp
  then show ?thesis by (simp add: core_evolves_def)
qed

text \<open>A node with an empty log in term 5, and a request for its vote.\<close>

definition sample_raft :: "mem_storage raft" where
  "sample_raft = (raft_init (config_new 1) sample_log 40)\<lparr>rc_term := 5\<rparr>"

definition sample_vote_request :: message where
  "sample_vote_request = default_message\<lparr>m_type := MsgRequestVote, m_from := 2, m_to := 1, m_term := 5\<rparr>"

definition sample_grant :: message where
  "sample_grant = default_message\<lparr>m_type := MsgRequestVoteResponse, m_from := 1, m_to := 2, m_term := 5\<rparr>"

lemma sample_vote:
  "react (mem_env sample_env) sample_raft (Receive sample_vote_request) =
     Some (sample_raft\<lparr>rc_vote := 2, r_msgs := [sample_grant]\<rparr>)"
  by (simp add: react_def step_def step_term_def is_vote_request_def step_vote_def can_grant_vote_def ok_step_def
      raft_send_def send_def new_message_def vote_resp_msg_type_def is_up_to_date_def log_last_term_def get_priority_def
      sample_raft_def raft_init_def config_new_def default_config_def sample_vote_request_def sample_grant_def
      default_message_def Let_def sample_eval)

lemma sample_run:
  "node_run (mem_env sample_env) sample_raft (sample_raft\<lparr>rc_vote := 2, r_msgs := [sample_grant]\<rparr>) []"
  by (rule node_run.input [OF node_run.start sample_vote])

text \<open>The same node, once it has voted for node 2, is asked by node 3.\<close>

lemma sample_refusal:
  "\<exists>r m. react (mem_env sample_env) (sample_raft\<lparr>rc_vote := 2\<rparr>) (Receive (sample_vote_request\<lparr>m_from := 3\<rparr>)) = Some r
     \<and> r_msgs r = [m] \<and> m_reject m \<and> rc_term r = 5"
  by (simp add: react_def step_def step_term_def is_vote_request_def step_vote_def can_grant_vote_def ok_step_def
      raft_send_def send_def new_message_def vote_resp_msg_type_def commit_info_def maybe_commit_by_vote_def
      sample_raft_def raft_init_def config_new_def default_config_def sample_vote_request_def
      default_message_def Let_def sample_eval)

lemma node_never_goes_back_witness:
  "\<exists>r m. node_run (mem_env sample_env) (sample_raft\<lparr>rc_vote := 2\<rparr>) r [] \<and> r_msgs r = [m] \<and> m_reject m
     \<and> rc_term r = 5 \<and> rc_vote r = 2"
proof -
  let ?r0 = "sample_raft\<lparr>rc_vote := 2\<rparr>"
  obtain r m where r: "react (mem_env sample_env) ?r0 (Receive (sample_vote_request\<lparr>m_from := 3\<rparr>)) = Some r"
    "r_msgs r = [m]" "m_reject m" "rc_term r = 5"
    using sample_refusal by blast
  have run: "node_run (mem_env sample_env) ?r0 r []" by (rule node_run.input [OF node_run.start r(1)])
  have "rc_term ?r0 = 5" "rc_vote ?r0 = 2" by (simp_all add: sample_raft_def)
  with node_never_goes_back [OF run] r run show ?thesis by (intro exI [of _ r] exI [of _ m]) simp
qed

text \<open>A vote granted to a node; ids of nodes are not zero.\<close>

definition grants_vote :: "message \<Rightarrow> bool" where
  "grants_vote m \<longleftrightarrow> is_grant m \<and> m_to m \<noteq> INVALID_ID"

definition votes_recorded :: "'s raft \<Rightarrow> message list \<Rightarrow> bool" where
  "votes_recorded r ms \<longleftrightarrow> (\<forall>m \<in> set ms. grants_vote m \<longrightarrow>
     m_term m \<le> rc_term r \<and> (m_term m = rc_term r \<longrightarrow> m_to m = rc_vote r))"

lemma votes_recorded_step: "votes_recorded r ms \<Longrightarrow> core_evolves r r' \<Longrightarrow> votes_recorded r' ms"
  by (fastforce simp: votes_recorded_def core_evolves_def grants_vote_def)

definition vote_history :: "'s raft \<Rightarrow> message list \<Rightarrow> bool" where
  "vote_history r ms \<longleftrightarrow> votes_recorded r ms
     \<and> (\<forall>m \<in> set ms. \<forall>m' \<in> set ms. grants_vote m \<longrightarrow> grants_vote m' \<longrightarrow> m_term m = m_term m' \<longrightarrow> m_to m = m_to m')"

lemma vote_history_msgs: "vote_history (r\<lparr>r_msgs := ms'\<rparr>) ms = vote_history r ms"
  unfolding vote_history_def votes_recorded_def by simp

lemma vote_history_store: "vote_history (with_store r s) ms = vote_history r ms"
  unfolding vote_history_def votes_recorded_def with_store_def by simp

lemma vote_history_step:
  assumes h: "vote_history r (sent @ r_msgs r)" and a: "advances r r'"
  shows "vote_history r' (sent @ r_msgs r')"
proof -
  let ?old = "sent @ r_msgs r"
  have rec: "votes_recorded r' ?old" using h a votes_recorded_step by (auto simp: vote_history_def advances_def)
  have new: "m \<in> set ?old \<or> (m_term m = rc_term r' \<and> m_to m = rc_vote r')"
    if "m \<in> set (sent @ r_msgs r')" "grants_vote m" for m
    using a that by (auto simp: advances_def grants_vote_def)
  have "votes_recorded r' (sent @ r_msgs r')"
    using rec new unfolding votes_recorded_def by (metis order_refl)
  moreover have "m_to m = m_to m'"
    if m: "m \<in> set (sent @ r_msgs r')" "m' \<in> set (sent @ r_msgs r')" "grants_vote m" "grants_vote m'" "m_term m = m_term m'" for m m'
  proof (cases "m \<in> set ?old \<and> m' \<in> set ?old")
    case True
    then show ?thesis using h m unfolding vote_history_def by blast
  next
    case False
    then have "m_term m = rc_term r'" using new m by metis
    then show ?thesis using \<open>votes_recorded r' (sent @ r_msgs r')\<close> m unfolding votes_recorded_def by metis
  qed
  ultimately show ?thesis unfolding vote_history_def by blast
qed

text \<open>
  (C5) At most one vote per term: of all the messages a node ever sends in a run, two that grant a
  vote to a node in the same term go to the same node.
\<close>

theorem one_vote_per_term:
  assumes "node_run E r0 r sent" and "r_msgs r0 = []"
    and "m \<in> set (sent @ r_msgs r)" and "m' \<in> set (sent @ r_msgs r)"
    and "grants_vote m" and "grants_vote m'" and "m_term m = m_term m'"
  shows "m_to m = m_to m'"
proof -
  from assms(1) have "vote_history r (sent @ r_msgs r)"
  proof induction
    case start
    then show ?case using assms(2) by (simp add: vote_history_def votes_recorded_def)
  next
    case (input r sent i r')
    have "advances r r'" using returnsD [OF react_adv input.hyps(2)] .
    with input.IH show ?case by (rule vote_history_step)
  next
    case (stored r sent s)
    then show ?case unfolding vote_history_store by (simp add: with_store_def)
  next
    case (taken r sent)
    then show ?case unfolding vote_history_msgs by simp
  qed
  then show ?thesis using assms(3-7) unfolding vote_history_def by blast
qed

lemma one_vote_per_term_witness:
  "\<exists>r. node_run (mem_env sample_env) sample_raft r [] \<and> sample_grant \<in> set (r_msgs r)
     \<and> m_to ` {m \<in> set (r_msgs r). grants_vote m \<and> m_term m = 5} = {2}"
proof -
  let ?r = "sample_raft\<lparr>rc_vote := 2, r_msgs := [sample_grant]\<rparr>"
  have g: "grants_vote sample_grant" "m_term sample_grant = 5" "m_to sample_grant = 2" "r_msgs sample_raft = []"
    by (simp_all add: grants_vote_def is_grant_def sample_grant_def default_message_def sample_raft_def raft_init_def)
  have i: "sample_grant \<in> set ([] @ r_msgs ?r)" by simp
  have "m_to m = 2" if "m \<in> set (r_msgs ?r)" "grants_vote m" "m_term m = 5" for m
    using one_vote_per_term [OF sample_run g(4) _ i _ g(1), of m] that g by simp
  then have "m_to ` {m \<in> set (r_msgs ?r). grants_vote m \<and> m_term m = 5} = {2}" using g i by force
  with sample_run i show ?thesis by (intro exI [of _ ?r]) simp
qed

end
