(* ===== verification/Raft_Spec.thy ===== *)
theory Raft_Spec
  imports Raft_Safety
begin

text \<open>
  What the operations of \<open>src/raft.rs\<close> do on a log that keeps its invariant, storage in memory: when
  a leader commits, when a vote is granted, when an election starts, what a proposal may append, how
  much is sent to a follower, and what a new node looks like.
\<close>

section \<open>Committing\<close>

definition matched_of :: "'s raft \<Rightarrow> u64 \<Rightarrow> u64" where
  "matched_of r v = (case tracker_get (r_prs r) v of None \<Rightarrow> 0 | Some pr \<Rightarrow> pr_matched pr)"

text \<open>An index is held by a quorum when the nodes that hold it win a vote.\<close>

definition quorum_holds :: "'s raft \<Rightarrow> u64 \<Rightarrow> bool" where
  "quorum_holds r k \<longleftrightarrow>
     joint_vote_result (cfg_voters (tr_conf (r_prs r))) (yes_from {v. k \<le> matched_of r v}) = Won"

definition entry_of_term :: "mem_storage raft_log \<Rightarrow> u64 \<Rightarrow> u64 \<Rightarrow> bool" where
  "entry_of_term l k t \<longleftrightarrow> mlog_first l \<le> k \<and> k < mlog_first l + length (mlog_ents l)
     \<and> e_term (mlog_ents l ! (k - mlog_first l)) = t"

lemma log_maybe_commit_eq:
  assumes inv: "mlog_inv E l" and t: "0 < t"
  shows "log_maybe_commit (mem_env E) l k t =
     (let b = rl_committed l < k \<and> entry_of_term l k t
      in Some (b, if b then l\<lparr>rl_committed := k\<rparr> else l))"
proof (cases "rl_committed l < k")
  case True
  have first: "mlog_first l \<le> k" using inv True by (simp add: log_inv_def)
  have "log_term (mem_env E) l k = Some (Inr t) \<longleftrightarrow> entry_of_term l k t"
  proof
    assume "entry_of_term l k t"
    then show "log_term (mem_env E) l k = Some (Inr t)"
      using mem.log_term_in [OF inv, of "k - mlog_first l"] by (auto simp: entry_of_term_def)
  qed (use mem.match_in_log [OF inv _ t first] first in \<open>simp add: entry_of_term_def\<close>)
  moreover obtain res where "log_term (mem_env E) l k = Some res"
    using mem.log_term_total [OF inv, of k] by auto
  moreover have "commit_to (mem_env E) l k = Some (l\<lparr>rl_committed := k\<rparr>)" if "entry_of_term l k t"
    using mem.commit_to_eq [OF inv, of k] that True by (simp add: entry_of_term_def max_def)
  ultimately show ?thesis using True by (auto simp: log_maybe_commit_def)
qed (simp add: log_maybe_commit_def)

text \<open>With group commit the index may be lower than a quorum holds, never higher.\<close>

lemma committed_index_le_vote:
  assumes "committed_index vs gc l = Some (n, b)" and "k \<le> n"
  shows "majority_vote_result vs (yes_from {v. k \<le> idx_index (acked l v)}) = Won"
proof (cases "vs = []")
  case False
  let ?xs = "map (acked l) vs"
  have ne: "?xs \<noteq> []" using False by simp
  have "idx_index (last (sort_desc ?xs)) \<le> idx_index (quorum_elem ?xs)"
    using last_sort_desc_min [OF ne] quorum_elem_in [OF ne] by blast
  then have "n \<le> idx_index (quorum_elem ?xs)"
    using assms(1) False by (auto simp: committed_index_def commit_of_matched_eq [OF ne] split: if_splits sum.splits)
  with assms(2) have "k \<le> idx_index (quorum_elem ?xs)" by (rule order_trans)
  then show ?thesis unfolding quorum_elem_vote [OF False] .
qed (simp add: majority_vote_result_def)

lemma acked_matched: "idx_index (acked (acked_index (tr_progress (r_prs r))) v) = matched_of r v"
  by (simp add: acked_def acked_index_def matched_of_def tracker_get_def default_index_def split: option.split)

lemma maximal_committed_index_held:
  assumes "maximal_committed_index (r_prs r) = Some (n, b)"
  shows "k \<le> n \<Longrightarrow> quorum_holds r k"
    and "\<not> tr_group_commit (r_prs r) \<Longrightarrow> k \<le> U64_MAX \<Longrightarrow> quorum_holds r k \<longleftrightarrow> k \<le> n"
proof -
  let ?l = "acked_index (tr_progress (r_prs r))" and ?c = "cfg_voters (tr_conf (r_prs r))"
  have run: "joint_committed_index ?c (tr_group_commit (r_prs r)) ?l = Some (n, b)"
    using assms by (simp add: maximal_committed_index_def)
  then obtain i bi j bj where ij:
    "committed_index (jc_incoming ?c) (tr_group_commit (r_prs r)) ?l = Some (i, bi)"
    "committed_index (jc_outgoing ?c) (tr_group_commit (r_prs r)) ?l = Some (j, bj)" "n = min i j"
    by (auto simp: joint_committed_index_def bind_eq_Some_conv)
  show "quorum_holds r k" if "k \<le> n"
    using committed_index_le_vote [OF ij(1), of k] committed_index_le_vote [OF ij(2), of k] that ij(3)
    by (simp add: quorum_holds_def joint_Won acked_matched)
  show "quorum_holds r k \<longleftrightarrow> k \<le> n" if "\<not> tr_group_commit (r_prs r)" "k \<le> U64_MAX"
    using joint_commit_vote [of ?c ?l n b k] run that by (simp add: quorum_holds_def acked_matched)
qed

lemma raft_maybe_commit_eq:
  assumes inv: "mlog_inv E (rc_raft_log r)" and tm: "0 < rc_term r" and n: "maximal_committed_index (r_prs r) = Some (n, c)"
  shows "raft_maybe_commit (mem_env E) r =
     (if rc_committed r < n \<and> entry_of_term (rc_raft_log r) n (rc_term r) then
        (case tracker_get (r_prs r) (rc_id r) of
           None \<Rightarrow> None
         | Some pr \<Rightarrow> Some (True, put_progress (r\<lparr>rc_raft_log := (rc_raft_log r)\<lparr>rl_committed := n\<rparr>\<rparr>) (rc_id r)
             (pr\<lparr>pr_committed_index := max (pr_committed_index pr) n\<rparr>)))
      else Some (False, r))"
  by (auto simp: raft_maybe_commit_def n log_maybe_commit_eq [OF inv tm] progress_update_committed_def max_def Let_def
      split: option.split)

text \<open>
  (C4) A leader commits what a quorum holds, and by counting only entries of its own term: on a log
  that keeps its invariant an attempt to commit has one candidate index, which the nodes of a quorum
  of both majorities hold and which, without group commit, is the highest such index. If that index
  is new and its entry has the term of the leader, it becomes the commit index, the leader notes it
  in its own progress, and nothing else changes; otherwise the attempt changes nothing and says so.
  There is one more outcome: a leader that would commit but no longer tracks itself, because it was
  removed from the membership, panics.
\<close>

theorem leader_commits_what_a_quorum_holds:
  assumes inv: "mlog_inv E (rc_raft_log r)" and tm: "0 < rc_term r"
  shows "\<exists>n. quorum_holds r n
     \<and> (\<not> tr_group_commit (r_prs r) \<longrightarrow> (\<forall>k \<le> U64_MAX. quorum_holds r k \<longleftrightarrow> k \<le> n))
     \<and> raft_maybe_commit (mem_env E) r =
        (if rc_committed r < n \<and> entry_of_term (rc_raft_log r) n (rc_term r) then
           (case tracker_get (r_prs r) (rc_id r) of
              None \<Rightarrow> None
            | Some pr \<Rightarrow> Some (True, put_progress (r\<lparr>rc_raft_log := (rc_raft_log r)\<lparr>rl_committed := n\<rparr>\<rparr>) (rc_id r)
                (pr\<lparr>pr_committed_index := max (pr_committed_index pr) n\<rparr>)))
         else Some (False, r))"
proof -
  obtain n c where n: "maximal_committed_index (r_prs r) = Some (n, c)"
    using joint_committed_index_returns by (fastforce simp: maximal_committed_index_def)
  from maximal_committed_index_held [OF n] raft_maybe_commit_eq [OF inv tm n] show ?thesis
    by (intro exI [of _ n]) blast
qed

text \<open>A leader of term 1 with three voters, of which two hold both entries of the log.\<close>

definition sample_progress :: "u64 \<Rightarrow> progress" where
  "sample_progress n = (progress_new (n + 1) 4)\<lparr>pr_matched := n\<rparr>"

definition sample_leader :: "mem_storage raft" where
  "sample_leader = (raft_init (config_new 1) sample_full 40)
     \<lparr>rc_term := 1, rc_state := Leader, rc_leader_id := 1,
      r_prs := \<lparr>tr_progress = [(1, sample_progress 2), (2, sample_progress 2), (3, sample_progress 0)],
                tr_conf = configuration_new [1, 2, 3] [], tr_votes = [], tr_max_inflight = 4, tr_group_commit = False\<rparr>\<rparr>"

text \<open>The same leader after the membership change that removes it.\<close>

definition removed_leader :: "mem_storage raft" where
  "removed_leader = sample_leader\<lparr>rc_promotable := False,
      r_prs := \<lparr>tr_progress = [(2, sample_progress 2), (3, sample_progress 0)],
                tr_conf = configuration_new [2, 3] [], tr_votes = [], tr_max_inflight = 4, tr_group_commit = False\<rparr>\<rparr>"

lemmas sample_quorum_eval = quorum_holds_def matched_of_def sample_leader_def removed_leader_def raft_init_def sample_progress_def
  tracker_get_def configuration_new_def joint_new_def hset_collect_def hset_extend_def hset_insert_def joint_Won vote_result_Won
  yes_count_def yes_from_def majority_def

lemma leader_commits_what_a_quorum_holds_witness:
  "(\<exists>r'. raft_maybe_commit (mem_env sample_env) sample_leader = Some (True, r') \<and> rc_committed r' = 2)
   \<and> raft_maybe_commit (mem_env sample_env) (put_progress removed_leader 3 (sample_progress 2)) = None"
proof -
  let ?q = "put_progress removed_leader 3 (sample_progress 2)"
  have r: "rc_raft_log sample_leader = sample_full" "rc_term sample_leader = 1" "rc_id sample_leader = 1"
    "tr_group_commit (r_prs sample_leader) = False"
    "tracker_get (r_prs sample_leader) 1 = Some (sample_progress 2)"
    "rc_raft_log ?q = sample_full" "rc_term ?q = 1" "rc_id ?q = 1" "tr_group_commit (r_prs ?q) = False"
    "tracker_get (r_prs ?q) 1 = None"
    by (simp_all add: sample_leader_def removed_leader_def put_progress_def tracker_put_def raft_init_def config_new_def default_config_def
        tracker_get_def)
  have e: "entry_of_term sample_full 2 1" "rl_committed sample_full < 2"
    by (simp_all add: entry_of_term_def sample_full_view) (simp_all add: sample_full_def sample_eval)
  have q: "quorum_holds sample_leader 2" "\<not> quorum_holds sample_leader 3" "quorum_holds ?q 2" "\<not> quorum_holds ?q 3"
    by (simp_all add: put_progress_def tracker_put_def sample_quorum_eval)
  have top: "n = 2" if "quorum_holds x 2" "\<not> quorum_holds x 3" "\<forall>k \<le> U64_MAX. quorum_holds x k \<longleftrightarrow> k \<le> n" for x :: "mem_storage raft" and n
  proof -
    have "2 \<le> n" "\<not> 3 \<le> n" using that by simp_all
    then show ?thesis by simp
  qed
  have inv: "mlog_inv sample_env (rc_raft_log sample_leader)" "mlog_inv sample_env (rc_raft_log ?q)" using sample_full_inv r by simp_all
  have pos: "0 < rc_term sample_leader" "0 < rc_term ?q" using r by simp_all
  have "\<exists>r'. raft_maybe_commit (mem_env sample_env) sample_leader = Some (True, r') \<and> rc_committed r' = 2"
    using leader_commits_what_a_quorum_holds [OF inv(1) pos(1)] top [OF q(1,2)] r e by (force simp: put_progress_def)
  moreover have "raft_maybe_commit (mem_env sample_env) ?q = None"
    using leader_commits_what_a_quorum_holds [OF inv(2) pos(2)] top [OF q(3,4)] r e by force
  ultimately show ?thesis ..
qed

text \<open>
  How a leader comes to that panic: it applies its own removal, stays leader, and gets the
  acknowledgement that lets it commit.
\<close>

definition removal :: conf_change_v2 where
  "removal = \<lparr>cc2_transition = Auto, cc2_changes = [new_conf_change_single 1 RemoveNode], cc2_context = []\<rparr>"

definition sample_ack :: message where
  "sample_ack = default_message\<lparr>m_type := MsgAppendResponse, m_from := 3, m_term := 1, m_index := 2\<rparr>"

lemma sample_removal:
  "\<exists>cs. apply_conf_change (mem_env sample_env) sample_leader removal = Some (Inr cs, removed_leader)"
  by (simp add: apply_conf_change_def removal_def cc2_leave_joint_def cc2_enter_joint_def simple_def check_and_copy_def
      check_invariants_def check_voter_def check_learner_def check_learner_next_def apply_changes_def apply_one_def remove_node_def apply_change_def
      icm_contains_def icm_push_def set_incoming_def symmetric_difference_count_def apply_conf_def to_conf_state_def
      joint_def hset_remove_def union_iter_def joint_ids_def new_conf_change_single_def post_conf_change_def joint_contains_def hmap_contains_def
      sample_leader_def removed_leader_def configuration_new_def joint_new_def hset_collect_def hset_extend_def hset_insert_def
      raft_init_def config_new_def default_config_def sample_full_def sample_eval Let_def)

lemma removed_leader_cannot_commit:
  assumes "pr_matched pr = 2"
  shows "raft_maybe_commit (mem_env sample_env) (put_progress removed_leader 3 pr) = None"
proof -
  let ?q = "put_progress removed_leader 3 pr"
  obtain n c where n: "maximal_committed_index (r_prs ?q) = Some (n, c)"
    using joint_committed_index_returns by (fastforce simp: maximal_committed_index_def)
  have r: "rc_raft_log ?q = sample_full" "rc_term ?q = 1" "tr_group_commit (r_prs ?q) = False" "tracker_get (r_prs ?q) (rc_id ?q) = None"
    by (simp_all add: sample_leader_def removed_leader_def put_progress_def tracker_put_def raft_init_def config_new_def
        default_config_def tracker_get_def)
  have "quorum_holds ?q 2" "\<not> quorum_holds ?q 3"
    using assms by (simp_all add: put_progress_def tracker_put_def sample_quorum_eval)
  then have "2 \<le> n" "\<not> 3 \<le> n" using maximal_committed_index_held(2) [OF n] r(3) by simp_all
  then have "n = 2" by simp
  moreover have "entry_of_term sample_full 2 1" "rl_committed sample_full < 2"
    by (simp_all add: entry_of_term_def sample_full_view) (simp_all add: sample_full_def sample_eval)
  ultimately show ?thesis using raft_maybe_commit_eq [of sample_env ?q n c] sample_full_inv n r by simp
qed

lemma removed_leader_panics:
  "(\<exists>cs. apply_conf_change (mem_env sample_env) sample_leader removal = Some (Inr cs, removed_leader))
   \<and> step (mem_env sample_env) removed_leader sample_ack = None"
proof -
  have r: "rc_state removed_leader = Leader" "rc_term removed_leader = 1" "tracker_get (r_prs removed_leader) 3 = Some (sample_progress 0)"
    by (simp_all add: removed_leader_def sample_leader_def tracker_get_def)
  have m: "m_type sample_ack = MsgAppendResponse" "m_term sample_ack = 1" "m_from sample_ack = 3" "m_index sample_ack = 2"
    "\<not> m_reject sample_ack" "m_commit sample_ack = 0"
    by (simp_all add: sample_ack_def default_message_def)
  have "step (mem_env sample_env) removed_leader sample_ack = ok_step (handle_append_response (mem_env sample_env) removed_leader sample_ack)"
    using r m by (simp add: step_def step_term_def is_vote_request_def step_leader_def)
  moreover have "handle_append_response (mem_env sample_env) removed_leader sample_ack = None"
    using r m removed_leader_cannot_commit
    by (simp add: handle_append_response_def progress_update_committed_def progress_maybe_update_def append_acked_def
        sample_progress_def progress_new_def progress_become_replicate_def progress_reset_state_def progress_resume_def Let_def)
  ultimately show ?thesis using sample_removal by (simp add: ok_step_def)
qed

section \<open>Sending\<close>

lemma send_length: "returns (send r m ms) (\<lambda>ms'. length ms' = Suc (length ms))"
  by (auto simp: returns_def send_def Let_def bind_eq_Some_conv split: if_splits)

lemma try_batching_length: "returns (try_batching r to ms pr es) (\<lambda>(_, ms', _). length ms' = length ms)"
  by (induction ms) (auto simp: returns_def bind_eq_Some_conv Let_def split: if_splits)

lemma send_prepared_snapshot_length:
  "returns (send_prepared_snapshot E r m to pr ms) (\<lambda>(b, _, _, ms'). length ms' = length ms + of_bool b)"
  unfolding send_prepared_snapshot_def
  by (intro returns_rules send_length [THEN returns_mono] returnsI [of "prepare_send_snapshot E r m pr to"]) auto

lemma maybe_send_append_length:
  "returns (maybe_send_append E r to pr ae ms) (\<lambda>(b, _, _, ms'). length ms' \<le> length ms + of_bool b)"
  unfolding maybe_send_append_def
  by (intro returns_rules send_prepared_snapshot_length [THEN returns_mono] try_batching_length [THEN returns_mono]
      send_length [THEN returns_mono] opaque_calls returnsI [of "prepare_send_entries r m pr t es" for r m pr t es]) auto

lemma send_append_aggressively_length:
  "returns (send_append_aggressively E r to pr ms) (\<lambda>(_, _, ms'). length ms' \<le> length ms + send_budget pr)"
proof (induction E r to pr ms rule: send_append_aggressively.induct)
  case (1 E r to pr ms)
  have once: "returns (maybe_send_append E r to pr False ms) (\<lambda>x. maybe_send_append E r to pr False ms = Some x \<and>
      (case x of (b, _, pr', ms') \<Rightarrow> length ms' \<le> length ms + of_bool b \<and> (b \<longrightarrow> send_budget pr' < send_budget pr)))"
    using maybe_send_append_length [of E r to pr False ms] maybe_send_append_budget [of E r to pr ms]
    by (auto simp: returns_def)
  show ?case
    by (subst send_append_aggressively.simps)
      (intro returns_rules once [THEN returns_mono] 1 [THEN returns_mono], auto)
qed

text \<open>
  (C17) Sending all it can stays within the window of the follower: the loop of
  \<open>send_append_aggressively\<close> queues no message for a paused progress, at most one for a probe, and at
  most as many as the window of messages in flight has room for when it replicates.
\<close>

theorem sends_stay_in_the_window:
  assumes "tracker_get (r_prs r) to = Some pr" and "progress_inv pr"
    and "raft_send_append_aggressively E r to = Some r'"
  shows "length (r_msgs r') \<le> length (r_msgs r) +
     (if progress_is_paused pr then 0
      else if pr_state pr = Replicate then in_cap (pr_ins pr) - in_count (pr_ins pr) else 1)"
proof -
  from assms obtain q pr' ms where run: "send_append_aggressively E r to pr (r_msgs r) = Some (q, pr', ms)" "r_msgs r' = ms"
    by (auto simp: raft_send_append_aggressively_def bind_eq_Some_conv)
  have "in_count (pr_ins pr) < in_cap (pr_ins pr)" if "\<not> progress_is_paused pr" "pr_state pr = Replicate"
    using assms(2) that by (auto simp: progress_inv_def ins_inv_def progress_is_paused_def inflights_full_def)
  with returnsD [OF send_append_aggressively_length run(1)] run(2) show ?thesis
    by (auto simp: send_budget_def)
qed

lemmas sample_send_eval = send_append_aggressively.simps maybe_send_append_def log_entries_def log_slice_def
  log_must_check_outofbounds_def unstable_slice_def unstable_must_check_outofbounds_def limit_size_def
  prepare_send_entries_def progress_update_state_def progress_is_paused_def progress_pause_def send_def
  sample_leader_def sample_progress_def sample_full_def raft_init_def config_new_def default_config_def
  progress_new_def inflights_new_def tracker_get_def default_message_def sample_env_def sample_eval Let_def

lemma sample_leader_sends:
  "raft_send_append_aggressively (mem_env sample_env) sample_leader 3 \<noteq> None"
  by (simp add: raft_send_append_aggressively_def sample_send_eval)

lemma sends_stay_in_the_window_witness:
  "\<exists>r'. raft_send_append_aggressively (mem_env sample_env) sample_leader 3 = Some r' \<and> length (r_msgs r') \<le> 1"
proof -
  obtain r' where run: "raft_send_append_aggressively (mem_env sample_env) sample_leader 3 = Some r'"
    using sample_leader_sends by auto
  have pr: "tracker_get (r_prs sample_leader) 3 = Some (sample_progress 0)" "r_msgs sample_leader = []"
    by (simp_all add: sample_leader_def raft_init_def tracker_get_def)
  have inv: "progress_inv (sample_progress 0)" "\<not> progress_is_paused (sample_progress 0)" "pr_state (sample_progress 0) = Probe"
    by (simp_all add: progress_inv_def ins_inv_def window_def sample_progress_def progress_new_def inflights_new_def
        progress_is_paused_def)
  from sends_stay_in_the_window [OF pr(1) inv(1) run] pr(2) inv(2, 3) run show ?thesis by simp
qed

section \<open>Proposals\<close>

text \<open>Sending reads the log; what it holds stays.\<close>

definition same_view :: "mem_storage raft_log \<Rightarrow> mem_storage raft_log \<Rightarrow> bool" where
  "same_view l l' \<longleftrightarrow> rl_unstable l' = rl_unstable l \<and> rl_applied l' = rl_applied l \<and> rl_committed l' = rl_committed l
     \<and> ms_entries (rl_store l') = ms_entries (rl_store l)
     \<and> ms_snapshot_metadata (rl_store l') = ms_snapshot_metadata (rl_store l)"

lemma same_view_refl [simp]: "same_view l l"
  by (simp add: same_view_def)

lemma same_view_trans: "same_view a b \<Longrightarrow> same_view b c \<Longrightarrow> same_view a c"
  by (simp add: same_view_def)

lemma same_view_ents: "same_view l l' \<Longrightarrow> mlog_ents l' = mlog_ents l \<and> mlog_first l' = mlog_first l"
  by (simp add: same_view_def log_ents_def log_first_def mem_first_def split: option.split list.split)

lemma mem_entries_view:
  "returns (st_entries (mem_env E) s lo hi sz ctx)
     (\<lambda>(_, s'). ms_entries s' = ms_entries s \<and> ms_snapshot_metadata s' = ms_snapshot_metadata s)"
  unfolding mem_env_def env.simps mem_entries_def
  by (intro returns_rules returnsI [of "mem_first_index s" for s] returnsI [of "limit_size c es sz" for c es sz]
      returnsI [of "vec_range es lo hi" for es lo hi] returnsI [of "vec_get es i" for es i]) auto

lemma mem_snapshot_view:
  "returns (st_snapshot (mem_env E) s i to)
     (\<lambda>(_, s'). ms_entries s' = ms_entries s \<and> ms_snapshot_metadata s' = ms_snapshot_metadata s)"
  unfolding mem_env_def env.simps mem_snapshot_def by (intro returns_rules returnsI [of "mem_core_snapshot s" for s]) auto

lemma log_slice_view: "returns (log_slice (mem_env E) l lo hi sz ctx) (\<lambda>(_, l'). same_view l l')"
  unfolding log_slice_def
  by (intro returns_rules mem_entries_view [THEN returns_mono] returnsI [of "log_must_check_outofbounds E l lo hi" for E l lo hi]
      returnsI [of "unstable_slice u lo hi" for u lo hi] returnsI [of "limit_size c es sz" for c es sz])
    (auto simp: same_view_def)

lemma log_entries_view: "returns (log_entries (mem_env E) l i sz ctx) (\<lambda>(_, l'). same_view l l')"
  unfolding log_entries_def by (intro returns_rules other_calls log_slice_view [THEN returns_mono]) auto

lemma log_snapshot_view: "returns (log_snapshot (mem_env E) l i to) (\<lambda>(_, l'). same_view l l')"
  unfolding log_snapshot_def
  by (intro returns_rules mem_snapshot_view [THEN returns_mono]) (auto simp: same_view_def)

text \<open>The core before and after sending: only the log may differ, and not in what it holds.\<close>

definition reads_only :: "(mem_storage, 'x) raft_core_scheme \<Rightarrow> (mem_storage, 'x) raft_core_scheme \<Rightarrow> bool" where
  "reads_only r r' \<longleftrightarrow> (\<exists>l. r' = r\<lparr>rc_raft_log := l\<rparr> \<and> same_view (rc_raft_log r) l)"

lemma reads_only_refl [simp]: "reads_only r r"
  unfolding reads_only_def by (rule exI [of _ "rc_raft_log r"]) simp

lemma reads_only_log [simp]: "same_view (rc_raft_log r) l \<Longrightarrow> reads_only r (r\<lparr>rc_raft_log := l\<rparr>)"
  by (auto simp: reads_only_def)

lemma reads_only_trans: "reads_only a b \<Longrightarrow> reads_only b c \<Longrightarrow> reads_only a c"
  by (force simp: reads_only_def intro: same_view_trans)

lemma send_prepared_snapshot_reads:
  "returns (send_prepared_snapshot (mem_env E) r m to pr ms) (\<lambda>(_, r', _). reads_only r r')"
  unfolding send_prepared_snapshot_def prepare_send_snapshot_def
  by (intro returns_rules log_snapshot_view [THEN returns_mono] returnsI [of "send r m ms" for r m ms]) auto

lemma maybe_send_append_reads: "returns (maybe_send_append (mem_env E) r to pr ae ms) (\<lambda>(_, r', _). reads_only r r')"
  unfolding maybe_send_append_def
  by (intro returns_rules other_calls log_entries_view [THEN returns_mono] send_prepared_snapshot_reads [THEN returns_mono]
      returnsI [of "send r m ms" for r m ms] returnsI [of "try_batching r to ms pr es" for r to ms pr es]
      returnsI [of "prepare_send_entries r m pr t es" for r m pr t es])
    (auto intro: reads_only_trans [OF reads_only_log])

lemma send_append_reads: "returns (send_append (mem_env E) r to pr ms) (\<lambda>(r', _). reads_only r r')"
  unfolding send_append_def by (intro returns_rules maybe_send_append_reads [THEN returns_mono]) auto

lemma for_each_peer_reads:
  "returns (for_each_peer (\<lambda>i pr r ms. send_append (mem_env E) r i pr ms) s prs r ms) (\<lambda>(r', _). reads_only r r')"
proof (induction prs arbitrary: r ms)
  case (Cons p prs)
  obtain i pr where p: "p = (i, pr)" by (cases p)
  show ?case
    unfolding p for_each_peer.simps
    by (intro returns_rules send_append_reads [THEN returns_mono] Cons.IH [THEN returns_mono]) (auto intro: reads_only_trans)
qed simp

lemma bcast_append_reads:
  "returns (bcast_append (mem_env E) r)
     (\<lambda>r'. same_view (rc_raft_log r) (rc_raft_log r') \<and> rc_pending_conf_index r' = rc_pending_conf_index r)"
  unfolding bcast_append_def bcast_def
  by (intro returns_rules for_each_peer_reads [THEN returns_mono]) (auto simp: reads_only_def)

lemma number_entries_eq:
  "number_entries t li i es = Some es' \<Longrightarrow> es' = map (\<lambda>(k, e). e\<lparr>e_term := t, e_index := li + 1 + k\<rparr>) (enumerate i es)"
  by (induction es arbitrary: i es') (auto simp: bind_eq_Some_conv)

lemma log_append_at_end:
  assumes inv: "mlog_inv E l" and es: "es \<noteq> []" "e_index (hd es) = mlog_first l + length (mlog_ents l)"
  shows "returns (log_append (mem_env E) l es) (\<lambda>(_, l'). mlog_ents l' = mlog_ents l @ es
     \<and> rl_applied l' = rl_applied l)"
proof -
  have "e_index (es ! 0) = un_offset (rl_unstable l) + length (un_entries (rl_unstable l))"
    using es mem.lend [OF inv] by (simp add: hd_conv_nth)
  then have push: "returns (truncate_and_append (rl_unstable l) es) (\<lambda>u. un_entries u = un_entries (rl_unstable l) @ es
      \<and> un_offset u = un_offset (rl_unstable l) \<and> un_snapshot u = un_snapshot (rl_unstable l))"
    using es by (auto simp: returns_def truncate_and_append_def Let_def bind_eq_Some_conv)
  show ?thesis
    unfolding log_append_def
    by (intro returns_rules other_calls push [THEN returns_mono]) (use es in \<open>auto simp: log_ents_def split: option.split\<close>)
qed

lemma append_entry_ents:
  assumes inv: "mlog_inv E (rc_raft_log r)" and es: "es \<noteq> []"
  shows "returns (append_entry (mem_env E) r es) (\<lambda>(ok, r'). ok \<longrightarrow>
     rl_applied (rc_raft_log r') = rl_applied (rc_raft_log r) \<and> rc_pending_conf_index r' = rc_pending_conf_index r
     \<and> mlog_ents (rc_raft_log r') = mlog_ents (rc_raft_log r) @
         map (\<lambda>(k, e). e\<lparr>e_term := rc_term r, e_index := mlog_first (rc_raft_log r) + length (mlog_ents (rc_raft_log r)) + k\<rparr>)
           (enumerate 0 es))"
proof -
  define l where "l = rc_raft_log r"
  define n where "n = mlog_first l + length (mlog_ents l)"
  define num where "num = map (\<lambda>(k, e). e\<lparr>e_term := rc_term r, e_index := n + k\<rparr>) (enumerate 0 es)"
  have "0 < n" using mem.lfirst_pos [OF inv] by (simp add: n_def l_def)
  then have number: "returns (number_entries (rc_term r) (n - 1) 0 es) (\<lambda>es'. es' = num)"
    using number_entries_eq [of "rc_term r" "n - 1" 0 es] by (simp add: returns_def num_def)
  have last: "log_last_index (mem_env E) l = Some (n - 1)"
    using mem.log_last_index_eq [OF inv] by (simp add: l_def n_def)
  have "num \<noteq> []" "e_index (hd num) = n" using es by (cases es; simp add: num_def)+
  then have append: "returns (log_append (mem_env E) l num) (\<lambda>(_, l'). mlog_ents l' = mlog_ents l @ num \<and> rl_applied l' = rl_applied l)"
    using log_append_at_end [of E l num] inv by (simp add: n_def l_def)
  show ?thesis
    unfolding append_entry_def l_def [symmetric] n_def [symmetric] num_def [symmetric]
    by (intro returns_rules returnsI [of "maybe_increase_uncommitted_size u es" for u es])
      (auto simp: last l_def [symmetric] simp del: One_nat_def
        intro!: returns_rules number [THEN returns_mono] append [THEN returns_mono])
qed

lemma not_a_change [simp]: "\<not> is_conf_change default_entry"
  by (simp add: is_conf_change_def default_entry_def)

lemma proposed_change_iff: "proposed_change E e = None \<longleftrightarrow> \<not> is_conf_change e"
  by (simp add: proposed_change_def is_conf_change_def split: entry_type.split)

text \<open>Either no change gets through and the pending index stays, or one does and becomes pending.\<close>

definition one_change_through :: "'s raft \<Rightarrow> nat \<Rightarrow> entry list \<Rightarrow> 's raft \<Rightarrow> bool" where
  "one_change_through r n es r' \<longleftrightarrow> \<not> has_pending_conf r \<and>
     (\<exists>a e b. es = a @ e # b \<and> is_conf_change e \<and> list_all (\<lambda>x. \<not> is_conf_change x) (a @ b)
        \<and> r' = r\<lparr>rc_pending_conf_index := n + length a\<rparr>)"

definition changes_through :: "'s raft \<Rightarrow> nat \<Rightarrow> entry list \<Rightarrow> 's raft \<Rightarrow> bool" where
  "changes_through r n es r' \<longleftrightarrow>
     r' = r \<and> list_all (\<lambda>x. \<not> is_conf_change x) es \<or> one_change_through r n es r'"

lemma changes_through_skip:
  assumes "changes_through r (n + 1) es r'" and "\<not> is_conf_change e"
  shows "changes_through r n (e # es) r'"
proof (cases "one_change_through r (n + 1) es r'")
  case True
  then obtain a x b where d: "\<not> has_pending_conf r" "es = a @ x # b" "is_conf_change x"
      "list_all (\<lambda>x. \<not> is_conf_change x) (a @ b)" "r' = r\<lparr>rc_pending_conf_index := n + length (e # a)\<rparr>"
    by (auto simp: one_change_through_def)
  then have "e # es = (e # a) @ x # b" "list_all (\<lambda>x. \<not> is_conf_change x) ((e # a) @ b)" using assms(2) by simp_all
  with d(1, 3, 5) show ?thesis unfolding changes_through_def one_change_through_def by blast
qed (use assms in \<open>auto simp: changes_through_def\<close>)

lemma changes_through_take:
  assumes "\<not> has_pending_conf r" and "has_pending_conf (r\<lparr>rc_pending_conf_index := n\<rparr>)" and "is_conf_change e"
    and "changes_through (r\<lparr>rc_pending_conf_index := n\<rparr>) (n + 1) es r'"
  shows "changes_through r n (e # es) r'"
proof -
  have "r' = r\<lparr>rc_pending_conf_index := n + length []\<rparr>" "list_all (\<lambda>x. \<not> is_conf_change x) ([] @ es)" "e # es = [] @ e # es"
    using assms(2, 4) by (auto simp: changes_through_def one_change_through_def)
  with assms(1, 3) show ?thesis unfolding changes_through_def one_change_through_def by blast
qed

lemma cons_result: "(case res of Inl err \<Rightarrow> Inl err | Inr es \<Rightarrow> Inr (e # es)) = Inr es' \<longleftrightarrow> (\<exists>es. res = Inr es \<and> es' = e # es)"
  by (auto split: sum.splits)

text \<open>One turn of the loop.\<close>

lemma propose_entries_turn:
  assumes "log_last_index E (rc_raft_log r) = Some li" and "propose_entries E i (e # es) r = Some (Inr es', r')"
  shows "\<exists>x r1 es1. propose_entries E (i + 1) es r1 = Some (Inr es1, r') \<and> es' = x # es1 \<and>
     (r1 = r \<and> \<not> is_conf_change x \<or>
       \<not> has_pending_conf r \<and> is_conf_change x \<and> r1 = r\<lparr>rc_pending_conf_index := li + i + 1\<rparr>)"
proof (cases "proposed_change E e")
  case None
  with assms(2) proposed_change_iff [of E e] show ?thesis by (auto simp: bind_eq_Some_conv cons_result)
next
  case (Some c)
  with assms(2) obtain cc where cc: "c = Inr cc" by (cases c) auto
  have e: "is_conf_change e" using Some proposed_change_iff [of E e] by auto
  show ?thesis
  proof (cases "refuses_change r cc")
    case True
    with assms(2) Some cc show ?thesis by (auto simp: bind_eq_Some_conv cons_result)
  next
    case False
    then have "\<not> has_pending_conf r" by (simp add: refuses_change_def)
    with assms Some cc False e show ?thesis by (auto simp: bind_eq_Some_conv cons_result)
  qed
qed

lemma propose_entries_changes:
  assumes "log_last_index E (rc_raft_log r) = Some li" and "rl_applied (rc_raft_log r) \<le> li"
    and "propose_entries E i es r = Some (Inr es', r')"
  shows "length es' = length es \<and> changes_through r (li + i + 1) es' r'"
  using assms
proof (induction es arbitrary: i r es')
  case (Cons e es)
  from propose_entries_turn [OF Cons.prems(1, 3)] obtain x r1 es1 where x:
    "propose_entries E (i + 1) es r1 = Some (Inr es1, r')" "es' = x # es1"
    "r1 = r \<and> \<not> is_conf_change x \<or>
       \<not> has_pending_conf r \<and> is_conf_change x \<and> r1 = r\<lparr>rc_pending_conf_index := li + i + 1\<rparr>"
    by blast
  have pending: "has_pending_conf (r\<lparr>rc_pending_conf_index := li + i + 1\<rparr>)"
    using Cons.prems(2) by (simp add: has_pending_conf_def)
  have "log_last_index E (rc_raft_log r1) = Some li" "rl_applied (rc_raft_log r1) \<le> li"
    using x(3) Cons.prems(1, 2) by auto
  from Cons.IH [OF this x(1)] have IH: "length es1 = length es" "changes_through r1 (li + i + 1 + 1) es1 r'" by simp_all
  from x(3) have "changes_through r (li + i + 1) (x # es1) r'"
    using IH(2) changes_through_skip changes_through_take [OF _ pending] by auto
  with IH(1) x(2) show ?case by simp
qed (simp add: changes_through_def)

text \<open>The changes a log holds and has not applied, and a leader that knows of all of them.\<close>

definition unapplied_changes :: "mem_storage raft \<Rightarrow> entry list \<Rightarrow> entry list" where
  "unapplied_changes r es = filter (\<lambda>e. is_conf_change e \<and> rl_applied (rc_raft_log r) < e_index e) es"

definition pending_known :: "mem_storage raft \<Rightarrow> bool" where
  "pending_known r \<longleftrightarrow>
     (\<forall>e \<in> set (unapplied_changes r (mlog_ents (rc_raft_log r))). e_index e \<le> rc_pending_conf_index r)"

lemma pending_known_blocks:
  "pending_known r \<Longrightarrow> \<not> has_pending_conf r \<Longrightarrow> unapplied_changes r (mlog_ents (rc_raft_log r)) = []"
  by (fastforce simp: pending_known_def has_pending_conf_def unapplied_changes_def filter_empty_conv)

definition numbered :: "u64 \<Rightarrow> u64 \<Rightarrow> entry list \<Rightarrow> entry list" where
  "numbered t n es = map (\<lambda>(k, e). e\<lparr>e_term := t, e_index := n + k\<rparr>) (enumerate 0 es)"

lemma numbered_no_change: "list_all (\<lambda>x. \<not> is_conf_change x) es \<Longrightarrow> filter is_conf_change (numbered t n es) = []"
  by (auto simp: numbered_def filter_empty_conv is_conf_change_def list_all_iff enumerate_eq_zip dest: set_zip_rightD)

lemma numbered_one_change:
  assumes "is_conf_change e" and "list_all (\<lambda>x. \<not> is_conf_change x) (a @ b)"
  shows "filter is_conf_change (numbered t n (a @ e # b)) = [e\<lparr>e_term := t, e_index := n + length a\<rparr>]"
proof -
  have none: "filter is_conf_change (map (\<lambda>(k, e). e\<lparr>e_term := t, e_index := n + k\<rparr>) (enumerate i c)) = []"
    if "list_all (\<lambda>x. \<not> is_conf_change x) c" for c i
    using that by (auto simp: filter_empty_conv is_conf_change_def list_all_iff enumerate_eq_zip dest: set_zip_rightD)
  show ?thesis using assms none by (simp add: numbered_def enumerate_append_eq is_conf_change_def)
qed

lemma leader_propose_run:
  assumes "leader_propose (mem_env E) r m = Some (Inr (), r')" and inv: "mlog_inv E (rc_raft_log r)"
    and ap: "rl_applied (rc_raft_log r) \<le> rc_committed r"
  obtains es r1 where "length es = length (m_entries m)"
    "changes_through r (mlog_first (rc_raft_log r) + length (mlog_ents (rc_raft_log r))) es r1"
    "mlog_ents (rc_raft_log r') = mlog_ents (rc_raft_log r) @
       numbered (rc_term r) (mlog_first (rc_raft_log r) + length (mlog_ents (rc_raft_log r))) es"
    "rl_applied (rc_raft_log r') = rl_applied (rc_raft_log r)" "rc_pending_conf_index r' = rc_pending_conf_index r1"
proof -
  let ?l = "rc_raft_log r"
  let ?n = "mlog_first ?l + length (mlog_ents ?l)"
  obtain res r1 where p: "propose_entries (mem_env E) 0 (m_entries m) r = Some (res, r1)"
    using assms(1) by (auto simp: leader_propose_def bind_eq_Some_conv split: if_splits)
  obtain es where res: "res = Inr es" using assms(1) p by (cases res) (auto simp: leader_propose_def bind_eq_Some_conv split: if_splits)
  from assms(1) p res obtain r2 where run: "m_entries m \<noteq> []" "propose_entries (mem_env E) 0 (m_entries m) r = Some (Inr es, r1)"
    "append_entry (mem_env E) r1 es = Some (True, r2)" "bcast_append (mem_env E) r2 = Some r'"
    by (auto simp: leader_propose_def bind_eq_Some_conv split: if_splits)
  have li: "log_last_index (mem_env E) ?l = Some (?n - 1)" by (rule mem.log_last_index_eq [OF inv])
  have "rc_committed r < ?n" using inv by (simp add: log_inv_def)
  then have "rl_applied ?l \<le> ?n - 1" using ap by simp
  from propose_entries_changes [OF li this run(2)] mem.lfirst_pos [OF inv]
  have ch: "length es = length (m_entries m)" "changes_through r ?n es r1" by simp_all
  then have r1: "rc_raft_log r1 = ?l" "rc_term r1 = rc_term r" by (auto simp: changes_through_def one_change_through_def)
  have "es \<noteq> []" using run(1) ch(1) by auto
  from returnsD [OF append_entry_ents [of E r1 es] run(3)] this inv r1
  have r2: "rl_applied (rc_raft_log r2) = rl_applied ?l" "rc_pending_conf_index r2 = rc_pending_conf_index r1"
    "mlog_ents (rc_raft_log r2) = mlog_ents ?l @ numbered (rc_term r) ?n es"
    by (simp_all add: numbered_def)
  from returnsD [OF bcast_append_reads run(4)] have v: "same_view (rc_raft_log r2) (rc_raft_log r')"
    "rc_pending_conf_index r' = rc_pending_conf_index r2" by simp_all
  from r2 v(2) same_view_ents [OF v(1)] v(1) have "mlog_ents (rc_raft_log r') = mlog_ents ?l @ numbered (rc_term r) ?n es"
    "rl_applied (rc_raft_log r') = rl_applied ?l" "rc_pending_conf_index r' = rc_pending_conf_index r1"
    by (simp_all add: same_view_def)
  with ch show ?thesis by (rule that)
qed

text \<open>
  (C7) Membership changes are proposed one at a time: a proposal that a leader accepts appends as many
  entries as it has, at most one of them a membership change, and none if the log already holds a
  change that is not applied. The leader goes on knowing every change that is not applied, so the
  next proposal meets the same guard.
\<close>

theorem one_conf_change_at_a_time:
  assumes inv: "mlog_inv E (rc_raft_log r)" and ap: "rl_applied (rc_raft_log r) \<le> rc_committed r"
    and known: "pending_known r" and run: "leader_propose (mem_env E) r m = Some (Inr (), r')"
  shows "pending_known r' \<and> (\<exists>es. mlog_ents (rc_raft_log r') = mlog_ents (rc_raft_log r) @ es
     \<and> length es = length (m_entries m) \<and> length (filter is_conf_change es) \<le> 1
     \<and> (unapplied_changes r (mlog_ents (rc_raft_log r)) \<noteq> [] \<longrightarrow> filter is_conf_change es = []))"
proof -
  let ?n = "mlog_first (rc_raft_log r) + length (mlog_ents (rc_raft_log r))"
  from leader_propose_run [OF run inv ap] obtain es r1 where r': "length es = length (m_entries m)" "changes_through r ?n es r1"
    "mlog_ents (rc_raft_log r') = mlog_ents (rc_raft_log r) @ numbered (rc_term r) ?n es"
    "rl_applied (rc_raft_log r') = rl_applied (rc_raft_log r)" "rc_pending_conf_index r' = rc_pending_conf_index r1" .
  let ?new = "numbered (rc_term r) ?n es"
  have len: "length ?new = length (m_entries m)" using r'(1) by (simp add: numbered_def)
  have new: "filter is_conf_change ?new = [] \<and> r1 = r \<or>
      \<not> has_pending_conf r \<and> (\<exists>e. filter is_conf_change ?new = [e] \<and> e_index e = rc_pending_conf_index r1)"
    using r'(2) numbered_no_change numbered_one_change unfolding changes_through_def one_change_through_def by fastforce
  have un: "unapplied_changes r' (a @ b) = unapplied_changes r a @
      filter (\<lambda>e. rl_applied (rc_raft_log r) < e_index e) (filter is_conf_change b)" for a b
    using r'(4) by (simp add: unapplied_changes_def conj_commute)
  have "pending_known r'"
    using new known pending_known_blocks [OF known] unfolding pending_known_def r'(3) r'(5) un
    by (elim disjE conjE exE) (simp_all del: set_filter filter_filter)
  moreover have "length (filter is_conf_change ?new) \<le> 1
      \<and> (unapplied_changes r (mlog_ents (rc_raft_log r)) \<noteq> [] \<longrightarrow> filter is_conf_change ?new = [])"
    using new pending_known_blocks [OF known] by auto
  ultimately show ?thesis using r'(3) len by blast
qed

text \<open>The leader above gets a proposal of two changes, in an environment that decodes them.\<close>

definition change_env :: "unit env" where
  "change_env = sample_env\<lparr>pb_read_conf_change_v2 :=
     (\<lambda>_. Inr \<lparr>cc2_transition = Auto, cc2_changes = [new_conf_change_single 4 AddNode], cc2_context = []\<rparr>)\<rparr>"

definition sample_proposal :: message where
  "sample_proposal = default_message\<lparr>m_type := MsgPropose, m_from := 1,
     m_entries := [default_entry\<lparr>e_type := EntryConfChangeV2\<rparr>, default_entry\<lparr>e_type := EntryConfChangeV2\<rparr>]\<rparr>"

lemma sample_leader_takes:
  "propose_entries (mem_env change_env) 0 (m_entries sample_proposal) sample_leader =
     Some (Inr [default_entry\<lparr>e_type := EntryConfChangeV2\<rparr>, default_entry], sample_leader\<lparr>rc_pending_conf_index := 3\<rparr>)"
  by (simp add: sample_proposal_def change_env_def proposed_change_def refuses_change_def
      has_pending_conf_def joint_def configuration_new_def joint_new_def hset_collect_def hset_extend_def hset_insert_def
      new_conf_change_single_def sample_leader_def sample_full_def raft_init_def config_new_def default_config_def
      default_message_def sample_env_def sample_eval Let_def)

lemma sample_leader_proposes:
  "\<exists>r'. leader_propose (mem_env change_env) sample_leader sample_proposal = Some (Inr (), r')"
  unfolding leader_propose_def sample_leader_takes
  by (simp add: sample_proposal_def change_env_def append_entry_def maybe_increase_uncommitted_size_def is_no_limit_def
      NO_LIMIT_def log_append_def truncate_and_append_def entry_approximate_size_def bcast_append_def bcast_def
      send_append_def hmap_contains_def sample_send_eval)

lemma one_conf_change_at_a_time_witness:
  "\<exists>r' es. leader_propose (mem_env change_env) sample_leader sample_proposal = Some (Inr (), r')
     \<and> mlog_ents (rc_raft_log r') = mlog_ents (rc_raft_log sample_leader) @ es \<and> length (filter is_conf_change es) \<le> 1"
proof -
  obtain r' where run: "leader_propose (mem_env change_env) sample_leader sample_proposal = Some (Inr (), r')"
    using sample_leader_proposes by blast
  have l: "rc_raft_log sample_leader = sample_full" by (simp add: sample_leader_def raft_init_def)
  have inv: "mlog_inv change_env (rc_raft_log sample_leader)"
    using sample_full_inv unfolding l by (simp add: change_env_def mem_env_def)
  have "rl_applied (rc_raft_log sample_leader) \<le> rc_committed sample_leader"
    unfolding l by (simp add: sample_full_def sample_log_def)
  moreover have "pending_known sample_leader"
    unfolding pending_known_def unapplied_changes_def l sample_full_view
    by (simp add: is_conf_change_def sample_entry_def default_entry_def)
  ultimately show ?thesis using one_conf_change_at_a_time [OF inv _ _ run] run by blast
qed

section \<open>Votes\<close>

text \<open>
  When a node votes for the sender of a request of its own term: it has not voted for another node
  and follows no leader, the candidate's log ends no earlier than its own, and a candidate of lower
  priority needs a longer log.
\<close>

definition votes_for :: "'s raft \<Rightarrow> u64 \<Rightarrow> u64 \<Rightarrow> message \<Rightarrow> bool" where
  "votes_for r last_index last_term m \<longleftrightarrow>
     (rc_vote r = m_from m \<or> rc_vote r = INVALID_ID \<and> rc_leader_id r = INVALID_ID)
     \<and> (last_term < m_log_term m \<or> last_term = m_log_term m \<and> last_index \<le> m_index m)
     \<and> (last_index < m_index m \<or> rc_priority r \<le> get_priority m)"

lemma can_grant_vote_eq:
  assumes m: "m_type m = MsgRequestVote"
    and li: "log_last_index (mem_env E) (rc_raft_log r) = Some li"
    and lt: "log_term (mem_env E) (rc_raft_log r) li = Some (Inr lt)"
  shows "can_grant_vote (mem_env E) r m = Some (votes_for r li lt m)"
  using m li lt by (auto simp: can_grant_vote_def is_up_to_date_def log_last_term_def votes_for_def Let_def)

text \<open>A scan that does not ask for entries asynchronously leaves the store alone.\<close>

lemma log_scan_keeps:
  assumes "\<not> can_async c"
  shows "returns (log_scan (mem_env E) l lo hi pg c v acc) (\<lambda>(_, _, l'). l' = l)"
proof (induction "hi - lo" arbitrary: lo acc rule: less_induct)
  case less
  have read: "returns (st_entries (mem_env E) s a b sz c) (\<lambda>(_, s'). s' = s)" for s a b sz
    unfolding mem_env_def env.simps mem_entries_def
    by (intro returns_rules returnsI [of "mem_first_index s" for s] returnsI [of "limit_size c es sz" for c es sz]
        returnsI [of "vec_range es lo hi" for es lo hi] returnsI [of "vec_get es i" for es i]) (use assms in auto)
  have slice: "returns (log_slice (mem_env E) l lo hi sz c) (\<lambda>(_, l'). l' = l)" for sz
    unfolding log_slice_def
    by (intro returns_rules read [THEN returns_mono] returnsI [of "log_must_check_outofbounds E l lo hi" for E l lo hi]
        returnsI [of "unstable_slice u lo hi" for u lo hi] returnsI [of "limit_size c es sz" for c es sz]) auto
  have add: "returns (u64_add lo n) (\<lambda>k. k = lo + n)" for n by (simp add: returns_def u64_add_def)
  show ?case
    by (subst log_scan.simps)
      (intro returns_rules slice [THEN returns_mono] add [THEN returns_mono], auto intro!: less simp: diff_less_mono2)
qed

text \<open>The entries from one index up to another, and whether a membership change is among them.\<close>

definition log_range :: "mem_storage raft_log \<Rightarrow> u64 \<Rightarrow> u64 \<Rightarrow> entry list" where
  "log_range l lo hi = take (hi - lo) (drop (lo - mlog_first l) (mlog_ents l))"

lemma has_unapplied_conf_changes_eq:
  assumes inv: "mlog_inv E (rc_raft_log r)" and c: "\<not> can_async c"
    and b: "mlog_first (rc_raft_log r) \<le> lo" "lo \<le> hi" "hi \<le> mlog_first (rc_raft_log r) + length (mlog_ents (rc_raft_log r))"
  shows "has_unapplied_conf_changes (mem_env E) r lo hi c =
     Some (rl_applied (rc_raft_log r) < rc_committed r \<and> list_ex is_conf_change (log_range (rc_raft_log r) lo hi), r)"
proof -
  let ?scan = "log_scan (mem_env E) (rc_raft_log r) lo hi (rc_max_committed_size_per_ready r) c
      (\<lambda>ents found. if list_ex is_conf_change ents then (False, True) else (True, found)) False"
  obtain s where s: "?scan = Some (Inr (), list_ex is_conf_change (log_range (rc_raft_log r) lo hi), (rc_raft_log r)\<lparr>rl_store := s\<rparr>)"
    using mem.log_scan_finds [OF inv b c] unfolding log_range_def by blast
  from returnsD [OF log_scan_keeps [OF c] this] have "(rc_raft_log r)\<lparr>rl_store := s\<rparr> = rc_raft_log r" by simp
  with s show ?thesis by (simp add: has_unapplied_conf_changes_def)
qed

lemma raft_reset_total:
  assumes inv: "mlog_inv E (rc_raft_log r)" and "rc_min_election_timeout r < rc_max_election_timeout r"
  shows "\<exists>r'. raft_reset (mem_env E) r t = Some r' \<and> rc_raft_log r' = rc_raft_log r"
proof -
  have "mlog_first (rc_raft_log r) + length (mlog_ents (rc_raft_log r)) - 1 + 1 \<le> U64_MAX"
    using mem.lbound [OF inv] mem.lfirst_pos [OF inv] by simp
  then show ?thesis
    using assms(2)
    by (simp add: raft_reset_def reset_randomized_election_timeout_def gen_range_def abort_leader_transfer_def
        tracker_reset_votes_def reset_progress_def mem.log_last_index_eq [OF inv] Let_def u64_add_def)
qed

lemma become_follower_total:
  assumes "mlog_inv E (rc_raft_log r)" and "rc_min_election_timeout r < rc_max_election_timeout r"
  shows "\<exists>r'. become_follower (mem_env E) r t i = Some r' \<and> reset_from r t r' \<and> rc_state r' = Follower"
proof -
  obtain r' where "become_follower (mem_env E) r t i = Some r'"
    using raft_reset_total [OF assms, of t] by (auto simp: become_follower_def)
  with returnsD [OF become_follower_returns this] show ?thesis by simp
qed

text \<open>
  What a node learns from the commit index and term of a candidate it refuses: the index, if it is new
  and its own log has that term there. A candidate that learns so of a membership change it has not
  applied gives up its campaign.
\<close>

definition learned_commit :: "mem_storage raft \<Rightarrow> message \<Rightarrow> u64" where
  "learned_commit r m =
     (if rc_state r \<noteq> Leader \<and> rc_committed r < m_commit m \<and> 0 < m_commit_term m
         \<and> entry_of_term (rc_raft_log r) (m_commit m) (m_commit_term m)
      then m_commit m else rc_committed r)"

definition gives_up :: "mem_storage raft \<Rightarrow> message \<Rightarrow> bool" where
  "gives_up r m \<longleftrightarrow> (rc_state r = Candidate \<or> rc_state r = PreCandidate)
     \<and> rl_applied (rc_raft_log r) < learned_commit r m
     \<and> list_ex is_conf_change (log_range (rc_raft_log r) (rc_committed r + 1) (learned_commit r m + 1))"

lemma maybe_commit_by_vote_total:
  assumes inv: "mlog_inv E (rc_raft_log r)" and tm: "rc_min_election_timeout r < rc_max_election_timeout r"
  shows "\<exists>r'. maybe_commit_by_vote (mem_env E) r m = Some r' \<and> rc_committed r' = learned_commit r m
     \<and> rc_state r' = (if gives_up r m then Follower else rc_state r)
     \<and> rc_term r' = rc_term r \<and> rc_vote r' = rc_vote r \<and> r_msgs r' = r_msgs r"
proof (cases "learned_commit r m = rc_committed r")
  case True
  then have "\<not> gives_up r m" by (simp add: gives_up_def log_range_def)
  moreover have "maybe_commit_by_vote (mem_env E) r m = Some r"
    using True log_maybe_commit_eq [OF inv, of "m_commit_term m" "m_commit m"]
    by (auto simp: maybe_commit_by_vote_def learned_commit_def Let_def split: if_splits)
  ultimately show ?thesis using True by simp
next
  case False
  let ?l = "(rc_raft_log r)\<lparr>rl_committed := m_commit m\<rparr>"
  let ?r = "r\<lparr>rc_raft_log := ?l\<rparr>"
  from False have k: "rc_state r \<noteq> Leader" "rc_committed r < m_commit m" "0 < m_commit_term m" "learned_commit r m = m_commit m"
    and e: "entry_of_term (rc_raft_log r) (m_commit m) (m_commit_term m)"
    by (auto simp: learned_commit_def split: if_splits)
  have le: "m_commit m < mlog_first (rc_raft_log r) + length (mlog_ents (rc_raft_log r))"
    "mlog_first (rc_raft_log r) \<le> rc_committed r + 1"
    using e inv by (simp_all add: entry_of_term_def log_inv_def)
  have inv': "mlog_inv E ?l" using mem.linv_committed [OF inv] k(2) le(1) by simp
  have bd: "rc_committed r + 1 \<le> U64_MAX" "m_commit m + 1 \<le> U64_MAX" using mem.lbound [OF inv] le k(2) by simp_all
  have same: "log_range ?l a b = log_range (rc_raft_log r) a b" for a b by (simp add: log_range_def)
  have "has_unapplied_conf_changes (mem_env E) ?r (rc_committed r + 1) (m_commit m + 1) CommitByVote =
      Some (rl_applied (rc_raft_log r) < m_commit m
        \<and> list_ex is_conf_change (log_range (rc_raft_log r) (rc_committed r + 1) (m_commit m + 1)), ?r)"
    using has_unapplied_conf_changes_eq [of E ?r CommitByVote "rc_committed r + 1" "m_commit m + 1"] inv' le k(2)
    by (simp add: can_async_def same)
  then have run: "maybe_commit_by_vote (mem_env E) r m =
      (if gives_up r m then become_follower (mem_env E) ?r (rc_term r) INVALID_ID else Some ?r)"
    using k e bd log_maybe_commit_eq [OF inv, of "m_commit_term m" "m_commit m"]
    by (auto simp: maybe_commit_by_vote_def gives_up_def Let_def u64_add_def)
  show ?thesis
  proof (cases "gives_up r m")
    case True
    from become_follower_total [of E ?r "rc_term r" INVALID_ID] inv' tm obtain r' where
      "become_follower (mem_env E) ?r (rc_term r) INVALID_ID = Some r'" "reset_from ?r (rc_term r) r'" "rc_state r' = Follower"
      by auto
    with True run k(4) show ?thesis by (simp add: reset_from_def)
  qed (use run k(4) in simp)
qed

text \<open>
  (C6) The answer of a node, in whatever role, to a request for a vote in its own term, on a log that
  keeps its invariant and can read the term of its last entry. The vote is granted exactly when the
  node may vote for the candidate, the candidate's log is at least as up to date and the priorities
  allow it; then one response that grants it goes out, the vote is recorded, and role and commit
  index stay. Otherwise one rejection with the commit index of the node goes out and the vote stays;
  the node takes over the commit index the candidate claims if its own log agrees, and leaves its
  role only if it is a candidate that so learns of a membership change it has not applied. There is
  one more outcome: if the vote is refused and the term at the commit index is compacted away, the
  node panics.
\<close>

theorem vote_is_granted_exactly_when:
  assumes inv: "mlog_inv E (rc_raft_log r)" and tm: "rc_min_election_timeout r < rc_max_election_timeout r"
    and m: "m_type m = MsgRequestVote" "m_term m = rc_term r" "0 < rc_term r"
    and li: "log_last_index (mem_env E) (rc_raft_log r) = Some li"
    and lt: "log_term (mem_env E) (rc_raft_log r) li = Some (Inr lt)"
  shows "if votes_for r li lt m \<or> (\<exists>ct. log_term (mem_env E) (rc_raft_log r) (rc_committed r) = Some (Inr ct))
    then \<exists>r' resp. step (mem_env E) r m = Some (Inr (), r') \<and> r_msgs r' = r_msgs r @ [resp]
       \<and> m_type resp = MsgRequestVoteResponse \<and> m_to resp = m_from m \<and> m_from resp = rc_id r \<and> m_term resp = rc_term r
       \<and> m_reject resp = (\<not> votes_for r li lt m)
       \<and> (m_reject resp \<longrightarrow> m_commit resp = rc_committed r)
       \<and> rc_term r' = rc_term r
       \<and> rc_vote r' = (if votes_for r li lt m then m_from m else rc_vote r)
       \<and> rc_committed r' = (if votes_for r li lt m then rc_committed r else learned_commit r m)
       \<and> rc_state r' = (if \<not> votes_for r li lt m \<and> gives_up r m then Follower else rc_state r)
    else step (mem_env E) r m = None"
proof -
  have go: "step (mem_env E) r m = ok_step (step_vote (mem_env E) r m)"
    using m by (simp add: step_def step_term_def is_vote_request_def)
  note grant = can_grant_vote_eq [OF m(1) li lt]
  show ?thesis
  proof (cases "votes_for r li lt m")
    case True
    then show ?thesis
      using m by (simp add: go step_vote_def grant ok_step_def vote_resp_msg_type_def raft_send_def send_def new_message_def
          default_message_def)
  next
    case False
    let ?msg = "\<lambda>ct. default_message\<lparr>m_to := m_from m, m_from := rc_id r, m_type := MsgRequestVoteResponse, m_reject := True,
      m_term := rc_term r, m_commit := rc_committed r, m_commit_term := ct\<rparr>"
    show ?thesis
    proof (cases "\<exists>ct. log_term (mem_env E) (rc_raft_log r) (rc_committed r) = Some (Inr ct)")
      case True
      then obtain ct where ct: "log_term (mem_env E) (rc_raft_log r) (rc_committed r) = Some (Inr ct)" ..
      let ?r = "r\<lparr>r_msgs := r_msgs r @ [?msg ct]\<rparr>"
      have same: "learned_commit ?r m = learned_commit r m" "gives_up ?r m = gives_up r m"
        by (simp_all add: learned_commit_def gives_up_def)
      have "step_vote (mem_env E) r m = maybe_commit_by_vote (mem_env E) ?r m"
        using m ct False by (simp add: step_vote_def grant vote_resp_msg_type_def raft_send_def send_def new_message_def
            commit_info_def default_message_def)
      with maybe_commit_by_vote_total [of E ?r m] inv tm same ct False show ?thesis by (fastforce simp: go ok_step_def)
    next
      case unread: False
      obtain res where "log_term (mem_env E) (rc_raft_log r) (rc_committed r) = Some (Inl res)"
        using unread mem.log_term_total [OF inv, of "rc_committed r"] by auto
      then have "step (mem_env E) r m = None"
        using m False by (simp add: go step_vote_def grant vote_resp_msg_type_def commit_info_def ok_step_def)
      with unread False show ?thesis by simp
    qed
  qed
qed

text \<open>A follower grants a vote; once it has voted for another node it refuses.\<close>

lemma vote_is_granted_exactly_when_witness:
  "(\<exists>r' resp. step (mem_env sample_env) sample_raft sample_vote_request = Some (Inr (), r')
     \<and> r_msgs r' = r_msgs sample_raft @ [resp] \<and> \<not> m_reject resp \<and> rc_vote r' = 2)
   \<and> (\<exists>r' resp. step (mem_env sample_env) (sample_raft\<lparr>rc_vote := 3\<rparr>) sample_vote_request = Some (Inr (), r')
     \<and> r_msgs r' = r_msgs sample_raft @ [resp] \<and> m_reject resp \<and> rc_vote r' = 3)"
proof -
  let ?q = "sample_raft\<lparr>rc_vote := 3\<rparr>"
  have r: "rc_raft_log sample_raft = sample_log" "rc_term sample_raft = 5"
    "rc_min_election_timeout sample_raft < rc_max_election_timeout sample_raft"
    by (simp_all add: sample_raft_def raft_init_def config_new_def default_config_def min_election_tick_def)
  have m: "m_type sample_vote_request = MsgRequestVote" "m_term sample_vote_request = 5" "m_from sample_vote_request = 2"
    by (simp_all add: sample_vote_request_def)
  have l: "log_last_index (mem_env sample_env) sample_log = Some 0" "log_term (mem_env sample_env) sample_log 0 = Some (Inr 0)"
    "rl_committed sample_log = 0"
    by (simp_all add: sample_eval)
  have v: "votes_for sample_raft 0 0 sample_vote_request" "\<not> votes_for ?q 0 0 sample_vote_request"
    by (simp_all add: votes_for_def sample_raft_def raft_init_def sample_vote_request_def default_message_def get_priority_def
        config_new_def default_config_def)
  have "\<exists>r' resp. step (mem_env sample_env) sample_raft sample_vote_request = Some (Inr (), r')
     \<and> r_msgs r' = r_msgs sample_raft @ [resp] \<and> \<not> m_reject resp \<and> rc_vote r' = 2"
    using vote_is_granted_exactly_when [of sample_env sample_raft sample_vote_request 0 0] sample_log_inv r m l v(1) by auto
  moreover have "\<exists>r' resp. step (mem_env sample_env) ?q sample_vote_request = Some (Inr (), r')
     \<and> r_msgs r' = r_msgs sample_raft @ [resp] \<and> m_reject resp \<and> rc_vote r' = 3"
    using vote_is_granted_exactly_when [of sample_env ?q sample_vote_request 0 0] sample_log_inv r m l v(2) by auto
  ultimately show ?thesis ..
qed

section \<open>Elections\<close>

text \<open>The clock alone, without any message.\<close>

fun ticks :: "'s env \<Rightarrow> nat \<Rightarrow> 's raft \<Rightarrow> 's raft option" where
  "ticks E 0 r = Some r"
| "ticks E (Suc n) r = do { (_, r) \<leftarrow> tick E r; ticks E n r }"

lemma ticks_wait:
  assumes "rc_state r = Follower" and "rc_election_elapsed r + n < rc_randomized_election_timeout r"
    and "rc_randomized_election_timeout r \<le> U64_MAX"
  shows "ticks E (n + k) r = ticks E k (r\<lparr>rc_election_elapsed := rc_election_elapsed r + n\<rparr>)"
  using assms
proof (induction n arbitrary: r)
  case (Suc n)
  let ?r = "r\<lparr>rc_election_elapsed := rc_election_elapsed r + 1\<rparr>"
  have "tick E r = Some (False, ?r)"
    using Suc.prems by (simp add: tick_def tick_election_def pass_election_timeout_def u64_add_def Let_def)
  moreover have "ticks E (n + k) ?r = ticks E k (?r\<lparr>rc_election_elapsed := rc_election_elapsed ?r + n\<rparr>)"
    by (rule Suc.IH) (use Suc.prems in simp_all)
  ultimately show ?case by simp
qed simp

definition asks_vote :: "'s raft \<Rightarrow> message_type \<Rightarrow> u64 \<Rightarrow> u64 \<Rightarrow> u64 \<Rightarrow> u64 \<Rightarrow> message \<Rightarrow> bool" where
  "asks_vote r ty t li lt v m \<longleftrightarrow> m_type m = ty \<and> m_to m = v \<and> m_from m = rc_id r \<and> m_term m = t
     \<and> m_index m = li \<and> m_log_term m = lt"

lemma send_vote_request_asks:
  assumes "log_last_index E (rc_raft_log r) = Some li" and "log_term E (rc_raft_log r) li = Some (Inr lt)"
    and "0 < t" and "ty \<in> {MsgRequestVote, MsgRequestPreVote}" and "i \<noteq> rc_id r"
  shows "\<exists>m. send_vote_request E r ct ty t c u i ms = Some (ms @ [m]) \<and> asks_vote r ty t li lt i m"
  using assms
  by (auto simp: send_vote_request_def log_last_term_def send_def new_message_def default_message_def asks_vote_def Let_def)

lemma vote_requests_asked:
  assumes "log_last_index E (rc_raft_log r) = Some li" and "log_term E (rc_raft_log r) li = Some (Inr lt)"
    and "0 < t" and "ty \<in> {MsgRequestVote, MsgRequestPreVote}"
  shows "\<exists>new. fold_panic (send_vote_request E r ct ty t c u) ids ms = Some (ms @ new)
     \<and> (\<forall>i \<in> set ids - {rc_id r}. \<exists>m \<in> set new. asks_vote r ty t li lt i m)"
proof (induction ids arbitrary: ms)
  case (Cons i ids)
  show ?case
  proof (cases "i = rc_id r")
    case True
    then show ?thesis using Cons.IH [of ms] by (auto simp: send_vote_request_def)
  next
    case False
    from send_vote_request_asks [OF assms False] obtain m where
      m: "send_vote_request E r ct ty t c u i ms = Some (ms @ [m])" "asks_vote r ty t li lt i m" by blast
    from Cons.IH [of "ms @ [m]"] obtain new where
      "fold_panic (send_vote_request E r ct ty t c u) ids (ms @ [m]) = Some (ms @ m # new)"
      "\<forall>i \<in> set ids - {rc_id r}. \<exists>m \<in> set new. asks_vote r ty t li lt i m" by auto
    with m show ?thesis by (intro exI [of _ "m # new"]) auto
  qed
qed simp

lemma become_candidate_total:
  assumes inv: "mlog_inv E (rc_raft_log r)" and "rc_min_election_timeout r < rc_max_election_timeout r"
    and "rc_term r < U64_MAX" and "rc_state r \<noteq> Leader"
  shows "\<exists>r'. become_candidate (mem_env E) r = Some r' \<and> rc_raft_log r' = rc_raft_log r \<and> rc_id r' = rc_id r
     \<and> rc_term r' = rc_term r + 1 \<and> rc_vote r' = rc_id r \<and> rc_state r' = Candidate \<and> votes_of r' = []
     \<and> voters_of r' = voters_of r"
proof -
  obtain r1 where r1: "raft_reset (mem_env E) r (rc_term r + 1) = Some r1" "rc_raft_log r1 = rc_raft_log r"
    using raft_reset_total [OF assms(1, 2)] by blast
  have "reset_from r (rc_term r + 1) r1" using returnsD [OF raft_reset_returns r1(1)] by simp
  with r1 assms(3, 4) show ?thesis by (simp add: become_candidate_def u64_add_def reset_from_def)
qed

text \<open>The node at the start of a campaign, with or without the preliminary round.\<close>

definition campaigning :: "'s raft \<Rightarrow> bool \<Rightarrow> 's raft \<Rightarrow> bool" where
  "campaigning r pre r' \<longleftrightarrow>
     (if pre then rc_state r' = PreCandidate \<and> rc_term r' = rc_term r \<and> rc_vote r' = rc_vote r
      else rc_state r' = Candidate \<and> rc_term r' = rc_term r + 1 \<and> rc_vote r' = rc_id r)"

lemma begin_campaign_total:
  assumes inv: "mlog_inv E (rc_raft_log r)" and "rc_min_election_timeout r < rc_max_election_timeout r"
    and "rc_term r < U64_MAX" and "rc_state r \<noteq> Leader"
  shows "\<exists>c. begin_campaign (mem_env E) r (if pre then CAMPAIGN_PRE_ELECTION else CAMPAIGN_ELECTION) =
       Some (if pre then MsgRequestPreVote else MsgRequestVote, rc_term r + 1, c) \<and> campaigning r pre c
     \<and> rc_raft_log c = rc_raft_log r \<and> rc_id c = rc_id r \<and> votes_of c = [] \<and> voters_of c = voters_of r"
proof (cases pre)
  case True
  then show ?thesis
    using assms(3, 4) by (simp add: begin_campaign_def become_pre_candidate_def campaigning_def u64_add_def tracker_reset_votes_def)
next
  case False
  with become_candidate_total [OF assms] show ?thesis by (auto simp: begin_campaign_def campaigning_def)
qed

text \<open>A candidate that needs more votes than its own asks all the others.\<close>

lemma campaign_asks:
  fixes pre :: bool
  defines "ty \<equiv> if pre then MsgRequestPreVote else MsgRequestVote"
  assumes inv: "mlog_inv E (rc_raft_log r)" and "rc_min_election_timeout r < rc_max_election_timeout r"
    and "rc_term r < U64_MAX" and "rc_state r \<noteq> Leader"
    and li: "log_last_index (mem_env E) (rc_raft_log r) = Some li"
    and lt: "log_term (mem_env E) (rc_raft_log r) li = Some (Inr lt)"
    and ct: "log_term (mem_env E) (rc_raft_log r) (rc_committed r) = Some (Inr ct)"
    and others: "joint_vote_result (voters_of r) (yes_from {rc_id r}) = Pending"
  shows "\<exists>r'. campaign (mem_env E) r (if pre then CAMPAIGN_PRE_ELECTION else CAMPAIGN_ELECTION) = Some r' \<and> campaigning r pre r'
     \<and> (\<forall>v. joint_contains (voters_of r) v \<longrightarrow> v \<noteq> rc_id r \<longrightarrow> (\<exists>m \<in> set (r_msgs r'). asks_vote r ty (rc_term r + 1) li lt v m))"
proof -
  let ?ct = "if pre then CAMPAIGN_PRE_ELECTION else CAMPAIGN_ELECTION"
  obtain c where c: "begin_campaign (mem_env E) r ?ct = Some (ty, rc_term r + 1, c)" "campaigning r pre c"
    "rc_raft_log c = rc_raft_log r" "rc_id c = rc_id r" "votes_of c = []" "voters_of c = voters_of r"
    using begin_campaign_total [OF assms(2-5), of pre] unfolding ty_def by blast
  let ?c = "c\<lparr>r_prs := (r_prs c)\<lparr>tr_votes := [(rc_id r, True)]\<rparr>\<rparr>"
  have "map_of [(rc_id r, True)] = yes_from {rc_id r}" by (auto simp: yes_from_def)
  then have "snd (snd (tally_votes (r_prs ?c))) = Pending"
    using others c(6) by (simp add: tally_votes_def tracker_vote_result_def case_prod_beta Let_def)
  then obtain g j where "tally_votes (r_prs ?c) = (g, j, Pending)" by (metis prod.collapse)
  then have poll: "poll (mem_env E) c (rc_id r) ty True = Some (Pending, ?c)"
    using c(5) by (simp add: poll.simps record_vote_def hmap_contains_def)
  have "ty \<in> {MsgRequestVote, MsgRequestPreVote}" by (simp add: ty_def)
  then obtain new where new: "fold_panic (send_vote_request (mem_env E) ?c ?ct ty (rc_term r + 1) (rc_committed r) ct)
      (union_iter (joint_ids (voters_of r))) (r_msgs c) = Some (r_msgs c @ new)"
    "\<forall>i \<in> set (union_iter (joint_ids (voters_of r))) - {rc_id r}. \<exists>m \<in> set new. asks_vote ?c ty (rc_term r + 1) li lt i m"
    using vote_requests_asked [of "mem_env E" ?c li lt "rc_term r + 1" ty] li lt c(3, 4) by force
  have "campaign (mem_env E) r ?ct = Some (?c\<lparr>r_msgs := r_msgs c @ new\<rparr>)"
    using c(1, 3, 4, 6) poll new(1) ct by (subst campaign.simps) (simp add: commit_info_def)
  moreover have "\<exists>m \<in> set (r_msgs c @ new). asks_vote r ty (rc_term r + 1) li lt v m"
    if v: "joint_contains (voters_of r) v" "v \<noteq> rc_id r" for v
  proof -
    have "v \<in> set (union_iter (joint_ids (voters_of r))) - {rc_id r}"
      using v by (auto simp: joint_ids_def joint_contains_def)
    with new(2) obtain m where "m \<in> set new" "asks_vote ?c ty (rc_term r + 1) li lt v m" by blast
    then show ?thesis using c(4) by (auto simp: asks_vote_def)
  qed
  ultimately show ?thesis using c(2) by (simp add: campaigning_def)
qed

text \<open>
  The committed entries that are looked at before a campaign: those not applied, or those above a
  snapshot that waits to be applied.
\<close>

definition unapplied_from :: "mem_storage raft \<Rightarrow> u64" where
  "unapplied_from r = (if raft_snap r = None then rl_applied (rc_raft_log r) + 1 else mlog_first (rc_raft_log r))"

definition change_unapplied :: "mem_storage raft \<Rightarrow> bool" where
  "change_unapplied r \<longleftrightarrow> rl_applied (rc_raft_log r) < rc_committed r
     \<and> list_ex is_conf_change (log_range (rc_raft_log r) (unapplied_from r) (rc_committed r + 1))"

lemma hup_eq:
  assumes inv: "mlog_inv E (rc_raft_log r)" and st: "rc_state r = Follower" and ap: "rl_applied (rc_raft_log r) \<le> rc_committed r"
    and lo: "mlog_first (rc_raft_log r) \<le> unapplied_from r"
  shows "hup (mem_env E) r False =
     (if change_unapplied r then Some r
      else campaign (mem_env E) r (if rc_pre_vote r then CAMPAIGN_PRE_ELECTION else CAMPAIGN_ELECTION))"
proof -
  have b: "rc_committed r < mlog_first (rc_raft_log r) + length (mlog_ents (rc_raft_log r))"
    "mlog_first (rc_raft_log r) \<le> rc_committed r + 1" "rc_committed r + 1 \<le> U64_MAX"
    using inv mem.lbound [OF inv] by (simp_all add: log_inv_def)
  have "has_unapplied_conf_changes (mem_env E) r (unapplied_from r) (rc_committed r + 1) TransferLeader = Some (change_unapplied r, r)"
    unfolding change_unapplied_def
    by (rule has_unapplied_conf_changes_eq [OF inv]) (use lo ap b in \<open>auto simp: can_async_def unapplied_from_def\<close>)
  moreover have "(case map_option (\<lambda>_. un_offset (rl_unstable (rc_raft_log r))) (un_snapshot (rl_unstable (rc_raft_log r))) of
      Some i \<Rightarrow> Some i | None \<Rightarrow> u64_add (rl_applied (rc_raft_log r)) 1) = Some (unapplied_from r)"
    using ap b by (auto simp: unapplied_from_def raft_snap_def u64_add_def log_first_def split: option.split)
  ultimately show ?thesis
    using st b maybe_first_index_eq [OF mem.linv_unstable [OF inv]] by (simp add: hup_def u64_add_def)
qed

text \<open>
  (C8) A promotable follower that hears nothing starts an election in time, with or without a
  preliminary round. Until as many ticks have passed as its randomized timeout has left, nothing but
  the clock moves. At that tick it stays as it is, with the clock set back, if it has committed a
  membership change that it has not applied. Otherwise it campaigns: with pre-vote it becomes a
  pre-candidate that keeps its term and its vote, without it becomes a candidate of the next term
  that has voted for itself, and in both cases it has asked every other voter of both majorities for
  its vote in the next term, with the position of its last entry. Assumed are the invariant of the
  log, with the entries that are not applied and the terms of the last and the committed entry not
  compacted away, an applied index not above the commit index, a term, a timeout and bounds of the
  timeout in range, and that its own vote does not decide the election.
\<close>

theorem silent_follower_campaigns:
  assumes inv: "mlog_inv E (rc_raft_log r)" and st: "rc_state r = Follower" and pro: "rc_promotable r"
    and tm: "rc_election_elapsed r < rc_randomized_election_timeout r" "rc_randomized_election_timeout r \<le> U64_MAX"
    and mm: "rc_min_election_timeout r < rc_max_election_timeout r" and tt: "rc_term r < U64_MAX"
    and ap: "rl_applied (rc_raft_log r) \<le> rc_committed r" and lo: "mlog_first (rc_raft_log r) \<le> unapplied_from r"
    and li: "log_last_index (mem_env E) (rc_raft_log r) = Some li"
    and lt: "log_term (mem_env E) (rc_raft_log r) li = Some (Inr lt)"
    and ct: "log_term (mem_env E) (rc_raft_log r) (rc_committed r) = Some (Inr ct)"
    and others: "joint_vote_result (voters_of r) (yes_from {rc_id r}) = Pending"
  shows "(\<forall>n. rc_election_elapsed r + n < rc_randomized_election_timeout r \<longrightarrow>
      ticks (mem_env E) n r = Some (r\<lparr>rc_election_elapsed := rc_election_elapsed r + n\<rparr>))
    \<and> (\<exists>r'. ticks (mem_env E) (rc_randomized_election_timeout r - rc_election_elapsed r) r = Some r'
      \<and> (if change_unapplied r then r' = r\<lparr>rc_election_elapsed := 0\<rparr>
         else campaigning r (rc_pre_vote r) r'
           \<and> (\<forall>v. joint_contains (voters_of r) v \<longrightarrow> v \<noteq> rc_id r \<longrightarrow>
               (\<exists>m \<in> set (r_msgs r'). asks_vote r (if rc_pre_vote r then MsgRequestPreVote else MsgRequestVote)
                  (rc_term r + 1) li lt v m))))"
proof -
  have wait: "ticks (mem_env E) n r = Some (r\<lparr>rc_election_elapsed := rc_election_elapsed r + n\<rparr>)"
    if "rc_election_elapsed r + n < rc_randomized_election_timeout r" for n
    using ticks_wait [of r n "mem_env E" 0] st that tm(2) by simp
  define n where "n = rc_randomized_election_timeout r - rc_election_elapsed r - 1"
  let ?r = "r\<lparr>rc_election_elapsed := 0\<rparr>"
  have same: "unapplied_from ?r = unapplied_from r" "change_unapplied ?r = change_unapplied r"
    by (simp_all add: unapplied_from_def change_unapplied_def raft_snap_def)
  obtain c where c: "campaign (mem_env E) ?r (if rc_pre_vote r then CAMPAIGN_PRE_ELECTION else CAMPAIGN_ELECTION) = Some c"
    "campaigning r (rc_pre_vote r) c" "\<forall>v. joint_contains (voters_of r) v \<longrightarrow> v \<noteq> rc_id r \<longrightarrow>
      (\<exists>m \<in> set (r_msgs c). asks_vote r (if rc_pre_vote r then MsgRequestPreVote else MsgRequestVote) (rc_term r + 1) li lt v m)"
    using campaign_asks [of E ?r li lt ct "rc_pre_vote r"] inv mm tt st li lt ct others by (auto simp: asks_vote_def campaigning_def)
  have "hup (mem_env E) ?r False = Some (if change_unapplied r then ?r else c)"
    using hup_eq [of E ?r] inv st ap lo same c(1) by simp
  then have "tick (mem_env E) (r\<lparr>rc_election_elapsed := rc_election_elapsed r + n\<rparr>) = Some (True, if change_unapplied r then ?r else c)"
    using st pro tm by (simp add: tick_def tick_election_def pass_election_timeout_def n_def step_def step_term_def new_message_def
        default_message_def ok_step_def Let_def)
  then have "ticks (mem_env E) (n + 1) r = Some (if change_unapplied r then ?r else c)"
    using ticks_wait [of r n "mem_env E" 1] st tm by (simp add: n_def)
  moreover have "n + 1 = rc_randomized_election_timeout r - rc_election_elapsed r" using tm(1) by (simp add: n_def)
  ultimately have "ticks (mem_env E) (rc_randomized_election_timeout r - rc_election_elapsed r) r =
      Some (if change_unapplied r then ?r else c)"
    by (simp only:)
  with wait c(2,3) show ?thesis by (cases "change_unapplied r") simp_all
qed

definition sample_follower :: "mem_storage raft" where
  "sample_follower = (raft_init (config_new 1) sample_log 40)\<lparr>rc_term := 5, rc_promotable := True,
     rc_randomized_election_timeout := 20, r_prs := (tracker_new 256)\<lparr>tr_conf := configuration_new [1, 2, 3] []\<rparr>\<rparr>"

lemma silent_follower_campaigns_witness:
  "(\<exists>r'. ticks (mem_env sample_env) 20 sample_follower = Some r' \<and> rc_state r' = Candidate \<and> rc_term r' = 6
     \<and> (\<exists>m \<in> set (r_msgs r'). asks_vote sample_follower MsgRequestVote 6 0 0 2 m))
   \<and> (\<exists>r'. ticks (mem_env sample_env) 20 (sample_follower\<lparr>rc_pre_vote := True\<rparr>) = Some r' \<and> rc_state r' = PreCandidate
     \<and> rc_term r' = 5)"
proof -
  let ?r = sample_follower and ?q = "sample_follower\<lparr>rc_pre_vote := True\<rparr>"
  have r: "rc_raft_log ?r = sample_log" "rc_state ?r = Follower" "rc_promotable ?r" "\<not> rc_pre_vote ?r" "rc_term ?r = 5" "rc_id ?r = 1"
    "rc_election_elapsed ?r = 0" "rc_randomized_election_timeout ?r = 20" "rc_min_election_timeout ?r < rc_max_election_timeout ?r"
    "voters_of ?r = joint_new [1, 2, 3]" "rl_applied sample_log = 0" "rl_committed sample_log = 0"
    by (simp_all add: sample_follower_def raft_init_def config_new_def default_config_def min_election_tick_def
        configuration_new_def sample_log_def joint_new_def hset_collect_def hset_extend_def hset_insert_def)
  have l: "log_last_index (mem_env sample_env) sample_log = Some 0" "log_term (mem_env sample_env) sample_log 0 = Some (Inr 0)"
    by (simp_all add: sample_eval)
  have v: "joint_vote_result (joint_new [1, 2, 3]) (yes_from {1}) = Pending" "joint_contains (joint_new [1, 2, 3]) 2"
    by (simp_all add: joint_new_def hset_collect_def hset_extend_def hset_insert_def joint_vote_result_def majority_vote_result_def
        yes_from_def majority_def joint_contains_def)
  have u: "mlog_first sample_log = 1" "raft_snap ?r = None" "raft_snap ?q = None"
    using r(1) by (simp_all add: raft_snap_def log_first_def mem_first_def sample_eval)
  have c: "\<not> change_unapplied ?r" "\<not> change_unapplied ?q" using r by (simp_all add: change_unapplied_def)
  have "\<exists>r'. ticks (mem_env sample_env) 20 ?r = Some r' \<and> rc_state r' = Candidate \<and> rc_term r' = 6
     \<and> (\<exists>m \<in> set (r_msgs r'). asks_vote ?r MsgRequestVote 6 0 0 2 m)"
    using silent_follower_campaigns [of sample_env ?r 0 0 0] sample_log_inv r l v u c(1)
    by (fastforce simp: unapplied_from_def campaigning_def)
  moreover have "\<exists>r'. ticks (mem_env sample_env) 20 ?q = Some r' \<and> rc_state r' = PreCandidate \<and> rc_term r' = 5"
    using silent_follower_campaigns [of sample_env ?q 0 0 0] sample_log_inv r l v u c(2)
    by (fastforce simp: unapplied_from_def campaigning_def)
  ultimately show ?thesis ..
qed

section \<open>Construction\<close>

lemma raft_reset_fresh:
  "returns (raft_reset E r t) (\<lambda>r'. rc_min_election_timeout r' = rc_min_election_timeout r
     \<and> rc_max_election_timeout r' = rc_max_election_timeout r
     \<and> rc_min_election_timeout r \<le> rc_randomized_election_timeout r'
     \<and> rc_randomized_election_timeout r' < rc_max_election_timeout r
     \<and> rc_election_elapsed r' = 0 \<and> rc_promotable r' = rc_promotable r \<and> tr_conf (r_prs r') = tr_conf (r_prs r)
     \<and> rc_raft_log r' = rc_raft_log r)"
proof -
  have draw: "returns (gen_range E n lo hi) (\<lambda>t. lo \<le> t \<and> t < hi)" for n lo hi
    using mod_less_divisor [of "hi - lo" "rng_draw E n"] by (auto simp: returns_def gen_range_def simp del: mod_less_divisor)
  show ?thesis
    unfolding raft_reset_def reset_randomized_election_timeout_def abort_leader_transfer_def tracker_reset_votes_def
    by (intro returns_rules draw [THEN returns_mono] returnsI [of "log_last_index E l" for E l]
        returnsI [of "reset_progress i j k c prs" for i j k c prs]) auto
qed

text \<open>The steps of the construction on a node that is not a leader.\<close>

lemma post_conf_change_follower:
  "rc_state r = Follower \<Longrightarrow> post_conf_change E r =
     Some (to_conf_state (tr_conf (r_prs r)), r\<lparr>rc_promotable := joint_contains (voters_of r) (rc_id r)\<rparr>)"
  by (simp add: post_conf_change_def Let_def)

lemma commit_apply_follower:
  "rc_state r = Follower \<Longrightarrow> returns (commit_apply_internal E r n True)
     (\<lambda>r'. \<exists>l. r' = r\<lparr>rc_raft_log := l\<rparr> \<and> rl_committed l = rc_committed r \<and> rl_applied l = n)"
  by (auto simp: returns_def commit_apply_internal_def applied_to_unchecked_def Let_def bind_eq_Some_conv split: if_splits)

lemma load_state_returns:
  "returns (load_state E r hs) (\<lambda>r'. \<exists>l. r' = r\<lparr>rc_raft_log := l, rc_term := hs_term hs, rc_vote := hs_vote hs\<rparr>
     \<and> rl_committed l = hs_commit hs \<and> rl_applied l = rl_applied (rc_raft_log r))"
  by (auto simp: returns_def load_state_def bind_eq_Some_conv)

lemma become_follower_fresh:
  "returns (become_follower E r t i) (\<lambda>r'. rc_state r' = Follower \<and> rc_leader_id r' = i \<and> reset_from r t r'
     \<and> rc_min_election_timeout r \<le> rc_randomized_election_timeout r'
     \<and> rc_randomized_election_timeout r' < rc_max_election_timeout r
     \<and> rc_election_elapsed r' = 0 \<and> rc_promotable r' = rc_promotable r \<and> tr_conf (r_prs r') = tr_conf (r_prs r)
     \<and> rl_applied (rc_raft_log r') = rl_applied (rc_raft_log r)
     \<and> rl_max_apply_unpersisted_log_limit (rc_raft_log r') = 0)"
  unfolding become_follower_def set_max_apply_unpersisted_log_limit_def
  by (intro returns_rules returns_conj [OF raft_reset_returns raft_reset_fresh, THEN returns_mono]) (auto simp: reset_from_def)

definition new_node :: "config \<Rightarrow> raft_state \<Rightarrow> 's raft \<Rightarrow> bool" where
  "new_node c s r \<longleftrightarrow>
     rc_id r = cf_id c \<and> rc_state r = Follower \<and> rc_leader_id r = INVALID_ID \<and> r_msgs r = [] \<and> votes_of r = []
     \<and> rc_term r = hs_term (rs_hard_state s) \<and> rc_vote r = hs_vote (rs_hard_state s)
     \<and> (rs_hard_state s \<noteq> default_hard_state \<longrightarrow> rc_committed r = hs_commit (rs_hard_state s))
     \<and> (0 < cf_applied c \<longrightarrow> rl_applied (rc_raft_log r) = cf_applied c)
     \<and> rl_max_apply_unpersisted_log_limit (rc_raft_log r) = 0
     \<and> rc_election_elapsed r = 0 \<and> min_election_tick c \<le> rc_randomized_election_timeout r
     \<and> (\<exists>t. max_election_tick c = Some t \<and> rc_randomized_election_timeout r < t)
     \<and> conf_state_eq (to_conf_state (tr_conf (r_prs r))) (rs_conf_state s)
     \<and> rc_promotable r = joint_contains (voters_of r) (rc_id r)"

text \<open>The node between the membership, the hard state and the applied index being restored.\<close>

definition loading :: "config \<Rightarrow> raft_state \<Rightarrow> 's raft \<Rightarrow> bool" where
  "loading c s r \<longleftrightarrow> rc_id r = cf_id c \<and> rc_state r = Follower \<and> r_msgs r = []
     \<and> rc_min_election_timeout r = min_election_tick c \<and> max_election_tick c = Some (rc_max_election_timeout r)
     \<and> conf_state_eq (to_conf_state (tr_conf (r_prs r))) (rs_conf_state s)
     \<and> rc_promotable r = joint_contains (voters_of r) (rc_id r)"

definition loaded :: "raft_state \<Rightarrow> 's raft \<Rightarrow> bool" where
  "loaded s r \<longleftrightarrow> rc_term r = hs_term (rs_hard_state s) \<and> rc_vote r = hs_vote (rs_hard_state s)
     \<and> (rs_hard_state s \<noteq> default_hard_state \<longrightarrow> rc_committed r = hs_commit (rs_hard_state s))"

lemma load_hard_state:
  assumes "loading c s r" and "rc_term r = 0" and "rc_vote r = 0"
  shows "returns (if rs_hard_state s \<noteq> default_hard_state then load_state E r (rs_hard_state s) else Some r)
     (\<lambda>r'. loading c s r' \<and> loaded s r')"
  using assms
  by (intro returns_rules load_state_returns [THEN returns_mono]) (auto simp: loading_def loaded_def default_hard_state_def)

lemma load_applied:
  assumes "loading c s r" and "loaded s r"
  shows "returns (if 0 < cf_applied c then commit_apply_internal E r (cf_applied c) True else Some r)
     (\<lambda>r'. loading c s r' \<and> loaded s r' \<and> (0 < cf_applied c \<longrightarrow> rl_applied (rc_raft_log r') = cf_applied c))"
  using assms
  by (intro returns_rules commit_apply_follower [THEN returns_mono]) (auto simp: loading_def loaded_def)

lemma start_as_follower:
  assumes "loading c s r" and "loaded s r" and "0 < cf_applied c \<longrightarrow> rl_applied (rc_raft_log r) = cf_applied c"
  shows "returns (become_follower E r (rc_term r) INVALID_ID) (new_node c s)"
  using assms
  by (intro become_follower_fresh [THEN returns_mono]) (auto simp: new_node_def loading_def loaded_def reset_from_def)

lemma raft_new_returns:
  assumes s: "st_initial_state E store = Inr s"
  shows "returns (raft_new E c store) (\<lambda>res. \<forall>r. res = Inr r \<longrightarrow> validate c = Some (Inr ()) \<and> new_node c s r)"
proof -
  have post: "returns (post_conf_change E ((raft_init c l mt)\<lparr>r_prs := t\<rparr>)) (\<lambda>(cs, r). rc_term r = 0 \<and> rc_vote r = 0
      \<and> (conf_state_eq cs (rs_conf_state s) \<longrightarrow> loading c s r))" if "max_election_tick c = Some mt" for l mt t
    using that by (simp add: post_conf_change_follower raft_init_def returns_def loading_def)
  show ?thesis
    unfolding raft_new_def s sum.case
    by (intro returns_rules returnsI [of "validate c"] returnsI [of "raft_log_new E store c"] returnsI [of "max_election_tick c"]
        returnsI [of "log_last_index E l" for l] post [THEN returns_mono]
        load_hard_state [THEN returns_mono] load_applied [THEN returns_mono] start_as_follower [THEN returns_mono]) auto
qed

text \<open>
  (C16) The type of a new node: a configuration that does not validate and a storage that cannot read
  its initial state give their error. A node that is returned is a follower without a leader and
  without messages, has the term, vote and commit index of the stored hard state, a randomized timeout within
  the configured bounds, a membership equal to the stored one up to order, and may campaign exactly
  when it is a voter. Its limit on applying entries that are not persisted is 0, whatever the
  configuration says.
\<close>

theorem raft_new_type:
  "(validate c = Some (Inl e) \<longrightarrow> raft_new E c store = Some (Inl e))
   \<and> (validate c = Some (Inr ()) \<longrightarrow> st_initial_state E store = Inl e \<longrightarrow> raft_new E c store = Some (Inl e))
   \<and> (st_initial_state E store = Inr s \<longrightarrow> raft_new E c store = Some (Inr r) \<longrightarrow>
        validate c = Some (Inr ()) \<and> new_node c s r)"
proof -
  have "validate c = Some (Inr ()) \<and> new_node c s r"
    if "st_initial_state E store = Inr s" "raft_new E c store = Some (Inr r)"
    using returnsD [OF raft_new_returns [OF that(1)] that(2)] by simp
  then show ?thesis by (auto simp: raft_new_def)
qed

text \<open>A store with one voter, whose node has voted for itself in term 3.\<close>

definition sample_store :: mem_storage where
  "sample_store = mem_new\<lparr>ms_raft_state := \<lparr>rs_hard_state = \<lparr>hs_term = 3, hs_vote = 1, hs_commit = 0\<rparr>,
     rs_conf_state = default_conf_state\<lparr>cs_voters := [1]\<rparr>\<rparr>\<rparr>"

lemmas sample_restore_eval = restore_conf_def to_conf_change_single_def default_conf_state_def new_conf_change_single_def
  simple_def tracker_new_def configuration_empty_def check_and_copy_def check_invariants_def check_voter_def
  check_learner_def check_learner_next_def apply_changes_def apply_one_def make_voter_def init_progress_def
  icm_contains_def icm_push_def set_incoming_def symmetric_difference_count_def apply_conf_def to_conf_state_def
  joint_def hset_insert_def hset_remove_def union_iter_def joint_ids_def

lemma sample_restore:
  "\<exists>t. restore_conf (tracker_new 256) 0 (default_conf_state\<lparr>cs_voters := [1]\<rparr>) = (t, Inr ())
     \<and> to_conf_state (tr_conf t) = default_conf_state\<lparr>cs_voters := [1]\<rparr>"
  by (simp add: sample_restore_eval Let_def)

lemma sample_new: "\<exists>r. raft_new (mem_env sample_env) (config_new 1) sample_store = Some (Inr r)"
proof -
  let ?cs = "default_conf_state\<lparr>cs_voters := [1]\<rparr>"
  obtain t where t: "restore_conf (tracker_new 256) 0 ?cs = (t, Inr ())" "to_conf_state (tr_conf t) = ?cs"
    using sample_restore by blast
  have eq: "conf_state_eq ?cs ?cs" by (simp add: conf_state_eq_def eq_without_order_def)
  show ?thesis
    using t eq
    by (simp add: raft_new_def sample_store_def validate_def config_new_def default_config_def min_election_tick_def
        max_election_tick_def NO_LIMIT_def raft_log_new_def post_conf_change_follower raft_init_def load_state_def
        become_follower_def raft_reset_def reset_randomized_election_timeout_def gen_range_def abort_leader_transfer_def
        tracker_reset_votes_def reset_progress_def set_max_apply_unpersisted_log_limit_def sample_eval sample_env_def unwrap_def Let_def)
qed

lemma raft_new_type_witness:
  "\<exists>r. raft_new (mem_env sample_env) (config_new 1) sample_store = Some (Inr r) \<and> rc_state r = Follower \<and> rc_term r = 3"
proof -
  obtain r where r: "raft_new (mem_env sample_env) (config_new 1) sample_store = Some (Inr r)" using sample_new by blast
  have "st_initial_state (mem_env sample_env) sample_store = Inr (ms_raft_state sample_store)" by (simp add: mem_env_def)
  with raft_new_type [of "config_new 1" _ "mem_env sample_env" sample_store "ms_raft_state sample_store" r] r
  show ?thesis by (auto simp: new_node_def sample_store_def)
qed

end
