(* ===== verification/Raw_Node.thy ===== *)
theory Raw_Node
  imports Raft_Step
begin

text \<open>
  \<open>src/raw_node.rs\<close> and \<open>src/status.rs\<close>: the interface an application drives. A \<open>Ready\<close> is what has
  to be persisted, sent and applied; the records remember which of them are still being persisted.
\<close>

section \<open>Types\<close>

datatype snapshot_status = SnapshotFinish | SnapshotFailure

definition is_local_msg :: "message_type \<Rightarrow> bool" where
  "is_local_msg t \<longleftrightarrow> t \<in> {MsgHup, MsgBeat, MsgUnreachable, MsgSnapStatus, MsgCheckQuorum}"

definition is_response_msg :: "message_type \<Rightarrow> bool" where
  "is_response_msg t \<longleftrightarrow>
     t \<in> {MsgAppendResponse, MsgRequestVoteResponse, MsgHeartbeatResponse, MsgUnreachable, MsgRequestPreVoteResponse}"

record light_ready =
  lr_commit_index :: "u64 option"
  lr_committed_entries :: "entry list"
  lr_messages :: "message list"

record ready =
  rd_number :: u64
  rd_ss :: "soft_state option"
  rd_hs :: "hard_state option"
  rd_read_states :: "read_state list"
  rd_entries :: "entry list"
  rd_snapshot :: snapshot
  rd_is_persisted_msg :: bool
  rd_light :: light_ready
  rd_must_sync :: bool

definition ready_messages :: "ready \<Rightarrow> message list" where
  "ready_messages rd = (if \<not> rd_is_persisted_msg rd then lr_messages (rd_light rd) else [])"

definition ready_persisted_messages :: "ready \<Rightarrow> message list" where
  "ready_persisted_messages rd = (if rd_is_persisted_msg rd then lr_messages (rd_light rd) else [])"

definition ready_take_read_states :: "ready \<Rightarrow> read_state list \<times> ready" where
  "ready_take_read_states rd = (rd_read_states rd, rd\<lparr>rd_read_states := []\<rparr>)"

definition ready_take_entries :: "ready \<Rightarrow> entry list \<times> ready" where
  "ready_take_entries rd = (rd_entries rd, rd\<lparr>rd_entries := []\<rparr>)"

definition light_take_committed_entries :: "light_ready \<Rightarrow> entry list \<times> light_ready" where
  "light_take_committed_entries lr = (lr_committed_entries lr, lr\<lparr>lr_committed_entries := []\<rparr>)"

definition light_take_messages :: "light_ready \<Rightarrow> message list \<times> light_ready" where
  "light_take_messages lr = (lr_messages lr, lr\<lparr>lr_messages := []\<rparr>)"

definition ready_take_committed_entries :: "ready \<Rightarrow> entry list \<times> ready" where
  "ready_take_committed_entries rd =
     (let (es, lr) = light_take_committed_entries (rd_light rd) in (es, rd\<lparr>rd_light := lr\<rparr>))"

definition ready_take_messages :: "ready \<Rightarrow> message list \<times> ready" where
  "ready_take_messages rd =
     (if \<not> rd_is_persisted_msg rd
      then (let (ms, lr) = light_take_messages (rd_light rd) in (ms, rd\<lparr>rd_light := lr\<rparr>)) else ([], rd))"

definition ready_take_persisted_messages :: "ready \<Rightarrow> message list \<times> ready" where
  "ready_take_persisted_messages rd =
     (if rd_is_persisted_msg rd
      then (let (ms, lr) = light_take_messages (rd_light rd) in (ms, rd\<lparr>rd_light := lr\<rparr>)) else ([], rd))"

record ready_record =
  rr_number :: u64
  rr_last_entry :: "(u64 \<times> u64) option"
  rr_snapshot :: "(u64 \<times> u64) option"

record 's raw_node =
  rn_raft :: "'s raft"
  rn_prev_ss :: soft_state
  rn_prev_hs :: hard_state
  rn_max_number :: u64
  rn_records :: "ready_record list"
  rn_commit_since_index :: u64

section \<open>Driving the node\<close>

definition raw_node_new :: "'s env \<Rightarrow> config \<Rightarrow> 's \<Rightarrow> 's raw_node result option" where
  "raw_node_new E c store =
     do {
       rust_assert (cf_id c \<noteq> 0);
       res \<leftarrow> raft_new E c store;
       Some (case res of
          Inl e \<Rightarrow> Inl e
        | Inr r \<Rightarrow>
            Inr \<lparr>rn_raft = r, rn_prev_ss = raft_soft_state r, rn_prev_hs = raft_hard_state r, rn_max_number = 0,
                 rn_records = [], rn_commit_since_index = cf_applied c\<rparr>)
     }"

definition with_raft :: "'s raw_node \<Rightarrow> ('a \<times> 's raft) option \<Rightarrow> ('a \<times> 's raw_node) option" where
  "with_raft rn m = do { (res, r) \<leftarrow> m; Some (res, rn\<lparr>rn_raft := r\<rparr>) }"

definition with_raft_only :: "'s raw_node \<Rightarrow> 's raft option \<Rightarrow> 's raw_node option" where
  "with_raft_only rn m = do { r \<leftarrow> m; Some (rn\<lparr>rn_raft := r\<rparr>) }"

definition raw_set_priority :: "'s raw_node \<Rightarrow> i64 \<Rightarrow> 's raw_node" where
  "raw_set_priority rn p = rn\<lparr>rn_raft := set_priority (rn_raft rn) p\<rparr>"

definition raw_tick :: "'s env \<Rightarrow> 's raw_node \<Rightarrow> (bool \<times> 's raw_node) option" where
  "raw_tick E rn = with_raft rn (tick E (rn_raft rn))"

definition raw_campaign :: "'s env \<Rightarrow> 's raw_node \<Rightarrow> (unit result \<times> 's raw_node) option" where
  "raw_campaign E rn = with_raft rn (step E (rn_raft rn) (default_message\<lparr>m_type := MsgHup\<rparr>))"

definition raw_propose :: "'s env \<Rightarrow> 's raw_node \<Rightarrow> bytes \<Rightarrow> bytes \<Rightarrow> (unit result \<times> 's raw_node) option" where
  "raw_propose E rn context data =
     with_raft rn (step E (rn_raft rn)
       (default_message\<lparr>m_type := MsgPropose, m_from := rc_id (rn_raft rn),
          m_entries := [default_entry\<lparr>e_data := data, e_context := context\<rparr>]\<rparr>))"

definition raw_ping :: "'s raw_node \<Rightarrow> 's raw_node option" where
  "raw_ping rn = with_raft_only rn (ping (rn_raft rn))"

text \<open>The two implementations of \<open>ConfChangeI\<close>.\<close>

datatype conf_change_input = ConfChangeV1 conf_change | ConfChangeV2 conf_change_v2

definition conf_change_as_v2 :: "conf_change_input \<Rightarrow> conf_change_v2" where
  "conf_change_as_v2 cc = (case cc of ConfChangeV1 c \<Rightarrow> conf_change_into_v2 c | ConfChangeV2 c \<Rightarrow> c)"

definition raw_propose_conf_change ::
  "'s env \<Rightarrow> 's raw_node \<Rightarrow> bytes \<Rightarrow> conf_change_input \<Rightarrow> (unit result \<times> 's raw_node) option" where
  "raw_propose_conf_change E rn context cc =
     (case (case cc of
              ConfChangeV1 c \<Rightarrow> (pb_write_conf_change E c, EntryConfChange)
            | ConfChangeV2 c \<Rightarrow> (pb_write_conf_change_v2 E c, EntryConfChangeV2)) of
        (Inl err, _) \<Rightarrow> Some (Inl (CodecError err), rn)
      | (Inr data, ty) \<Rightarrow>
          with_raft rn (step E (rn_raft rn)
            (default_message\<lparr>m_type := MsgPropose,
               m_entries := [default_entry\<lparr>e_type := ty, e_data := data, e_context := context\<rparr>]\<rparr>)))"

definition raw_apply_conf_change ::
  "'s env \<Rightarrow> 's raw_node \<Rightarrow> conf_change_input \<Rightarrow> (conf_state result \<times> 's raw_node) option" where
  "raw_apply_conf_change E rn cc = with_raft rn (apply_conf_change E (rn_raft rn) (conf_change_as_v2 cc))"

definition raw_step :: "'s env \<Rightarrow> 's raw_node \<Rightarrow> message \<Rightarrow> (unit result \<times> 's raw_node) option" where
  "raw_step E rn m =
     (if is_local_msg (m_type m) then Some (Inl StepLocalMsg, rn)
      else if tracker_get (r_prs (rn_raft rn)) (m_from m) \<noteq> None \<or> \<not> is_response_msg (m_type m)
      then with_raft rn (step E (rn_raft rn) m)
      else Some (Inl StepPeerNotFound, rn))"

definition on_entries_fetched :: "'s env \<Rightarrow> 's raw_node \<Rightarrow> get_entries_for \<Rightarrow> 's raw_node option" where
  "on_entries_fetched E rn context =
     (case context of
        SendAppend to term aggressively \<Rightarrow>
          if rc_term (rn_raft rn) \<noteq> term \<or> rc_state (rn_raft rn) \<noteq> Leader then Some rn
          else if tracker_get (r_prs (rn_raft rn)) to = None then Some rn
          else if aggressively then with_raft_only rn (raft_send_append_aggressively E (rn_raft rn) to)
          else with_raft_only rn (raft_send_append E (rn_raft rn) to)
      | Empty b \<Rightarrow> if b then Some rn else None
      | _ \<Rightarrow> None)"

section \<open>Ready\<close>

definition gen_light_ready :: "'s env \<Rightarrow> 's raw_node \<Rightarrow> (light_ready \<times> 's raw_node) option" where
  "gen_light_ready E rn =
     do {
       let r = rn_raft rn;
       (es, l) \<leftarrow> next_entries_since E (rc_raft_log r) (rn_commit_since_index rn)
                    (Some (rc_max_committed_size_per_ready r));
       let committed_entries = (case es of None \<Rightarrow> [] | Some es \<Rightarrow> es);
       r \<leftarrow> reduce_uncommitted_size (r\<lparr>rc_raft_log := l\<rparr>) committed_entries;
       since \<leftarrow>
         (if committed_entries = [] then Some (rn_commit_since_index rn)
          else do {
            rust_assert (rn_commit_since_index rn < e_index (last committed_entries));
            Some (e_index (last committed_entries))
          });
       Some (\<lparr>lr_commit_index = None, lr_committed_entries = committed_entries, lr_messages = r_msgs r\<rparr>,
             rn\<lparr>rn_raft := r\<lparr>r_msgs := []\<rparr>, rn_commit_since_index := since\<rparr>)
     }"

text \<open>The records that a new \<open>Ready\<close> keeps: a node that has just become leader drops them.\<close>

definition ready_records :: "'s raw_node \<Rightarrow> ready_record list option" where
  "ready_records rn =
     (if ss_raft_state (rn_prev_ss rn) \<noteq> Leader \<and> rc_state (rn_raft rn) = Leader then do {
        rust_assert (list_all (\<lambda>rec. rr_last_entry rec = None \<and> rr_snapshot rec = None) (rn_records rn));
        Some []
      } else Some (rn_records rn))"

text \<open>The part of \<open>ready\<close> that a pending snapshot contributes: the snapshot, the record and the position.\<close>

definition ready_pending_snapshot ::
  "'s env \<Rightarrow> 's raw_node \<Rightarrow> (snapshot \<times> (u64 \<times> u64) option \<times> u64) option" where
  "ready_pending_snapshot E rn =
     (case un_snapshot (rl_unstable (rc_raft_log (rn_raft rn))) of
        None \<Rightarrow> Some (default_snapshot, None, rn_commit_since_index rn)
      | Some snap \<Rightarrow> do {
          rust_assert (rn_commit_since_index rn \<le> snap_index snap);
          has \<leftarrow> has_next_entries_since E (rc_raft_log (rn_raft rn)) (snap_index snap);
          rust_assert (\<not> has);
          Some (snap, Some (snap_index snap, snap_term snap), snap_index snap)
        })"

definition raw_ready :: "'s env \<Rightarrow> 's raw_node \<Rightarrow> (ready \<times> 's raw_node) option" where
  "raw_ready E rn =
     do {
       number \<leftarrow> u64_add (rn_max_number rn) 1;
       records \<leftarrow> ready_records rn;
       let rn = rn\<lparr>rn_max_number := number, rn_records := records\<rparr>;
       let ss = raft_soft_state (rn_raft rn);
       let hs = raft_hard_state (rn_raft rn);
       let read_states = rc_read_states (rn_raft rn);
       let rn = rn\<lparr>rn_raft := (rn_raft rn)\<lparr>rc_read_states := []\<rparr>\<rparr>;
       (snap, snap_record, since) \<leftarrow> ready_pending_snapshot E rn;
       let rn = rn\<lparr>rn_commit_since_index := since\<rparr>;
       let entries = un_entries (rl_unstable (rc_raft_log (rn_raft rn)));
       let last_entry = (if entries = [] then None else Some (e_index (last entries), e_term (last entries)));
       let must_sync = ((hs_vote hs \<noteq> hs_vote (rn_prev_hs rn) \<or> hs_term hs \<noteq> hs_term (rn_prev_hs rn))
                        \<or> snap_record \<noteq> None \<or> entries \<noteq> []);
       let persisted = (rc_state (rn_raft rn) \<noteq> Leader);
       (light, rn) \<leftarrow> gen_light_ready E rn;
       Some (\<lparr>rd_number = number, rd_ss = (if ss \<noteq> rn_prev_ss rn then Some ss else None),
              rd_hs = (if hs \<noteq> rn_prev_hs rn then Some hs else None), rd_read_states = read_states,
              rd_entries = entries, rd_snapshot = snap, rd_is_persisted_msg = persisted, rd_light = light,
              rd_must_sync = must_sync\<rparr>,
             rn\<lparr>rn_records := rn_records rn @
                 [\<lparr>rr_number = number, rr_last_entry = last_entry, rr_snapshot = snap_record\<rparr>]\<rparr>)
     }"

definition has_ready :: "'s env \<Rightarrow> 's raw_node \<Rightarrow> bool option" where
  "has_ready E rn =
     (let r = rn_raft rn
      in if r_msgs r \<noteq> [] then Some True
         else if raft_soft_state r \<noteq> rn_prev_ss rn then Some True
         else if raft_hard_state r \<noteq> rn_prev_hs rn then Some True
         else if rc_read_states r \<noteq> [] then Some True
         else if un_entries (rl_unstable (rc_raft_log r)) \<noteq> [] then Some True
         else if (case raft_snap r of None \<Rightarrow> False | Some s \<Rightarrow> \<not> snapshot_is_empty s) then Some True
         else has_next_entries_since E (rc_raft_log r) (rn_commit_since_index rn))"

definition commit_ready :: "'s raw_node \<Rightarrow> ready \<Rightarrow> 's raw_node option" where
  "commit_ready rn rd =
     do {
       let rn = (case rd_ss rd of None \<Rightarrow> rn | Some ss \<Rightarrow> rn\<lparr>rn_prev_ss := ss\<rparr>);
       let rn = (case rd_hs rd of None \<Rightarrow> rn | Some hs \<Rightarrow> rn\<lparr>rn_prev_hs := hs\<rparr>);
       rec \<leftarrow> vec_last (rn_records rn);
       rust_assert (rr_number rec = rd_number rd);
       let l = rc_raft_log (rn_raft rn);
       l \<leftarrow> (case rr_snapshot rec of None \<Rightarrow> Some l | Some (index, _) \<Rightarrow> log_stable_snap l index);
       l \<leftarrow> (case rr_last_entry rec of None \<Rightarrow> Some l | Some (index, term) \<Rightarrow> log_stable_entries l index term);
       Some (rn\<lparr>rn_raft := (rn_raft rn)\<lparr>rc_raft_log := l\<rparr>\<rparr>)
     }"

definition raw_commit_apply :: "'s env \<Rightarrow> 's raw_node \<Rightarrow> u64 \<Rightarrow> 's raw_node option" where
  "raw_commit_apply E rn applied = with_raft_only rn (commit_apply E (rn_raft rn) applied)"

text \<open>The loop over the records that are persisted: the last snapshot and the last entry after it.\<close>

fun pop_records :: "u64 \<Rightarrow> ready_record list \<Rightarrow> u64 \<times> u64 \<times> u64 \<Rightarrow> ready_record list \<times> u64 \<times> u64 \<times> u64" where
  "pop_records number [] acc = ([], acc)"
| "pop_records number (rec # recs) (index, term, snapi) =
     (if rr_number rec > number then (rec # recs, index, term, snapi)
      else
        (let (index, term, snapi) =
               (case rr_snapshot rec of None \<Rightarrow> (index, term, snapi) | Some (i, _) \<Rightarrow> (0, 0, i));
             (index, term) = (case rr_last_entry rec of None \<Rightarrow> (index, term) | Some (i, t) \<Rightarrow> (i, t))
         in pop_records number recs (index, term, snapi)))"

definition on_persist_ready :: "'s env \<Rightarrow> 's raw_node \<Rightarrow> u64 \<Rightarrow> 's raw_node option" where
  "on_persist_ready E rn number =
     do {
       let (recs, index, term, snapi) = pop_records number (rn_records rn) (0, 0, 0);
       let rn = rn\<lparr>rn_records := recs\<rparr>;
       rn \<leftarrow> (if snapi \<noteq> 0 then with_raft_only rn (on_persist_snap (rn_raft rn) snapi) else Some rn);
       if index \<noteq> 0 then with_raft_only rn (on_persist_entries E (rn_raft rn) index term) else Some rn
     }"

definition advance_append :: "'s env \<Rightarrow> 's raw_node \<Rightarrow> ready \<Rightarrow> (light_ready \<times> 's raw_node) option" where
  "advance_append E rn rd =
     do {
       rn \<leftarrow> commit_ready rn rd;
       rn \<leftarrow> on_persist_ready E rn (rn_max_number rn);
       (light, rn) \<leftarrow> gen_light_ready E rn;
       rust_assert (\<not> (rc_state (rn_raft rn) \<noteq> Leader \<and> lr_messages light \<noteq> []));
       let hs = raft_hard_state (rn_raft rn);
       (light, rn) \<leftarrow>
         (if hs_commit hs > hs_commit (rn_prev_hs rn)
          then Some (light\<lparr>lr_commit_index := Some (hs_commit hs)\<rparr>,
                     rn\<lparr>rn_prev_hs := (rn_prev_hs rn)\<lparr>hs_commit := hs_commit hs\<rparr>\<rparr>)
          else do {
            rust_assert (hs_commit hs = hs_commit (rn_prev_hs rn));
            Some (light\<lparr>lr_commit_index := None\<rparr>, rn)
          });
       rust_assert (hs = rn_prev_hs rn);
       Some (light, rn)
     }"

definition advance_append_async :: "'s raw_node \<Rightarrow> ready \<Rightarrow> 's raw_node option" where
  "advance_append_async rn rd = commit_ready rn rd"

definition advance_apply_to :: "'s env \<Rightarrow> 's raw_node \<Rightarrow> u64 \<Rightarrow> 's raw_node option" where
  "advance_apply_to E rn applied = raw_commit_apply E rn applied"

definition advance_apply :: "'s env \<Rightarrow> 's raw_node \<Rightarrow> 's raw_node option" where
  "advance_apply E rn = raw_commit_apply E rn (rn_commit_since_index rn)"

definition raw_advance :: "'s env \<Rightarrow> 's raw_node \<Rightarrow> ready \<Rightarrow> (light_ready \<times> 's raw_node) option" where
  "raw_advance E rn rd =
     do {
       let applied = rn_commit_since_index rn;
       (light, rn) \<leftarrow> advance_append E rn rd;
       rn \<leftarrow> advance_apply_to E rn applied;
       Some (light, rn)
     }"

section \<open>Reports and requests\<close>

definition raw_snap :: "'s raw_node \<Rightarrow> snapshot option" where
  "raw_snap rn = raft_snap (rn_raft rn)"

definition ignore_result :: "('a \<times> 's raw_node) option \<Rightarrow> 's raw_node option" where
  "ignore_result m = map_option snd m"

definition report_unreachable :: "'s env \<Rightarrow> 's raw_node \<Rightarrow> u64 \<Rightarrow> 's raw_node option" where
  "report_unreachable E rn i =
     ignore_result (with_raft rn (step E (rn_raft rn) (default_message\<lparr>m_type := MsgUnreachable, m_from := i\<rparr>)))"

definition report_snapshot :: "'s env \<Rightarrow> 's raw_node \<Rightarrow> u64 \<Rightarrow> snapshot_status \<Rightarrow> 's raw_node option" where
  "report_snapshot E rn i status =
     ignore_result (with_raft rn (step E (rn_raft rn)
       (default_message\<lparr>m_type := MsgSnapStatus, m_from := i, m_reject := (status = SnapshotFailure)\<rparr>)))"

definition raw_request_snapshot :: "'s env \<Rightarrow> 's raw_node \<Rightarrow> (unit result \<times> 's raw_node) option" where
  "raw_request_snapshot E rn = with_raft rn (request_snapshot E (rn_raft rn))"

definition transfer_leader :: "'s env \<Rightarrow> 's raw_node \<Rightarrow> u64 \<Rightarrow> 's raw_node option" where
  "transfer_leader E rn transferee =
     ignore_result (with_raft rn (step E (rn_raft rn) (default_message\<lparr>m_type := MsgTransferLeader, m_from := transferee\<rparr>)))"

definition read_index :: "'s env \<Rightarrow> 's raw_node \<Rightarrow> bytes \<Rightarrow> 's raw_node option" where
  "read_index E rn rctx =
     ignore_result (with_raft rn (step E (rn_raft rn)
       (default_message\<lparr>m_type := MsgReadIndex, m_entries := [default_entry\<lparr>e_data := rctx\<rparr>]\<rparr>)))"

definition raw_skip_bcast_commit :: "'s raw_node \<Rightarrow> bool \<Rightarrow> 's raw_node" where
  "raw_skip_bcast_commit rn skip = rn\<lparr>rn_raft := set_skip_bcast_commit (rn_raft rn) skip\<rparr>"

definition raw_set_batch_append :: "'s raw_node \<Rightarrow> bool \<Rightarrow> 's raw_node" where
  "raw_set_batch_append rn b = rn\<lparr>rn_raft := set_batch_append (rn_raft rn) b\<rparr>"

text \<open>\<open>status.rs\<close>.\<close>

record status =
  stt_id :: u64
  stt_hs :: hard_state
  stt_ss :: soft_state
  stt_applied :: u64
  stt_progress :: "progress_tracker option"

definition status_new :: "'s raft \<Rightarrow> status" where
  "status_new r =
     \<lparr>stt_id = rc_id r, stt_hs = raft_hard_state r, stt_ss = raft_soft_state r,
      stt_applied = rl_applied (rc_raft_log r),
      stt_progress = (if rc_state r = Leader then Some (r_prs r) else None)\<rparr>"

definition raw_status :: "'s raw_node \<Rightarrow> status" where
  "raw_status rn = status_new (rn_raft rn)"

end
