(* ===== verification/Ready_Spec.thy ===== *)
theory Ready_Spec
  imports Raw_Node Raft_Spec
begin

text \<open>
  What the application may rely on between \<open>ready\<close> and \<open>advance\<close> (\<open>src/raw_node.rs\<close>): every committed
  entry is handed out once and in order, a \<open>Ready\<close> is offered exactly when there is something in it,
  and what was accepted is not offered again.
\<close>

section \<open>The committed entries of a light ready\<close>

lemma reduce_uncommitted_size_raft:
  "returns (reduce_uncommitted_size r es) (\<lambda>r'. \<exists>u. r' = r\<lparr>rc_uncommitted_state := u\<rparr>)"
  unfolding reduce_uncommitted_size_def
  by (intro returns_rules returnsI [of "maybe_reduce_uncommitted_size u es" for u es])
    (auto intro: exI [of _ "rc_uncommitted_state r"])

lemma next_entries_since_bounds:
  assumes "next_entries_since E l since sz = Some x"
  shows "since < U64_MAX" "rl_persisted l + rl_max_apply_unpersisted_log_limit l \<le> U64_MAX"
  using assms by (auto simp: next_entries_since_def applied_index_upper_bound_def bind_eq_Some_conv split: if_splits)

lemma gen_light_ready_parts:
  assumes "gen_light_ready E rn = Some (light, rn')"
  shows "\<exists>x l u. next_entries_since E (rc_raft_log (rn_raft rn)) (rn_commit_since_index rn)
           (Some (rc_max_committed_size_per_ready (rn_raft rn))) = Some (x, l)
     \<and> light = \<lparr>lr_commit_index = None, lr_committed_entries = (case x of None \<Rightarrow> [] | Some es \<Rightarrow> es),
          lr_messages = r_msgs (rn_raft rn)\<rparr>
     \<and> rn' = rn\<lparr>rn_raft := (rn_raft rn)\<lparr>rc_raft_log := l, rc_uncommitted_state := u, r_msgs := []\<rparr>,
          rn_commit_since_index := (if lr_committed_entries light = [] then rn_commit_since_index rn
             else e_index (last (lr_committed_entries light)))\<rparr>"
proof -
  let ?ents = "\<lambda>x. case x of None \<Rightarrow> [] | Some es \<Rightarrow> es"
  from assms obtain x l r1 since where d:
    "next_entries_since E (rc_raft_log (rn_raft rn)) (rn_commit_since_index rn)
       (Some (rc_max_committed_size_per_ready (rn_raft rn))) = Some (x, l)"
    "reduce_uncommitted_size ((rn_raft rn)\<lparr>rc_raft_log := l\<rparr>) (?ents x) = Some r1"
    "light = \<lparr>lr_commit_index = None, lr_committed_entries = ?ents x, lr_messages = r_msgs r1\<rparr>"
    "rn' = rn\<lparr>rn_raft := r1\<lparr>r_msgs := []\<rparr>, rn_commit_since_index := since\<rparr>"
    "since = (if ?ents x = [] then rn_commit_since_index rn else e_index (last (?ents x)))"
    by (auto simp: gen_light_ready_def Let_def bind_eq_Some_conv simp del: split_paired_Ex split: if_splits)
  obtain u where "r1 = (rn_raft rn)\<lparr>rc_raft_log := l, rc_uncommitted_state := u\<rparr>"
    using returnsD [OF reduce_uncommitted_size_raft d(2)] by blast
  with d show ?thesis by (intro exI [of _ x] exI [of _ l] exI [of _ u]) simp
qed

lemma gen_light_ready_spec:
  assumes inv: "mlog_inv E (rc_raft_log (rn_raft rn))"
    and first: "mlog_first (rc_raft_log (rn_raft rn)) \<le> rn_commit_since_index rn + 1"
    and g: "gen_light_ready (mem_env E) rn = Some (light, rn')"
  shows "continuous_from (rn_commit_since_index rn + 1) (lr_committed_entries light)"
    and "rn_commit_since_index rn' = rn_commit_since_index rn + length (lr_committed_entries light)"
    and "has_next_entries_since (mem_env E) (rc_raft_log (rn_raft rn)) (rn_commit_since_index rn)
         = Some (lr_committed_entries light \<noteq> [])"
    and "\<forall>e \<in> set (lr_committed_entries light). e_index e \<le> rc_committed (rn_raft rn)"
proof -
  let ?r = "rn_raft rn" and ?since = "rn_commit_since_index rn" and ?es = "lr_committed_entries light"
  obtain x l u where x: "next_entries_since (mem_env E) (rc_raft_log ?r) ?since (Some (rc_max_committed_size_per_ready ?r)) = Some (x, l)"
    "?es = (case x of None \<Rightarrow> [] | Some es \<Rightarrow> es)"
    "rn_commit_since_index rn' = (if ?es = [] then ?since else e_index (last ?es))"
    using gen_light_ready_parts [OF g] by auto
  note view = next_entries_since_view [OF inv next_entries_since_bounds(2,1) [OF x(1)], of "Some (rc_max_committed_size_per_ready ?r)"]
  have m: "max (?since + 1) (mlog_first (rc_raft_log ?r)) = ?since + 1" using first by simp
  show has: "has_next_entries_since (mem_env E) (rc_raft_log ?r) ?since = Some (?es \<noteq> [])"
    using view x(1,2) by (cases x) auto
  show cont: "continuous_from (?since + 1) ?es"
    using view x(1,2) unfolding m by (cases x) auto
  show "\<forall>e \<in> set ?es. e_index e \<le> rc_committed ?r"
    using view x(1,2) by (cases x) auto
  show "rn_commit_since_index rn' = ?since + length ?es"
    using x(3) continuous_last [OF cont] by auto
qed

lemma log_slice_store: "returns (log_slice E l lo hi sz c) (\<lambda>(_, l'). \<exists>s. l' = l\<lparr>rl_store := s\<rparr>)"
proof -
  note rules = returnsI [of "log_must_check_outofbounds E l lo hi"] returnsI [of "st_entries E s i j k d" for s i j k d]
    returnsI [of "unstable_slice u i j" for u i j] returnsI [of "limit_size f xs k" for f k and xs :: "entry list"]
  show ?thesis unfolding log_slice_def by (intro returns_rules rules) (auto intro: exI [of _ "rl_store l"])
qed

lemma next_entries_since_store:
  "returns (next_entries_since E l since sz) (\<lambda>(_, l'). \<exists>s. l' = l\<lparr>rl_store := s\<rparr>)"
proof -
  note rules = returnsI [of "log_first_index E l"] returnsI [of "applied_index_upper_bound l"] returnsI [of "unwrap x" for x :: "entry list result"]
    returnsI [of "u64_add i j" for i j] log_slice_store [THEN returns_mono]
  show ?thesis unfolding next_entries_since_def by (intro returns_rules rules) (auto intro: exI [of _ "rl_store l"])
qed

lemma gen_light_ready_raft:
  assumes "gen_light_ready E rn = Some (light, rn')"
  shows "\<exists>s u. rn_raft rn' = (rn_raft rn)\<lparr>rc_raft_log := (rc_raft_log (rn_raft rn))\<lparr>rl_store := s\<rparr>, rc_uncommitted_state := u, r_msgs := []\<rparr>"
    and "rn_prev_ss rn' = rn_prev_ss rn" "rn_prev_hs rn' = rn_prev_hs rn" "rn_records rn' = rn_records rn"
  using gen_light_ready_parts [OF assms] returnsD [OF next_entries_since_store] by fastforce+

text \<open>Behind a snapshot that waits nothing is handed out.\<close>

lemma gen_light_ready_behind_snapshot:
  assumes inv: "mlog_inv E (rc_raft_log (rn_raft rn))" and s: "raft_snap (rn_raft rn) = Some snap"
    and z: "rl_max_apply_unpersisted_log_limit (rc_raft_log (rn_raft rn)) = 0"
    and g: "gen_light_ready (mem_env E) rn = Some (light, rn')"
  shows "lr_committed_entries light = []" and "rn_commit_since_index rn' = rn_commit_since_index rn"
proof -
  let ?l = "rc_raft_log (rn_raft rn)" and ?since = "rn_commit_since_index rn" and ?sz = "Some (rc_max_committed_size_per_ready (rn_raft rn))"
  obtain x l where x: "next_entries_since (mem_env E) ?l ?since ?sz = Some (x, l)"
    "lr_committed_entries light = (case x of None \<Rightarrow> [] | Some es \<Rightarrow> es)"
    "rn_commit_since_index rn' = (if lr_committed_entries light = [] then ?since else e_index (last (lr_committed_entries light)))"
    using gen_light_ready_parts [OF g] by auto
  have first: "mlog_first ?l = un_offset (rl_unstable ?l)" "rl_persisted ?l < un_offset (rl_unstable ?l)"
    using inv s by (simp_all add: log_first_def raft_snap_def log_inv_def)
  have "x = None"
  proof (rule ccontr)
    assume "x \<noteq> None"
    then obtain es where es: "x = Some es" by blast
    with next_entries_since_view [OF inv next_entries_since_bounds(2,1) [OF x(1)], of ?sz] x(1) z
    have v: "es \<noteq> []" "continuous_from (max (?since + 1) (mlog_first ?l)) es" "\<forall>e \<in> set es. e_index e \<le> rl_persisted ?l" by auto
    have "e_index (hd es) = max (?since + 1) (mlog_first ?l)" using continuous_last [OF v(2,1)] by simp
    moreover have "e_index (hd es) \<le> rl_persisted ?l" using v(1,3) by simp
    ultimately show False using first by simp
  qed
  with x show "lr_committed_entries light = []" "rn_commit_since_index rn' = ?since" by simp_all
qed

section \<open>Everything else the application can do\<close>

datatype raw_input =
    RawTick | RawCampaign | RawPropose bytes bytes | RawPing | RawProposeConfChange bytes conf_change_input
  | RawApplyConfChange conf_change_input | RawStep message | RawEntriesFetched get_entries_for
  | RawPersistReady u64 | RawAdvanceApplyTo u64 | RawAdvanceApply
  | RawReportUnreachable u64 | RawReportSnapshot u64 snapshot_status | RawRequestSnapshot
  | RawTransferLeader u64 | RawReadIndex bytes | RawSetPriority i64 | RawSkipBcastCommit bool | RawSetBatchAppend bool

definition raw_react :: "'s env \<Rightarrow> 's raw_node \<Rightarrow> raw_input \<Rightarrow> 's raw_node option" where
  "raw_react E rn i =
     (case i of
        RawTick \<Rightarrow> ignore_result (raw_tick E rn)
      | RawCampaign \<Rightarrow> ignore_result (raw_campaign E rn)
      | RawPropose ctx data \<Rightarrow> ignore_result (raw_propose E rn ctx data)
      | RawPing \<Rightarrow> raw_ping rn
      | RawProposeConfChange ctx cc \<Rightarrow> ignore_result (raw_propose_conf_change E rn ctx cc)
      | RawApplyConfChange cc \<Rightarrow> ignore_result (raw_apply_conf_change E rn cc)
      | RawStep m \<Rightarrow> ignore_result (raw_step E rn m)
      | RawEntriesFetched c \<Rightarrow> on_entries_fetched E rn c
      | RawPersistReady n \<Rightarrow> on_persist_ready E rn n
      | RawAdvanceApplyTo n \<Rightarrow> advance_apply_to E rn n
      | RawAdvanceApply \<Rightarrow> advance_apply E rn
      | RawReportUnreachable n \<Rightarrow> report_unreachable E rn n
      | RawReportSnapshot n st \<Rightarrow> report_snapshot E rn n st
      | RawRequestSnapshot \<Rightarrow> ignore_result (raw_request_snapshot E rn)
      | RawTransferLeader n \<Rightarrow> transfer_leader E rn n
      | RawReadIndex ctx \<Rightarrow> read_index E rn ctx
      | RawSetPriority p \<Rightarrow> Some (raw_set_priority rn p)
      | RawSkipBcastCommit b \<Rightarrow> Some (raw_skip_bcast_commit rn b)
      | RawSetBatchAppend b \<Rightarrow> Some (raw_set_batch_append rn b))"

text \<open>None of it moves the position up to which entries were handed out, or touches the latest records.\<close>

abbreviation same_position :: "'s raw_node \<Rightarrow> 's raw_node \<Rightarrow> bool" where
  "same_position rn rn' \<equiv>
     rn_commit_since_index rn' = rn_commit_since_index rn \<and> (\<exists>pre. rn_records rn = pre @ rn_records rn')"

lemma pop_records_suffix: "\<exists>pre. recs = pre @ fst (pop_records n recs acc)"
proof (induction recs arbitrary: acc)
  case (Cons rec recs)
  obtain i t j where acc: "acc = (i, t, j)" by (cases acc)
  have "\<exists>pre. rec # recs = pre @ fst (pop_records n recs x)" for x using Cons.IH [of x] by (metis append_Cons)
  then show ?case by (auto simp: acc Let_def split: prod.split option.split)
qed simp

lemma with_raft_position: "returns (ignore_result (with_raft rn m)) (same_position rn)"
  by (auto simp: returns_def ignore_result_def with_raft_def bind_eq_Some_conv)

lemma with_raft_only_position: "returns (with_raft_only rn m) (same_position rn)"
  by (auto simp: returns_def with_raft_only_def bind_eq_Some_conv)

lemma commit_ready_position: "returns (commit_ready rn rd) (same_position rn)"
  by (auto simp: returns_def commit_ready_def Let_def bind_eq_Some_conv split: option.splits)

lemma on_persist_ready_position: "returns (on_persist_ready E rn n) (same_position rn)"
proof -
  have "returns (on_persist_ready E rn n)
      (\<lambda>rn'. rn_commit_since_index rn' = rn_commit_since_index rn \<and> rn_records rn' = fst (pop_records n (rn_records rn) (0, 0, 0)))"
    by (auto simp: returns_def on_persist_ready_def with_raft_only_def Let_def bind_eq_Some_conv split: prod.splits if_splits)
  then show ?thesis by (rule returns_mono) (use pop_records_suffix in auto)
qed

lemmas position_kept =
  with_raft_position with_raft_only_position commit_ready_position on_persist_ready_position

lemma raw_react_position: "returns (raw_react E rn i) (same_position rn)"
proof (cases i)
  case (RawProposeConfChange ctx cc)
  then show ?thesis
    unfolding raw_react_def raw_propose_conf_change_def
    by (auto simp: returns_def ignore_result_def with_raft_def bind_eq_Some_conv split: conf_change_input.splits sum.splits)
next
  case (RawStep m)
  then show ?thesis
    unfolding raw_react_def raw_step_def by (auto simp: returns_def ignore_result_def with_raft_def bind_eq_Some_conv)
next
  case (RawEntriesFetched c)
  then show ?thesis
    unfolding raw_react_def on_entries_fetched_def
    by (cases c) (auto simp: returns_def with_raft_only_def bind_eq_Some_conv split: if_splits)
qed (use position_kept in \<open>simp_all add: raw_react_def raw_tick_def raw_campaign_def raw_propose_def raw_ping_def
      raw_apply_conf_change_def advance_apply_to_def advance_apply_def raw_commit_apply_def
      report_unreachable_def report_snapshot_def raw_request_snapshot_def transfer_leader_def read_index_def
      raw_set_priority_def raw_skip_bcast_commit_def raw_set_batch_append_def returns_def\<close>)

section \<open>Runs\<close>

text \<open>
  What happens to the application: a snapshot arrives at the node, and snapshots and entries are handed
  out, in the order in which they have to be installed and applied.
\<close>

datatype delivery = Arrive snapshot | Install snapshot | Apply entry

definition handed_out :: "ready \<Rightarrow> delivery list" where
  "handed_out rd =
     (if snapshot_is_empty (rd_snapshot rd) then [] else [Install (rd_snapshot rd)])
     @ map Apply (lr_committed_entries (rd_light rd))"

definition arrived :: "'s raw_node \<Rightarrow> 's raw_node \<Rightarrow> delivery list" where
  "arrived rn rn' =
     (case raft_snap (rn_raft rn') of
        Some s \<Rightarrow> if raft_snap (rn_raft rn) = Some s then [] else [Arrive s]
      | None \<Rightarrow> [])"

text \<open>
  The order, from a position and a snapshot that waits: an entry is the next one, and a snapshot is
  one that waits, does not go back, and waits no longer.
\<close>

fun in_order :: "u64 \<Rightarrow> snapshot option \<Rightarrow> delivery list \<Rightarrow> bool" where
  "in_order i w [] \<longleftrightarrow> True"
| "in_order i w (Arrive s # ds) \<longleftrightarrow> in_order i (Some s) ds"
| "in_order i w (Install s # ds) \<longleftrightarrow> w = Some s \<and> i \<le> snap_index s \<and> in_order (snap_index s) None ds"
| "in_order i w (Apply e # ds) \<longleftrightarrow> e_index e = i + 1 \<and> in_order (i + 1) w ds"

fun position :: "u64 \<Rightarrow> delivery list \<Rightarrow> u64" where
  "position i [] = i"
| "position i (Arrive s # ds) = position i ds"
| "position i (Install s # ds) = position (snap_index s) ds"
| "position i (Apply e # ds) = position (i + 1) ds"

fun waiting :: "snapshot option \<Rightarrow> delivery list \<Rightarrow> snapshot option" where
  "waiting w [] = w"
| "waiting w (Arrive s # ds) = waiting (Some s) ds"
| "waiting w (Install s # ds) = waiting None ds"
| "waiting w (Apply e # ds) = waiting w ds"

lemma position_append [simp]: "position i (xs @ ys) = position (position i xs) ys"
  by (induction i xs rule: position.induct) auto

lemma waiting_append [simp]: "waiting w (xs @ ys) = waiting (waiting w xs) ys"
  by (induction w xs rule: waiting.induct) auto

lemma in_order_append [simp]: "in_order i w (xs @ ys) \<longleftrightarrow> in_order i w xs \<and> in_order (position i xs) (waiting w xs) ys"
  by (induction i w xs rule: in_order.induct) auto

lemma in_order_entries:
  "continuous_from (i + 1) es \<Longrightarrow> in_order i w (map Apply es) \<and> position i (map Apply es) = i + length es"
  by (induction es arbitrary: i) (auto simp: continuous_Cons)

lemma waiting_entries [simp]: "waiting w (map Apply es) = w"
  by (induction es) auto

lemma arrived_in_order [simp]: "in_order i w (arrived rn rn')" "position i (arrived rn rn') = i"
  by (simp_all add: arrived_def split: option.split)

text \<open>The log is well formed and, unless a snapshot waits, the entry after the last one handed out is still there.\<close>

definition log_available :: "'t env \<Rightarrow> mem_storage raw_node \<Rightarrow> bool" where
  "log_available E rn \<longleftrightarrow>
     mlog_inv E (rc_raft_log (rn_raft rn))
     \<and> (raft_snap (rn_raft rn) = None \<longrightarrow> mlog_first (rc_raft_log (rn_raft rn)) \<le> rn_commit_since_index rn + 1)"

text \<open>
  What a hand-out relies on: the above, and that a node with a snapshot waiting applies nothing that
  is not persisted, since \<open>become_follower\<close> sets that limit to 0.
\<close>

definition can_hand_out :: "'t env \<Rightarrow> mem_storage raw_node \<Rightarrow> bool" where
  "can_hand_out E rn \<longleftrightarrow> log_available E rn
     \<and> (raft_snap (rn_raft rn) \<noteq> None \<longrightarrow> rl_max_apply_unpersisted_log_limit (rc_raft_log (rn_raft rn)) = 0)"

text \<open>The node as \<open>advance_append\<close> leaves it before it looks for newly committed entries.\<close>

definition after_persist :: "'s env \<Rightarrow> 's raw_node \<Rightarrow> ready \<Rightarrow> 's raw_node option" where
  "after_persist E rn rd = do { rn \<leftarrow> commit_ready rn rd; on_persist_ready E rn (rn_max_number rn) }"

text \<open>
  A run of the node: the state, whether a \<open>Ready\<close> is outstanding, the states at which entries were
  looked for, and what was delivered. As its documentation demands, \<open>ready\<close> is called only when the
  last \<open>Ready\<close> was passed back; all other calls may come at any time, and the store may be written at
  any time. \<open>advance\<close> is \<open>advance_append\<close> followed by \<open>advance_apply_to\<close>.
\<close>

inductive raw_run ::
  "'t env \<Rightarrow> mem_storage raw_node \<Rightarrow> mem_storage raw_node \<Rightarrow> bool \<Rightarrow> mem_storage raw_node list \<Rightarrow> delivery list \<Rightarrow> bool"
  for E rn0 where
  run_start: "raw_run E rn0 rn0 False [] []"
| run_input: "raw_run E rn0 rn busy hs ds \<Longrightarrow> raw_react (mem_env E) rn i = Some rn' \<Longrightarrow>
    raw_run E rn0 rn' busy hs (ds @ arrived rn rn')"
| run_store: "raw_run E rn0 rn busy hs ds \<Longrightarrow>
    raw_run E rn0 (rn\<lparr>rn_raft := (rn_raft rn)\<lparr>rc_raft_log := (rc_raft_log (rn_raft rn))\<lparr>rl_store := s\<rparr>\<rparr>\<rparr>) busy hs ds"
| run_ready: "raw_run E rn0 rn False hs ds \<Longrightarrow> raw_ready (mem_env E) rn = Some (rd, rn') \<Longrightarrow>
    raw_run E rn0 rn' True (hs @ [rn]) (ds @ handed_out rd)"
| run_async: "raw_run E rn0 rn busy hs ds \<Longrightarrow> advance_append_async rn rd = Some rn' \<Longrightarrow> raw_run E rn0 rn' False hs ds"
| run_advance: "raw_run E rn0 rn busy hs ds \<Longrightarrow> advance_append (mem_env E) rn rd = Some (light, rn') \<Longrightarrow>
    after_persist (mem_env E) rn rd = Some rn1 \<Longrightarrow>
    raw_run E rn0 rn' False (hs @ [rn1]) (ds @ map Apply (lr_committed_entries light))"

section \<open>Taking a ready\<close>

lemma ready_pending_snapshot_other [simp]:
  "ready_pending_snapshot E (rn\<lparr>rn_max_number := a\<rparr>) = ready_pending_snapshot E rn"
  "ready_pending_snapshot E (rn\<lparr>rn_records := b\<rparr>) = ready_pending_snapshot E rn"
  "ready_pending_snapshot E (rn\<lparr>rn_raft := (rn_raft rn)\<lparr>rc_read_states := c\<rparr>\<rparr>) = ready_pending_snapshot E rn"
  by (simp_all add: ready_pending_snapshot_def split: option.split)

lemma raw_ready_parts:
  assumes "raw_ready E rn = Some (rd, rn')"
  shows "\<exists>n recs rec since rn2. ready_pending_snapshot E rn = Some (rd_snapshot rd, rec, since)
     \<and> gen_light_ready E (rn\<lparr>rn_max_number := n, rn_records := recs, rn_raft := (rn_raft rn)\<lparr>rc_read_states := []\<rparr>,
          rn_commit_since_index := since\<rparr>) = Some (rd_light rd, rn2)
     \<and> rd_ss rd = (if raft_soft_state (rn_raft rn) \<noteq> rn_prev_ss rn2 then Some (raft_soft_state (rn_raft rn)) else None)
     \<and> rd_hs rd = (if raft_hard_state (rn_raft rn) \<noteq> rn_prev_hs rn2 then Some (raft_hard_state (rn_raft rn)) else None)
     \<and> rd_read_states rd = rc_read_states (rn_raft rn)
     \<and> rd_entries rd = un_entries (rl_unstable (rc_raft_log (rn_raft rn)))
     \<and> rd_number rd = n
     \<and> rn' = rn2\<lparr>rn_records := rn_records rn2 @ [\<lparr>rr_number = n,
          rr_last_entry = (if rd_entries rd = [] then None else Some (e_index (last (rd_entries rd)), e_term (last (rd_entries rd)))),
          rr_snapshot = rec\<rparr>]\<rparr>"
  using assms by (clarsimp simp: raw_ready_def Let_def bind_eq_Some_conv) blast

lemma ready_pending_snapshot_cases:
  assumes "ready_pending_snapshot E rn = Some (snap, rec, since)"
  obtains (none) "raft_snap (rn_raft rn) = None" "snap = default_snapshot" "rec = None" "since = rn_commit_since_index rn"
  | (pending) "raft_snap (rn_raft rn) = Some snap" "rec = Some (snap_index snap, snap_term snap)" "since = snap_index snap"
      "rn_commit_since_index rn \<le> snap_index snap"
      "has_next_entries_since E (rc_raft_log (rn_raft rn)) (snap_index snap) = Some False"
  using assms by (auto simp: ready_pending_snapshot_def raft_snap_def bind_eq_Some_conv split: option.splits)

lemma default_snapshot_empty [simp]: "snapshot_is_empty default_snapshot"
  by (simp add: snapshot_is_empty_def default_snapshot_def default_snapshot_metadata_def)

lemma default_snapshot_index [simp]: "snap_index default_snapshot = 0"
  by (simp add: default_snapshot_def default_snapshot_metadata_def)

lemma pending_first:
  assumes "mlog_inv E l" "un_snapshot (rl_unstable l) = Some snap"
  shows "mlog_first l = snap_index snap + 1"
  using assms by (simp add: log_first_def log_inv_def unstable_inv_def)

text \<open>The light ready of a ready starts where the snapshot, if any, ends.\<close>

lemma raw_ready_light:
  assumes av: "log_available E rn" and r: "raw_ready (mem_env E) rn = Some (rd, rn')"
  obtains since where "continuous_from (since + 1) (lr_committed_entries (rd_light rd))"
    "rn_commit_since_index rn' = since + length (lr_committed_entries (rd_light rd))"
    "has_next_entries_since (mem_env E) (rc_raft_log (rn_raft rn)) since = Some (lr_committed_entries (rd_light rd) \<noteq> [])"
    "lr_messages (rd_light rd) = r_msgs (rn_raft rn)"
    "\<forall>e \<in> set (lr_committed_entries (rd_light rd)). e_index e \<le> rc_committed (rn_raft rn)"
    "(raft_snap (rn_raft rn) = None \<and> rd_snapshot rd = default_snapshot \<and> since = rn_commit_since_index rn)
     \<or> (raft_snap (rn_raft rn) = Some (rd_snapshot rd) \<and> since = snap_index (rd_snapshot rd)
         \<and> rn_commit_since_index rn \<le> since \<and> lr_committed_entries (rd_light rd) = [])"
proof -
  obtain n recs rec since rn2 where p: "ready_pending_snapshot (mem_env E) rn = Some (rd_snapshot rd, rec, since)"
    and g: "gen_light_ready (mem_env E) (rn\<lparr>rn_max_number := n, rn_records := recs, rn_raft := (rn_raft rn)\<lparr>rc_read_states := []\<rparr>,
          rn_commit_since_index := since\<rparr>) = Some (rd_light rd, rn2)"
    and rn': "rn_commit_since_index rn' = rn_commit_since_index rn2"
    using raw_ready_parts [OF r] by auto
  let ?rn1 = "rn\<lparr>rn_max_number := n, rn_records := recs, rn_raft := (rn_raft rn)\<lparr>rc_read_states := []\<rparr>, rn_commit_since_index := since\<rparr>"
  have inv: "mlog_inv E (rc_raft_log (rn_raft ?rn1))" using av by (simp add: log_available_def)
  have first: "mlog_first (rc_raft_log (rn_raft ?rn1)) \<le> rn_commit_since_index ?rn1 + 1"
    using p by (cases rule: ready_pending_snapshot_cases)
      (use av pending_first [OF inv] in \<open>auto simp: log_available_def raft_snap_def\<close>)
  note spec = gen_light_ready_spec [OF inv first g]
  have msgs: "lr_messages (rd_light rd) = r_msgs (rn_raft rn)" using gen_light_ready_parts [OF g] by auto
  show thesis
    using p by (cases rule: ready_pending_snapshot_cases) (use that [of since] spec msgs rn' in auto)
qed

lemma raw_ready_snapshot:
  assumes "raw_ready E rn = Some (rd, rn')"
  shows "raft_snap (rn_raft rn') = raft_snap (rn_raft rn) \<and> rn_records rn' \<noteq> []
     \<and> (rr_snapshot (last (rn_records rn')) = None \<longrightarrow> raft_snap (rn_raft rn) = None)"
proof -
  obtain n recs rec since rn2 where p: "ready_pending_snapshot E rn = Some (rd_snapshot rd, rec, since)"
    and g: "gen_light_ready E (rn\<lparr>rn_max_number := n, rn_records := recs, rn_raft := (rn_raft rn)\<lparr>rc_read_states := []\<rparr>,
          rn_commit_since_index := since\<rparr>) = Some (rd_light rd, rn2)"
    and rn': "rn' = rn2\<lparr>rn_records := rn_records rn2 @ [\<lparr>rr_number = n,
          rr_last_entry = (if rd_entries rd = [] then None else Some (e_index (last (rd_entries rd)), e_term (last (rd_entries rd)))),
          rr_snapshot = rec\<rparr>]\<rparr>"
    using raw_ready_parts [OF assms] by blast
  have "raft_snap (rn_raft rn2) = raft_snap (rn_raft rn)" using gen_light_ready_raft(1) [OF g] by (auto simp: raft_snap_def)
  with p show ?thesis by (cases rule: ready_pending_snapshot_cases) (use rn' in auto)
qed

text \<open>
  The snapshot in memory is one that waits to be handed out, unless a \<open>Ready\<close> with a snapshot is
  outstanding, which clears it when it is passed back.
\<close>

definition snapshot_waits :: "'s raw_node \<Rightarrow> bool \<Rightarrow> snapshot option \<Rightarrow> bool" where
  "snapshot_waits rn busy w \<longleftrightarrow>
     busy \<and> (rn_records rn = [] \<or> rr_snapshot (last (rn_records rn)) \<noteq> None)
     \<or> (\<forall>s. raft_snap (rn_raft rn) = Some s \<longrightarrow> w = Some s)"

lemma raw_ready_deliveries:
  assumes av: "log_available E rn" and r: "raw_ready (mem_env E) rn = Some (rd, rn')" and w: "snapshot_waits rn False w"
  shows "in_order (rn_commit_since_index rn) w (handed_out rd)
    \<and> position (rn_commit_since_index rn) (handed_out rd) = rn_commit_since_index rn'
    \<and> snapshot_waits rn' True (waiting w (handed_out rd))"
  using av r
proof (rule raw_ready_light)
  fix since
  let ?es = "lr_committed_entries (rd_light rd)"
  assume c: "continuous_from (since + 1) ?es" and pos: "rn_commit_since_index rn' = since + length ?es"
    and alt: "(raft_snap (rn_raft rn) = None \<and> rd_snapshot rd = default_snapshot \<and> since = rn_commit_since_index rn)
     \<or> (raft_snap (rn_raft rn) = Some (rd_snapshot rd) \<and> since = snap_index (rd_snapshot rd)
         \<and> rn_commit_since_index rn \<le> since \<and> ?es = [])"
  from c have es: "in_order since v (map Apply ?es) \<and> position since (map Apply ?es) = since + length ?es" for v
    by (rule in_order_entries)
  have "raft_snap (rn_raft rn') = raft_snap (rn_raft rn)
      \<and> (rn_records rn' \<noteq> [] \<and> (rr_snapshot (last (rn_records rn')) = None \<longrightarrow> raft_snap (rn_raft rn) = None))"
    using raw_ready_snapshot [OF r] by blast
  then have "snapshot_waits rn' True (waiting w (handed_out rd))" by (auto simp: snapshot_waits_def)
  moreover have "w = Some (rd_snapshot rd)" if "raft_snap (rn_raft rn) = Some (rd_snapshot rd)"
    using w that by (simp add: snapshot_waits_def)
  ultimately show ?thesis using alt pos es by (auto simp: handed_out_def snapshot_is_empty_def)
qed

lemma commit_ready_waits:
  assumes "commit_ready rn rd = Some rn'" and "snapshot_waits rn busy w"
  shows "snapshot_waits rn' False w"
proof -
  let ?l = "rc_raft_log (rn_raft rn)"
  obtain rec la lb where rec: "rn_records rn \<noteq> []" "rec = last (rn_records rn)"
    and la: "(case rr_snapshot rec of None \<Rightarrow> Some ?l | Some (i, _) \<Rightarrow> log_stable_snap ?l i) = Some la"
    and lb: "(case rr_last_entry rec of None \<Rightarrow> Some la | Some (i, t) \<Rightarrow> log_stable_entries la i t) = Some lb"
    and rn': "rc_raft_log (rn_raft rn') = lb"
    using assms(1) by (auto simp: commit_ready_def Let_def vec_last_def bind_eq_Some_conv split: if_splits option.splits)
  have "un_snapshot (rl_unstable lb) = un_snapshot (rl_unstable la)"
    using lb by (auto simp: log_stable_entries_def unstable_stable_entries_def Let_def bind_eq_Some_conv split: option.splits if_splits)
  moreover have "un_snapshot (rl_unstable la) = (if rr_snapshot rec = None then un_snapshot (rl_unstable ?l) else None)"
    using la by (auto simp: log_stable_snap_def unstable_stable_snap_def bind_eq_Some_conv split: option.splits if_splits)
  ultimately show ?thesis using assms(2) rec rn' by (auto simp: snapshot_waits_def raft_snap_def)
qed

lemma raft_maybe_commit_unstable:
  "returns (raft_maybe_commit E r) (\<lambda>(_, r'). rl_unstable (rc_raft_log r') = rl_unstable (rc_raft_log r))"
  by (auto simp: returns_def raft_maybe_commit_def log_maybe_commit_def commit_to_def put_progress_def Let_def bind_eq_Some_conv
      split: if_splits sum.splits)

lemma on_persist_entries_unstable:
  "returns (on_persist_entries (mem_env E) r i t) (\<lambda>r'. rl_unstable (rc_raft_log r') = rl_unstable (rc_raft_log r))"
proof -
  have persist: "returns (log_maybe_persist (mem_env E) l i t) (\<lambda>(_, l'). rl_unstable l' = rl_unstable l)" for l
    by (auto simp: returns_def log_maybe_persist_def Let_def bind_eq_Some_conv split: if_splits option.splits sum.splits)
  show ?thesis
    unfolding on_persist_entries_def
    by (intro returns_rules persist [THEN returns_mono] raft_maybe_commit_unstable [THEN returns_mono] bcast_append_reads [THEN returns_mono]
        returnsI [of "tracker_get p i" for p i] returnsI [of "progress_maybe_update p i" for p i])
      (auto simp: same_view_def put_progress_def)
qed

lemma on_persist_ready_waits:
  assumes "on_persist_ready (mem_env E) rn n = Some rn'"
  shows "raft_snap (rn_raft rn') = raft_snap (rn_raft rn)"
proof -
  have snap: "returns (on_persist_snap r i) (\<lambda>r'. rl_unstable (rc_raft_log r') = rl_unstable (rc_raft_log r))" for r :: "mem_storage raft" and i
    by (auto simp: returns_def on_persist_snap_def log_maybe_persist_snap_def bind_eq_Some_conv split: if_splits)
  have "returns (on_persist_ready (mem_env E) rn n) (\<lambda>rn'. raft_snap (rn_raft rn') = raft_snap (rn_raft rn))"
    unfolding on_persist_ready_def with_raft_only_def
    by (intro returns_rules snap [THEN returns_mono] on_persist_entries_unstable [THEN returns_mono]) (auto simp: raft_snap_def)
  from returnsD [OF this assms] show ?thesis .
qed

lemma advance_append_parts:
  assumes "advance_append E rn rd = Some (light, rn')" and "after_persist E rn rd = Some rn1"
  shows "\<exists>light1 rn2. gen_light_ready E rn1 = Some (light1, rn2) \<and> lr_committed_entries light = lr_committed_entries light1
    \<and> rn_commit_since_index rn' = rn_commit_since_index rn2 \<and> rn_raft rn' = rn_raft rn2"
  using assms by (auto simp: advance_append_def after_persist_def Let_def bind_eq_Some_conv split: if_splits)

lemma advance_append_deliveries:
  assumes a: "advance_append (mem_env E) rn rd = Some (light, rn')" and p: "after_persist (mem_env E) rn rd = Some rn1"
    and av: "can_hand_out E rn1" and w: "snapshot_waits rn busy w"
  shows "in_order (rn_commit_since_index rn) w (map Apply (lr_committed_entries light))
    \<and> position (rn_commit_since_index rn) (map Apply (lr_committed_entries light)) = rn_commit_since_index rn'
    \<and> snapshot_waits rn' False w"
proof -
  let ?l = "rc_raft_log (rn_raft rn1)" and ?es = "lr_committed_entries light"
  obtain light1 rn2 where g: "gen_light_ready (mem_env E) rn1 = Some (light1, rn2)"
    and eq: "?es = lr_committed_entries light1" "rn_commit_since_index rn' = rn_commit_since_index rn2" "rn_raft rn' = rn_raft rn2"
    using advance_append_parts [OF a p] by blast
  obtain rn3 where c: "commit_ready rn rd = Some rn3" "on_persist_ready (mem_env E) rn3 (rn_max_number rn3) = Some rn1"
    using p by (auto simp: after_persist_def bind_eq_Some_conv)
  have same: "rn_commit_since_index rn1 = rn_commit_since_index rn"
    using returnsD [OF commit_ready_position c(1)] returnsD [OF on_persist_ready_position c(2)] by simp
  have "raft_snap (rn_raft rn') = raft_snap (rn_raft rn1)" using gen_light_ready_raft(1) [OF g] eq(3) by (auto simp: raft_snap_def)
  then have "snapshot_waits rn' False w"
    using commit_ready_waits [OF c(1) w] on_persist_ready_waits [OF c(2)] by (simp add: snapshot_waits_def)
  moreover have "in_order (rn_commit_since_index rn) w (map Apply ?es)
      \<and> position (rn_commit_since_index rn) (map Apply ?es) = rn_commit_since_index rn'"
  proof (cases "raft_snap (rn_raft rn1)")
    case None
    then show ?thesis
      using in_order_entries [OF gen_light_ready_spec(1) [OF _ _ g]] gen_light_ready_spec(2) [OF _ _ g] av eq same
      by (simp add: log_available_def can_hand_out_def)
  next
    case (Some snap)
    have "lr_committed_entries light1 = []" "rn_commit_since_index rn2 = rn_commit_since_index rn1"
      using gen_light_ready_behind_snapshot [OF _ Some _ g] av Some by (simp_all add: log_available_def can_hand_out_def)
    then show ?thesis using eq same by simp
  qed
  ultimately show ?thesis by blast
qed

text \<open>Other calls: a snapshot that shows up in memory is one that arrived.\<close>

lemma arrived_waits:
  assumes "snapshot_waits rn busy w" and "\<exists>pre. rn_records rn = pre @ rn_records rn'"
  shows "snapshot_waits rn' busy (waiting w (arrived rn rn'))"
  using assms by (auto simp: snapshot_waits_def arrived_def split: option.split)

text \<open>
  (C9) Committed entries are handed to the application exactly once and in order, and so are
  snapshots. Take any sequence of calls of \<open>RawNode\<close>, with the store written in between, in which
  \<open>ready\<close> is called only when the last \<open>Ready\<close> was passed back. What the application receives from
  \<open>ready\<close> and \<open>advance_append\<close> are the entries that follow the position it started at, one after the
  other, each once; a snapshot is handed out only if it arrived and was not handed out since, and
  only moves the position forward. Assumed is that whenever entries are looked for the log keeps its
  invariant, the entry after the last one handed out is not compacted away, and a node with a
  snapshot waiting does not apply entries that are not persisted.
\<close>

theorem deliveries_are_in_order:
  assumes run: "raw_run E rn0 rn busy hs ds" and av: "\<forall>h \<in> set hs. can_hand_out E h"
  shows "in_order (rn_commit_since_index rn0) (raft_snap (rn_raft rn0)) ds
     \<and> rn_commit_since_index rn = position (rn_commit_since_index rn0) ds"
proof -
  let ?i = "rn_commit_since_index rn0" and ?w = "raft_snap (rn_raft rn0)"
  have "in_order ?i ?w ds \<and> rn_commit_since_index rn = position ?i ds \<and> snapshot_waits rn busy (waiting ?w ds)"
    using run av
  proof induction
    case (run_input rn busy hs ds i rn')
    then have w: "snapshot_waits rn busy (waiting ?w ds)" by blast
    note pos = returnsD [OF raw_react_position run_input(2)]
    from run_input pos arrived_waits [OF w conjunct2 [OF pos]] show ?case by simp
  next
    case (run_ready rn hs ds rd rn')
    then have w: "log_available E rn" "snapshot_waits rn False (waiting ?w ds)" by (simp_all add: can_hand_out_def)
    from run_ready raw_ready_deliveries [OF w(1) run_ready(2) w(2)] show ?case by simp
  next
    case (run_async rn busy hs ds rd rn')
    then show ?case
      using returnsD [OF commit_ready_position, of rn rd rn'] commit_ready_waits by (auto simp: advance_append_async_def)
  next
    case (run_advance rn busy hs ds rd light rn' rn1)
    then have w: "can_hand_out E rn1" "snapshot_waits rn busy (waiting ?w ds)" by simp_all
    from run_advance advance_append_deliveries [OF run_advance(2,3) w] show ?case by simp
  qed (auto simp: snapshot_waits_def raft_snap_def)
  then show ?thesis by blast
qed

text \<open>A follower with two entries in memory, the first of them committed.\<close>

definition sample_node :: "mem_storage raw_node" where
  "sample_node =
     (let r = (raft_init (config_new 1) sample_full 40)\<lparr>rc_term := 1\<rparr>
      in \<lparr>rn_raft = r, rn_prev_ss = raft_soft_state r, rn_prev_hs = raft_hard_state r, rn_max_number = 0, rn_records = [],
          rn_commit_since_index = 0\<rparr>)"

lemma sample_node_available: "log_available sample_env sample_node"
  using sample_full_inv by (simp add: log_available_def sample_node_def raft_init_def Let_def raft_snap_def sample_full_view)

lemmas sample_node_eval = raw_ready_def ready_records_def ready_pending_snapshot_def gen_light_ready_def
  reduce_uncommitted_size_def next_entries_since_def applied_index_upper_bound_def log_slice_def
  log_must_check_outofbounds_def unstable_slice_def unstable_must_check_outofbounds_def vec_range_def limit_size_def
  sample_node_def raft_init_def config_new_def default_config_def Let_def sample_full_def sample_eval
  raft_soft_state_def raft_hard_state_def

lemma sample_node_ready:
  "\<exists>rd rn'. raw_ready (mem_env sample_env) sample_node = Some (rd, rn') \<and> handed_out rd = [Apply (sample_entry 1 1)]
     \<and> rd_entries rd = [sample_entry 1 1, sample_entry 2 1]"
  by (simp add: sample_node_eval handed_out_def)

text \<open>A follower with a snapshot in memory.\<close>

definition sample_snapshot :: snapshot where
  "sample_snapshot = default_snapshot\<lparr>sn_metadata := default_snapshot_metadata\<lparr>sm_index := 5, sm_term := 1\<rparr>\<rparr>"

definition sample_behind :: "mem_storage raw_node" where
  "sample_behind =
     (let l = sample_log\<lparr>rl_committed := 5, rl_unstable := (unstable_new 6)\<lparr>un_snapshot := Some sample_snapshot\<rparr>\<rparr>
      in sample_node\<lparr>rn_raft := (rn_raft sample_node)\<lparr>rc_raft_log := l\<rparr>\<rparr>)"

lemma sample_behind_hands_out: "can_hand_out sample_env sample_behind"
  using sample_log_inv
  by (simp add: can_hand_out_def log_available_def sample_behind_def sample_snapshot_def Let_def raft_snap_def
      log_inv_def log_first_def log_ents_def unstable_inv_def unstable_new_def sample_log_def continuous_from_def)

lemma sample_behind_ready:
  "\<exists>rd rn rn'. raw_ready (mem_env sample_env) sample_behind = Some (rd, rn) \<and> handed_out rd = [Install sample_snapshot]
     \<and> advance_append_async rn rd = Some rn'"
  by (simp add: sample_node_eval sample_behind_def sample_snapshot_def handed_out_def has_next_entries_since_def snapshot_is_empty_def
      default_snapshot_def default_snapshot_metadata_def advance_append_async_def commit_ready_def vec_last_def
      log_stable_snap_def unstable_stable_snap_def)

lemma deliveries_are_in_order_witness:
  "(\<exists>rn. raw_run sample_env sample_node rn True [sample_node] [Apply (sample_entry 1 1)]
     \<and> in_order 0 None [Apply (sample_entry 1 1)] \<and> rn_commit_since_index rn = 1)
   \<and> (\<exists>rn. raw_run sample_env sample_behind rn False [sample_behind] [Install sample_snapshot]
     \<and> in_order 0 (Some sample_snapshot) [Install sample_snapshot] \<and> rn_commit_since_index rn = 5)"
proof -
  obtain rd rn where r: "raw_ready (mem_env sample_env) sample_node = Some (rd, rn)" "handed_out rd = [Apply (sample_entry 1 1)]"
    using sample_node_ready by blast
  have run: "raw_run sample_env sample_node rn True [sample_node] [Apply (sample_entry 1 1)]"
    using raw_run.run_ready [OF raw_run.run_start r(1)] r(2) by simp
  have n: "rn_commit_since_index sample_node = 0" "raft_snap (rn_raft sample_node) = None"
    by (simp_all add: sample_node_def raft_snap_def raft_init_def sample_full_def sample_eval Let_def)
  then have av: "\<forall>h \<in> set [sample_node]. can_hand_out sample_env h" using sample_node_available by (simp add: can_hand_out_def)
  obtain rd2 rn2 rn3 where r2: "raw_ready (mem_env sample_env) sample_behind = Some (rd2, rn2)" "handed_out rd2 = [Install sample_snapshot]"
    "advance_append_async rn2 rd2 = Some rn3"
    using sample_behind_ready by blast
  have run2: "raw_run sample_env sample_behind rn3 False [sample_behind] [Install sample_snapshot]"
    using raw_run.run_async [OF raw_run.run_ready [OF raw_run.run_start r2(1)] r2(3)] r2(2) by simp
  have n2: "rn_commit_since_index sample_behind = 0" "raft_snap (rn_raft sample_behind) = Some sample_snapshot" "snap_index sample_snapshot = 5"
    using n by (simp_all add: sample_behind_def raft_snap_def sample_snapshot_def Let_def)
  have av2: "\<forall>h \<in> set [sample_behind]. can_hand_out sample_env h" using sample_behind_hands_out by simp
  from deliveries_are_in_order [OF run av] run n deliveries_are_in_order [OF run2 av2] run2 n2 show ?thesis by auto
qed

section \<open>When there is a ready\<close>

definition ready_is_empty :: "ready \<Rightarrow> bool" where
  "ready_is_empty rd \<longleftrightarrow> rd_ss rd = None \<and> rd_hs rd = None \<and> rd_read_states rd = [] \<and> rd_entries rd = []
     \<and> snapshot_is_empty (rd_snapshot rd) \<and> lr_committed_entries (rd_light rd) = [] \<and> lr_messages (rd_light rd) = []"

lemma has_next_entries_since_below:
  assumes "has_next_entries_since E l i = Some b" and "j \<le> i"
  shows "\<exists>b'. has_next_entries_since E l j = Some b' \<and> (i = j \<longrightarrow> b' = b)"
  using assms by (auto simp: has_next_entries_since_def bind_eq_Some_conv u64_add_def split: if_splits)

lemma raw_ready_fields:
  assumes "raw_ready E rn = Some (rd, rn')"
  shows "rd_ss rd = (if raft_soft_state (rn_raft rn) \<noteq> rn_prev_ss rn then Some (raft_soft_state (rn_raft rn)) else None)"
    "rd_hs rd = (if raft_hard_state (rn_raft rn) \<noteq> rn_prev_hs rn then Some (raft_hard_state (rn_raft rn)) else None)"
    "rd_read_states rd = rc_read_states (rn_raft rn)" "rd_entries rd = un_entries (rl_unstable (rc_raft_log (rn_raft rn)))"
proof -
  obtain n recs since rn2 where p: "gen_light_ready E (rn\<lparr>rn_max_number := n, rn_records := recs,
        rn_raft := (rn_raft rn)\<lparr>rc_read_states := []\<rparr>, rn_commit_since_index := since\<rparr>) = Some (rd_light rd, rn2)"
    and f: "rd_ss rd = (if raft_soft_state (rn_raft rn) \<noteq> rn_prev_ss rn2 then Some (raft_soft_state (rn_raft rn)) else None)"
    "rd_hs rd = (if raft_hard_state (rn_raft rn) \<noteq> rn_prev_hs rn2 then Some (raft_hard_state (rn_raft rn)) else None)"
    "rd_read_states rd = rc_read_states (rn_raft rn)" "rd_entries rd = un_entries (rl_unstable (rc_raft_log (rn_raft rn)))"
    using raw_ready_parts [OF assms] by blast
  have "rn_prev_ss rn2 = rn_prev_ss rn" "rn_prev_hs rn2 = rn_prev_hs rn" using gen_light_ready_parts [OF p] by auto
  with f show "rd_ss rd = (if raft_soft_state (rn_raft rn) \<noteq> rn_prev_ss rn then Some (raft_soft_state (rn_raft rn)) else None)"
    "rd_hs rd = (if raft_hard_state (rn_raft rn) \<noteq> rn_prev_hs rn then Some (raft_hard_state (rn_raft rn)) else None)"
    "rd_read_states rd = rc_read_states (rn_raft rn)" "rd_entries rd = un_entries (rl_unstable (rc_raft_log (rn_raft rn)))"
    by simp_all
qed

text \<open>
  (C10) \<open>has_ready\<close> answers for \<open>ready\<close> without building it: it says yes exactly when the \<open>Ready\<close> would
  hold a state change, a read state, an entry to persist, a snapshot, a committed entry or a message.
\<close>

theorem has_ready_iff_something_to_do:
  assumes av: "log_available E rn" and r: "raw_ready (mem_env E) rn = Some (rd, rn')"
  shows "has_ready (mem_env E) rn = Some (\<not> ready_is_empty rd)"
proof -
  let ?l = "rc_raft_log (rn_raft rn)"
  obtain since where light: "has_next_entries_since (mem_env E) ?l since = Some (lr_committed_entries (rd_light rd) \<noteq> [])"
    "lr_messages (rd_light rd) = r_msgs (rn_raft rn)"
    and alt: "(raft_snap (rn_raft rn) = None \<and> rd_snapshot rd = default_snapshot \<and> since = rn_commit_since_index rn)
     \<or> (raft_snap (rn_raft rn) = Some (rd_snapshot rd) \<and> since = snap_index (rd_snapshot rd)
         \<and> rn_commit_since_index rn \<le> since \<and> lr_committed_entries (rd_light rd) = [])"
    using raw_ready_light [OF av r] by metis
  obtain b where b: "has_next_entries_since (mem_env E) ?l (rn_commit_since_index rn) = Some b"
    "since = rn_commit_since_index rn \<longrightarrow> b = (lr_committed_entries (rd_light rd) \<noteq> [])"
    using has_next_entries_since_below [OF light(1)] alt by blast
  show ?thesis
    using alt
  proof
    assume "raft_snap (rn_raft rn) = None \<and> rd_snapshot rd = default_snapshot \<and> since = rn_commit_since_index rn"
    with light(2) b raw_ready_fields [OF r] show ?thesis by (simp add: has_ready_def ready_is_empty_def Let_def)
  next
    assume "raft_snap (rn_raft rn) = Some (rd_snapshot rd) \<and> since = snap_index (rd_snapshot rd)
         \<and> rn_commit_since_index rn \<le> since \<and> lr_committed_entries (rd_light rd) = []"
    with light(2) b raw_ready_fields [OF r] show ?thesis
      by (auto simp: has_ready_def ready_is_empty_def Let_def snapshot_is_empty_def)
  qed
qed

lemma has_ready_iff_something_to_do_witness:
  "\<exists>rd rn'. raw_ready (mem_env sample_env) sample_node = Some (rd, rn')
     \<and> has_ready (mem_env sample_env) sample_node = Some (\<not> ready_is_empty rd) \<and> \<not> ready_is_empty rd"
proof -
  obtain rd rn' where r: "raw_ready (mem_env sample_env) sample_node = Some (rd, rn')"
    "rd_entries rd = [sample_entry 1 1, sample_entry 2 1]"
    using sample_node_ready by blast
  with has_ready_iff_something_to_do [OF sample_node_available r(1)] show ?thesis by (auto simp: ready_is_empty_def)
qed

section \<open>Accepting a ready\<close>

lemma commit_ready_eq:
  assumes "rn_records rn = recs @ [rec]" and "rr_number rec = rd_number rd"
    and "(case rr_snapshot rec of None \<Rightarrow> Some (rc_raft_log (rn_raft rn)) | Some (i, _) \<Rightarrow> log_stable_snap (rc_raft_log (rn_raft rn)) i) = Some la"
    and "(case rr_last_entry rec of None \<Rightarrow> Some la | Some (i, t) \<Rightarrow> log_stable_entries la i t) = Some lb"
  shows "commit_ready rn rd = Some (rn\<lparr>rn_prev_ss := (case rd_ss rd of None \<Rightarrow> rn_prev_ss rn | Some ss \<Rightarrow> ss),
     rn_prev_hs := (case rd_hs rd of None \<Rightarrow> rn_prev_hs rn | Some hs \<Rightarrow> hs), rn_raft := (rn_raft rn)\<lparr>rc_raft_log := lb\<rparr>\<rparr>)"
proof -
  let ?rn = "(case rd_hs rd of None \<Rightarrow> (case rd_ss rd of None \<Rightarrow> rn | Some ss \<Rightarrow> rn\<lparr>rn_prev_ss := ss\<rparr>)
     | Some hs \<Rightarrow> (case rd_ss rd of None \<Rightarrow> rn | Some ss \<Rightarrow> rn\<lparr>rn_prev_ss := ss\<rparr>)\<lparr>rn_prev_hs := hs\<rparr>)"
  have rn: "?rn = rn\<lparr>rn_prev_ss := (case rd_ss rd of None \<Rightarrow> rn_prev_ss rn | Some ss \<Rightarrow> ss),
     rn_prev_hs := (case rd_hs rd of None \<Rightarrow> rn_prev_hs rn | Some hs \<Rightarrow> hs)\<rparr>"
    by (simp split: option.split)
  show ?thesis using assms unfolding commit_ready_def Let_def rn by (simp cong: option.case_cong)
qed

text \<open>
  (C11) A \<open>Ready\<close> that was accepted is not offered again. When the last entry to persist is below the
  largest index, accepting a \<open>Ready\<close> right after it was taken does not panic: the entries and the
  snapshot in it are no longer waiting, the states it reported are the ones compared against from now
  on, the messages and read states are gone, and only further committed entries call for another one.
\<close>

theorem accepted_ready_is_not_repeated:
  assumes r: "raw_ready E rn = Some (rd, rn1)"
    and b: "rd_entries rd \<noteq> [] \<longrightarrow> e_index (last (rd_entries rd)) < U64_MAX"
  shows "\<exists>rn2. commit_ready rn1 rd = Some rn2
     \<and> un_entries (rl_unstable (rc_raft_log (rn_raft rn2))) = [] \<and> raft_snap (rn_raft rn2) = None
     \<and> raft_soft_state (rn_raft rn2) = rn_prev_ss rn2 \<and> raft_hard_state (rn_raft rn2) = rn_prev_hs rn2
     \<and> r_msgs (rn_raft rn2) = [] \<and> rc_read_states (rn_raft rn2) = []
     \<and> has_ready E rn2 = has_next_entries_since E (rc_raft_log (rn_raft rn2)) (rn_commit_since_index rn2)"
proof -
  let ?l = "rc_raft_log (rn_raft rn)"
  obtain n recs rec since rn2 where p: "ready_pending_snapshot E rn = Some (rd_snapshot rd, rec, since)"
    and g: "gen_light_ready E (rn\<lparr>rn_max_number := n, rn_records := recs,
        rn_raft := (rn_raft rn)\<lparr>rc_read_states := []\<rparr>, rn_commit_since_index := since\<rparr>) = Some (rd_light rd, rn2)"
    and n: "rd_number rd = n"
    and rn1: "rn1 = rn2\<lparr>rn_records := rn_records rn2 @ [\<lparr>rr_number = n,
          rr_last_entry = (if rd_entries rd = [] then None else Some (e_index (last (rd_entries rd)), e_term (last (rd_entries rd)))),
          rr_snapshot = rec\<rparr>]\<rparr>"
    using raw_ready_parts [OF r] by blast
  obtain s u where raft: "rn_raft rn2 = (rn_raft rn)\<lparr>rc_read_states := [], rc_raft_log := ?l\<lparr>rl_store := s\<rparr>, rc_uncommitted_state := u, r_msgs := []\<rparr>"
    and prev: "rn_prev_ss rn2 = rn_prev_ss rn" "rn_prev_hs rn2 = rn_prev_hs rn"
    using gen_light_ready_raft [OF g] by auto
  define u1 where "u1 = (rl_unstable ?l)\<lparr>un_snapshot := None\<rparr>"
  define u2 where "u2 = (if rd_entries rd = [] then u1
    else u1\<lparr>un_offset := e_index (last (rd_entries rd)) + 1, un_entries := [], un_entries_size := 0\<rparr>)"
  have snap: "(case rec of None \<Rightarrow> Some (?l\<lparr>rl_store := s\<rparr>) | Some (i, _) \<Rightarrow> log_stable_snap (?l\<lparr>rl_store := s\<rparr>) i)
      = Some (?l\<lparr>rl_store := s, rl_unstable := u1\<rparr>)"
    using p by (cases rule: ready_pending_snapshot_cases)
      (auto simp: log_stable_snap_def unstable_stable_snap_def raft_snap_def u1_def)
  have ents: "(if rd_entries rd = [] then Some (?l\<lparr>rl_store := s, rl_unstable := u1\<rparr>)
      else log_stable_entries (?l\<lparr>rl_store := s, rl_unstable := u1\<rparr>) (e_index (last (rd_entries rd))) (e_term (last (rd_entries rd))))
      = Some (?l\<lparr>rl_store := s, rl_unstable := u2\<rparr>)"
    using b raw_ready_fields(4) [OF r] by (auto simp: log_stable_entries_def unstable_stable_entries_def vec_last_def u64_add_def u1_def u2_def)
  let ?rn3 = "rn1\<lparr>rn_prev_ss := raft_soft_state (rn_raft rn), rn_prev_hs := raft_hard_state (rn_raft rn),
      rn_raft := (rn_raft rn2)\<lparr>rc_raft_log := ?l\<lparr>rl_store := s, rl_unstable := u2\<rparr>\<rparr>\<rparr>"
  have log1: "rc_raft_log (rn_raft rn1) = ?l\<lparr>rl_store := s\<rparr>" by (simp add: rn1 raft)
  have "commit_ready rn1 rd = Some ?rn3"
    by (subst commit_ready_eq [where la = "?l\<lparr>rl_store := s, rl_unstable := u1\<rparr>" and lb = "?l\<lparr>rl_store := s, rl_unstable := u2\<rparr>"])
      (use snap ents n log1 raw_ready_fields(1,2) [OF r] in \<open>auto simp: rn1 prev raft cong: option.case_cong\<close>)
  moreover have "un_entries u2 = []" "un_snapshot u2 = None" using raw_ready_fields(4) [OF r] by (auto simp: u1_def u2_def)
  ultimately show ?thesis
    by (intro exI [of _ ?rn3]) (simp add: raft rn1 raft_snap_def raft_soft_state_def raft_hard_state_def has_ready_def Let_def)
qed

lemma accepted_ready_is_not_repeated_witness:
  "\<exists>rd rn1 rn2. raw_ready (mem_env sample_env) sample_node = Some (rd, rn1) \<and> commit_ready rn1 rd = Some rn2
     \<and> rd_entries rd \<noteq> [] \<and> un_entries (rl_unstable (rc_raft_log (rn_raft rn2))) = []"
proof -
  obtain rd rn1 where r: "raw_ready (mem_env sample_env) sample_node = Some (rd, rn1)" "rd_entries rd = [sample_entry 1 1, sample_entry 2 1]"
    using sample_node_ready by blast
  then have "rd_entries rd \<noteq> [] \<longrightarrow> e_index (last (rd_entries rd)) < U64_MAX" by (simp add: sample_entry_def)
  with accepted_ready_is_not_repeated [OF r(1)] r show ?thesis by auto
qed

section \<open>Inputs that are refused\<close>

text \<open>
  What a dropped proposal leaves: nothing, or in a leader without a pending membership change the
  position that a change of the proposal would have got.
\<close>

definition proposal_trace :: "'s env \<Rightarrow> 's raft \<Rightarrow> entry list \<Rightarrow> 's raft \<Rightarrow> bool" where
  "proposal_trace E r es r' \<longleftrightarrow> r' = r \<or>
     rc_state r = Leader \<and> \<not> has_pending_conf r
     \<and> (\<exists>li k. log_last_index E (rc_raft_log r) = Some li \<and> k < length es \<and> is_conf_change (es ! k)
          \<and> r' = r\<lparr>rc_pending_conf_index := li + k + 1\<rparr>)"

text \<open>The same for the entries from number \<open>i\<close> on, which the loop still has to go through.\<close>

definition trace_from :: "'s env \<Rightarrow> nat \<Rightarrow> entry list \<Rightarrow> 's raft \<Rightarrow> 's raft \<Rightarrow> bool" where
  "trace_from E i es r r' \<longleftrightarrow>
     (\<exists>li k. log_last_index E (rc_raft_log r) = Some li \<and> k < length es \<and> is_conf_change (es ! k)
        \<and> r' = r\<lparr>rc_pending_conf_index := li + (i + k) + 1\<rparr>)"

lemma trace_later:
  assumes "trace_from E (i + 1) es r r'"
  shows "trace_from E i (e # es) r r'"
proof -
  from assms obtain li k where "log_last_index E (rc_raft_log r) = Some li" "k < length es" "is_conf_change (es ! k)"
    "r' = r\<lparr>rc_pending_conf_index := li + (i + 1 + k) + 1\<rparr>"
    by (auto simp: trace_from_def)
  then show ?thesis unfolding trace_from_def by (intro exI [of _ li] exI [of _ "Suc k"]) simp
qed

lemma trace_here:
  assumes "log_last_index E (rc_raft_log r) = Some li" and "is_conf_change e"
  shows "trace_from E i (e # es) r (r\<lparr>rc_pending_conf_index := li + i + 1\<rparr>)"
  unfolding trace_from_def using assms by (intro exI [of _ li] exI [of _ 0]) simp

lemma trace_after:
  "trace_from E i es (r\<lparr>rc_pending_conf_index := n\<rparr>) r' \<Longrightarrow> trace_from E i es r r'"
  by (auto simp: trace_from_def)

text \<open>One turn of the loop either keeps the node or records the position of the entry.\<close>

lemma propose_entries_step:
  assumes "propose_entries E i (e # es) r = Some (res, r')"
  shows "(res = Inl ProposalDropped \<and> r' = r)
    \<or> (\<exists>rest r1. propose_entries E (i + 1) es r1 = Some (rest, r') \<and> (\<forall>err. res = Inl err \<longrightarrow> rest = Inl err)
        \<and> (r1 = r \<or> \<not> has_pending_conf r \<and> is_conf_change e
             \<and> (\<exists>li. log_last_index E (rc_raft_log r) = Some li \<and> r1 = r\<lparr>rc_pending_conf_index := li + i + 1\<rparr>)))"
proof -
  have err: "\<forall>err. (case rest of Inl err \<Rightarrow> Inl err | Inr es \<Rightarrow> Inr (x # es)) = Inl err \<longrightarrow> rest = Inl err"
    for rest :: "entry list result" and x :: entry
    by (simp split: sum.split)
  show ?thesis
  proof (cases "proposed_change E e")
    case None
    with assms obtain rest where "propose_entries E (i + 1) es r = Some (rest, r')"
      "res = (case rest of Inl err \<Rightarrow> Inl err | Inr es \<Rightarrow> Inr (e # es))"
      by (auto simp: bind_eq_Some_conv)
    with err [of e rest] show ?thesis by blast
  next
    case (Some c)
    have e: "is_conf_change e" using Some proposed_change_iff [of E e] by simp
    show ?thesis
    proof (cases c)
      case (Inr cc)
      show ?thesis
      proof (cases "refuses_change r cc")
        case True
        with Some Inr assms obtain rest where "propose_entries E (i + 1) es r = Some (rest, r')"
          "res = (case rest of Inl err \<Rightarrow> Inl err | Inr es \<Rightarrow> Inr (default_entry # es))"
          by (auto simp: bind_eq_Some_conv)
        with err [of default_entry rest] show ?thesis by blast
      next
        case False
        then have "\<not> has_pending_conf r" by (simp add: refuses_change_def)
        moreover from Some Inr False assms obtain li rest where "log_last_index E (rc_raft_log r) = Some li"
          "propose_entries E (i + 1) es (r\<lparr>rc_pending_conf_index := li + i + 1\<rparr>) = Some (rest, r')"
          "res = (case rest of Inl err \<Rightarrow> Inl err | Inr es \<Rightarrow> Inr (e # es))"
          by (auto simp: bind_eq_Some_conv u64_add_def split: if_splits)
        ultimately show ?thesis using e err [of e rest] by blast
      qed
    qed (use Some assms in auto)
  qed
qed

lemma propose_entries_trace:
  assumes "propose_entries E i es r = Some (res, r')"
  shows "(\<forall>err. res = Inl err \<longrightarrow> err = ProposalDropped) \<and> (r' = r \<or> \<not> has_pending_conf r \<and> trace_from E i es r r')"
  using assms
proof (induction es arbitrary: i r res)
  case (Cons e es)
  from propose_entries_step [OF Cons.prems] show ?case
  proof (elim disjE conjE exE)
    fix rest r1
    assume run: "propose_entries E (i + 1) es r1 = Some (rest, r')" and err: "\<forall>err. res = Inl err \<longrightarrow> rest = Inl err" and "r1 = r"
    then show ?thesis using Cons.IH [OF run] trace_later by blast
  next
    fix rest r1 li
    assume run: "propose_entries E (i + 1) es r1 = Some (rest, r')" and err: "\<forall>err. res = Inl err \<longrightarrow> rest = Inl err"
      and p: "\<not> has_pending_conf r" "is_conf_change e" "log_last_index E (rc_raft_log r) = Some li"
        "r1 = r\<lparr>rc_pending_conf_index := li + i + 1\<rparr>"
    from Cons.IH [OF run] p show ?thesis
      using err trace_here [OF p(3,2), of i es] trace_later trace_after by metis
  qed auto
qed simp

lemma maybe_increase_refused: "maybe_increase_uncommitted_size u es = Some (False, u') \<Longrightarrow> u' = u"
  by (auto simp: maybe_increase_uncommitted_size_def bind_eq_Some_conv split: if_splits)

lemma append_entry_refused:
  assumes "append_entry E r es = Some (False, r')"
  shows "r' = r"
proof -
  obtain ok u where i: "maybe_increase_uncommitted_size (rc_uncommitted_state r) es = Some (ok, u)"
    using assms by (auto simp: append_entry_def bind_eq_Some_conv)
  with assms have "\<not> ok" "r' = r\<lparr>rc_uncommitted_state := u\<rparr>" by (auto simp: append_entry_def Let_def bind_eq_Some_conv split: if_splits)
  with i maybe_increase_refused show ?thesis by fastforce
qed

abbreviation dropped :: "'s env \<Rightarrow> 's raft \<Rightarrow> message \<Rightarrow> raft_error \<Rightarrow> 's raft \<Rightarrow> bool" where
  "dropped E r m err r' \<equiv> m_type m = MsgPropose \<and> err = ProposalDropped \<and> proposal_trace E r (m_entries m) r'"

lemma leader_propose_error:
  assumes "leader_propose E r m = Some (Inl err, r')" and "rc_state r = Leader"
  shows "err = ProposalDropped \<and> proposal_trace E r (m_entries m) r'"
proof (cases "\<not> hmap_contains (tr_progress (r_prs r)) (rc_id r) \<or> rc_lead_transferee r \<noteq> None")
  case True
  then show ?thesis
    using assms by (auto simp: leader_propose_def proposal_trace_def bind_eq_Some_conv split: if_splits)
next
  case False
  then obtain res r1 where p: "propose_entries E 0 (m_entries m) r = Some (res, r1)"
    using assms by (auto simp: leader_propose_def bind_eq_Some_conv split: if_splits)
  have "err = ProposalDropped \<and> r' = r1"
  proof (cases res)
    case (Inl e)
    then have "e = err" "r' = r1" using assms False p by (auto simp: leader_propose_def bind_eq_Some_conv)
    with Inl propose_entries_trace [OF p] show ?thesis by auto
  next
    case (Inr es)
    then have "err = ProposalDropped" "append_entry E r1 es = Some (False, r')"
      using assms False p by (auto simp: leader_propose_def bind_eq_Some_conv split: if_splits)
    with append_entry_refused [OF this(2)] show ?thesis by simp
  qed
  with propose_entries_trace [OF p] assms(2) show ?thesis by (auto simp: proposal_trace_def trace_from_def)
qed

lemma ok_step_no_error [simp]: "ok_step x \<noteq> Some (Inl err, r)"
  by (simp add: ok_step_def bind_eq_Some_conv)

lemma step_leader_error: "step_leader E r m = Some (Inl err, r') \<Longrightarrow> rc_state r = Leader \<Longrightarrow> dropped E r m err r'"
  by (cases "m_type m") (auto simp: step_leader_def split: prod.splits dest: leader_propose_error)

lemma step_candidate_error: "step_candidate E r m = Some (Inl err, r') \<Longrightarrow> dropped E r m err r'"
  by (cases "m_type m") (auto simp: step_candidate_def proposal_trace_def split: if_splits)

lemma step_follower_error: "step_follower E r m = Some (Inl err, r') \<Longrightarrow> dropped E r m err r' \<and> r' = r"
  by (cases "m_type m") (auto simp: step_follower_def proposal_trace_def bind_eq_Some_conv split: if_splits list.splits)

lemma step_error:
  assumes "step E r m = Some (Inl err, r')"
  shows "m_type m = MsgPropose \<and> err = ProposalDropped
    \<and> (if rc_term r < m_term m then become_follower E r (m_term m) INVALID_ID = Some r' else proposal_trace E r (m_entries m) r')"
proof -
  obtain r1 where t: "step_term E r m = Some (True, r1)"
    and s: "(rc_state r1 = Candidate \<or> rc_state r1 = PreCandidate) \<and> step_candidate E r1 m = Some (Inl err, r')
      \<or> rc_state r1 = Follower \<and> step_follower E r1 m = Some (Inl err, r')
      \<or> rc_state r1 = Leader \<and> step_leader E r1 m = Some (Inl err, r')"
    using assms by (auto simp: step_def bind_eq_Some_conv split: if_splits state_role.splits)
  have d: "dropped E r1 m err r'" "rc_state r1 = Follower \<longrightarrow> r' = r1"
    using s step_candidate_error [of E r1 m] step_follower_error [of E r1 m] step_leader_error [of E r1 m] by auto
  show ?thesis
  proof (cases "rc_term r < m_term m")
    case True
    then have r1: "become_follower E r (m_term m) INVALID_ID = Some r1"
      using t d(1) by (auto simp: step_term_def Let_def bind_eq_Some_conv split: if_splits)
    have "rc_state r1 = Follower" using returnsD [OF become_follower_returns r1] by simp
    with True r1 d show ?thesis by simp
  next
    case False
    then have "r1 = r" using t by (auto simp: step_term_def bind_eq_Some_conv split: if_splits)
    with False d(1) show ?thesis by simp
  qed
qed

text \<open>
  (C18) What \<open>RawNode::step\<close> refuses, and what that leaves behind. A message of a kind that only the node
  itself may produce, and a response from a node that is not tracked, give their error and change
  nothing. Every other error is a dropped proposal. If the proposal has a higher term than the node,
  the node has become a follower of that term without a leader, and nothing else has happened.
  Otherwise nothing has changed, or the node is a leader without a pending membership change that now
  remembers, as the pending one, the position that a change in the proposal would have got.
\<close>

theorem refused_messages_leave_the_node:
  "(is_local_msg (m_type m) \<longrightarrow> raw_step E rn m = Some (Inl StepLocalMsg, rn))
   \<and> (\<not> is_local_msg (m_type m) \<and> is_response_msg (m_type m) \<and> tracker_get (r_prs (rn_raft rn)) (m_from m) = None \<longrightarrow>
        raw_step E rn m = Some (Inl StepPeerNotFound, rn))
   \<and> (\<not> is_local_msg (m_type m) \<and> (is_response_msg (m_type m) \<longrightarrow> tracker_get (r_prs (rn_raft rn)) (m_from m) \<noteq> None) \<longrightarrow>
        raw_step E rn m = Some (Inl err, rn') \<longrightarrow>
        err = ProposalDropped \<and> m_type m = MsgPropose
        \<and> rn' = rn\<lparr>rn_raft := rn_raft rn'\<rparr>
        \<and> (if rc_term (rn_raft rn) < m_term m then become_follower E (rn_raft rn) (m_term m) INVALID_ID = Some (rn_raft rn')
           else proposal_trace E (rn_raft rn) (m_entries m) (rn_raft rn')))"
proof -
  have "err = ProposalDropped \<and> m_type m = MsgPropose \<and> rn' = rn\<lparr>rn_raft := rn_raft rn'\<rparr>
      \<and> (if rc_term (rn_raft rn) < m_term m then become_follower E (rn_raft rn) (m_term m) INVALID_ID = Some (rn_raft rn')
         else proposal_trace E (rn_raft rn) (m_entries m) (rn_raft rn'))"
    if m: "\<not> is_local_msg (m_type m)" "is_response_msg (m_type m) \<longrightarrow> tracker_get (r_prs (rn_raft rn)) (m_from m) \<noteq> None"
      "raw_step E rn m = Some (Inl err, rn')"
  proof -
    have "tracker_get (r_prs (rn_raft rn)) (m_from m) \<noteq> None \<or> \<not> is_response_msg (m_type m)" using m(2) by blast
    with m(1) have "raw_step E rn m = with_raft rn (step E (rn_raft rn) m)" unfolding raw_step_def by (simp only: if_False if_True)
    with m(3) obtain r where "step E (rn_raft rn) m = Some (Inl err, r)" "rn' = rn\<lparr>rn_raft := r\<rparr>"
      by (auto simp: with_raft_def bind_eq_Some_conv)
    with step_error [OF this(1)] show ?thesis by simp
  qed
  moreover have "raw_step E rn m = Some (Inl StepLocalMsg, rn)" if "is_local_msg (m_type m)"
    using that by (simp add: raw_step_def)
  moreover have "raw_step E rn m = Some (Inl StepPeerNotFound, rn)"
    if "\<not> is_local_msg (m_type m)" "is_response_msg (m_type m)" "tracker_get (r_prs (rn_raft rn)) (m_from m) = None"
    using that by (simp add: raw_step_def)
  ultimately show ?thesis by blast
qed

text \<open>
  A leader whose uncommitted entries are at their limit drops a proposal, and then remembers the
  position of a change that is not in its log.
\<close>

definition full_leader :: "mem_storage raw_node" where
  "full_leader = sample_node\<lparr>rn_raft := sample_leader\<lparr>rc_uncommitted_state :=
     \<lparr>us_max_uncommitted_size = 1, us_uncommitted_size = 1, us_last_log_tail_index = 0\<rparr>\<rparr>\<rparr>"

definition sample_change :: message where
  "sample_change = default_message\<lparr>m_type := MsgPropose, m_from := 1,
     m_entries := [default_entry\<lparr>e_type := EntryConfChangeV2, e_data := [99]\<rparr>]\<rparr>"

lemma full_leader_drops:
  "raw_step (mem_env change_env) full_leader sample_change =
     Some (Inl ProposalDropped, full_leader\<lparr>rn_raft := (rn_raft full_leader)\<lparr>rc_pending_conf_index := 3\<rparr>\<rparr>)"
proof -
  let ?r = "rn_raft full_leader"
  have "propose_entries (mem_env change_env) 0 (m_entries sample_change) ?r =
      Some (Inr (m_entries sample_change), ?r\<lparr>rc_pending_conf_index := 3\<rparr>)"
    by (simp add: full_leader_def sample_change_def change_env_def proposed_change_def refuses_change_def
        has_pending_conf_def joint_def configuration_new_def joint_new_def hset_collect_def hset_extend_def hset_insert_def
        new_conf_change_single_def sample_leader_def sample_full_def raft_init_def config_new_def default_config_def
        default_message_def sample_env_def sample_eval Let_def)
  moreover have "append_entry (mem_env change_env) (?r\<lparr>rc_pending_conf_index := 3\<rparr>) (m_entries sample_change) =
      Some (False, ?r\<lparr>rc_pending_conf_index := 3\<rparr>)"
    by (simp add: append_entry_def maybe_increase_uncommitted_size_def is_no_limit_def NO_LIMIT_def full_leader_def sample_change_def
        default_message_def Let_def)
  moreover have "rc_state ?r = Leader" "hmap_contains (tr_progress (r_prs ?r)) (rc_id ?r)" "rc_lead_transferee ?r = None"
    by (simp_all add: full_leader_def sample_leader_def hmap_contains_def raft_init_def config_new_def default_config_def)
  ultimately have "step (mem_env change_env) ?r sample_change = Some (Inl ProposalDropped, ?r\<lparr>rc_pending_conf_index := 3\<rparr>)"
    by (simp add: step_def step_term_def is_vote_request_def step_leader_def leader_propose_def sample_change_def default_message_def)
  then show ?thesis
    by (simp add: raw_step_def with_raft_def is_local_msg_def is_response_msg_def sample_change_def)
qed

lemma refused_messages_leave_the_node_witness:
  "raw_step (mem_env sample_env) sample_node (default_message\<lparr>m_type := MsgHup\<rparr>) = Some (Inl StepLocalMsg, sample_node)
   \<and> (\<exists>rn'. raw_step (mem_env change_env) full_leader sample_change = Some (Inl ProposalDropped, rn') \<and> rn' \<noteq> full_leader
     \<and> proposal_trace (mem_env change_env) (rn_raft full_leader) (m_entries sample_change) (rn_raft rn'))"
proof -
  let ?rn = "full_leader\<lparr>rn_raft := (rn_raft full_leader)\<lparr>rc_pending_conf_index := 3\<rparr>\<rparr>"
  have k: "\<not> is_local_msg (m_type sample_change)" "\<not> is_response_msg (m_type sample_change)" "m_term sample_change = 0"
    by (simp_all add: sample_change_def default_message_def is_local_msg_def is_response_msg_def)
  have "rc_pending_conf_index (rn_raft full_leader) = 0" by (simp add: full_leader_def sample_leader_def raft_init_def)
  then have "rc_pending_conf_index (rn_raft ?rn) \<noteq> rc_pending_conf_index (rn_raft full_leader)" by simp
  then have "?rn \<noteq> full_leader" by metis
  moreover have "proposal_trace (mem_env change_env) (rn_raft full_leader) (m_entries sample_change) (rn_raft ?rn)"
    using refused_messages_leave_the_node [of sample_change "mem_env change_env" full_leader ProposalDropped ?rn] full_leader_drops k by simp
  moreover have "raw_step (mem_env sample_env) sample_node (default_message\<lparr>m_type := MsgHup\<rparr>) = Some (Inl StepLocalMsg, sample_node)"
    using refused_messages_leave_the_node [of "default_message\<lparr>m_type := MsgHup\<rparr>" "mem_env sample_env" sample_node]
    by (simp add: is_local_msg_def)
  ultimately show ?thesis using full_leader_drops by blast
qed

end
