(* ===== verification/Election.thy ===== *)
theory Election
  imports Raft_Safety
begin

text \<open>
  Election safety of a cluster: at most one node ever is leader in a term. The nodes are the model of
  \<open>src/raft.rs\<close>; the network may lose, repeat, delay and reorder messages and may even invent any
  message but a granted vote. Membership may change, as long as any two of the configurations in use
  have quorums that meet.
\<close>

section \<open>The votes of a candidate are backed\<close>

text \<open>
  \<open>G t v\<close> says that the node \<open>v\<close> is known to have voted for this node in the term \<open>t\<close>; a node that votes
  for itself backs itself.
\<close>

definition backs :: "(u64 \<Rightarrow> u64 \<Rightarrow> bool) \<Rightarrow> 's raft \<Rightarrow> u64 set" where
  "backs G r = {v. v = rc_id r \<or> G (rc_term r) v}"

definition backed :: "(u64 \<Rightarrow> u64 \<Rightarrow> bool) \<Rightarrow> joint_config set \<Rightarrow> 's raft \<Rightarrow> bool" where
  "backed G Cs r \<longleftrightarrow>
     (rc_state r = Candidate \<longrightarrow> rc_vote r = rc_id r \<and> (\<forall>v. map_of (votes_of r) v = Some True \<longrightarrow> v \<in> backs G r))
     \<and> (rc_state r = Leader \<longrightarrow> rc_vote r = rc_id r \<and> (\<exists>c \<in> Cs. joint_vote_result c (yes_from (backs G r)) = Won))"

text \<open>The invariant is about nodes whose configuration is one of those in use.\<close>

definition elected :: "(u64 \<Rightarrow> u64 \<Rightarrow> bool) \<Rightarrow> joint_config set \<Rightarrow> 's raft \<Rightarrow> bool" where
  "elected G Cs r \<longleftrightarrow> voters_of r \<in> Cs \<longrightarrow> backed G Cs r"

definition stays_elected :: "(u64 \<Rightarrow> u64 \<Rightarrow> bool) \<Rightarrow> joint_config set \<Rightarrow> 's raft \<Rightarrow> 's raft \<Rightarrow> bool" where
  "stays_elected G Cs r r' \<longleftrightarrow> (elected G Cs r \<longrightarrow> elected G Cs r')"

lemma backs_cong: "rc_id r' = rc_id r \<Longrightarrow> rc_term r' = rc_term r \<Longrightarrow> backs G r' = backs G r"
  by (simp add: backs_def)

lemma elected_quiet: "quiet r r' \<Longrightarrow> elected G Cs r \<Longrightarrow> elected G Cs r'"
  using backs_cong [of r' r G] by (simp add: quiet_def elected_def backed_def)

lemma elected_other [simp]: "rc_state r = Follower \<or> rc_state r = PreCandidate \<Longrightarrow> elected G Cs r"
  by (auto simp: elected_def backed_def)

lemma elected_msgs [simp]: "elected G Cs (r\<lparr>r_msgs := ms\<rparr>) = elected G Cs r"
  by (simp add: elected_def backed_def backs_def)

text \<open>Recording a vote.\<close>

lemma record_vote_fields [simp]: "tr_conf (record_vote t i b) = tr_conf t"
  by (simp add: record_vote_def)

lemma record_vote_yes:
  "map_of (tr_votes (record_vote t i b)) v = Some True \<Longrightarrow> map_of (tr_votes t) v = Some True \<or> (v = i \<and> b)"
  by (auto simp: record_vote_def update_conv' split: if_splits)

lemma elected_record_vote:
  assumes "elected G Cs r" and "rc_state r = Candidate \<longrightarrow> b \<longrightarrow> i \<in> backs G r"
  shows "elected G Cs (r\<lparr>r_prs := record_vote (r_prs r) i b\<rparr>)"
  using assms record_vote_yes [of "r_prs r" i b] by (auto simp: elected_def backed_def backs_def)

text \<open>A won tally of backed votes is a quorum of backers.\<close>

lemma won_backs:
  assumes "tracker_vote_result t (tr_votes t) = Won" and "\<forall>v. map_of (tr_votes t) v = Some True \<longrightarrow> v \<in> B"
  shows "joint_vote_result (cfg_voters (tr_conf t)) (yes_from B) = Won"
  using assms unfolding tracker_vote_result_def
  by (auto intro: joint_votes.won_mono simp: yes_from_def)

lemma become_leader_elected:
  assumes "elected G Cs r" and "tracker_vote_result (r_prs r) (votes_of r) = Won" and "rc_state r \<noteq> PreCandidate"
  shows "returns (become_leader E r) (elected G Cs)"
proof (rule returns_conj [OF become_leader_returns, THEN returns_mono])
  show "returns (become_leader E r) (\<lambda>_. rc_state r \<noteq> Follower)"
    by (auto simp: returns_def become_leader_def bind_eq_Some_conv)
next
  fix r'
  assume r': "(rc_id r' = rc_id r \<and> rc_term r' = rc_term r \<and> rc_vote r' = rc_vote r
     \<and> rc_state r' = Leader \<and> voters_of r' = voters_of r \<and> rc_committed r \<le> rc_committed r' \<and> no_new_grant (r_msgs r) (r_msgs r'))
     \<and> rc_state r \<noteq> Follower"
  have b: "backs G r' = backs G r" using r' by (simp add: backs_def)
  have "backed G Cs r'" if "voters_of r' \<in> Cs"
  proof (cases "rc_state r")
    case Candidate
    then have "rc_vote r = rc_id r" "\<forall>v. map_of (votes_of r) v = Some True \<longrightarrow> v \<in> backs G r"
      using assms(1) that r' by (auto simp: elected_def backed_def)
    with won_backs [OF assms(2), of "backs G r"] that r' b show ?thesis by (auto simp: backed_def)
  next
    case Leader
    then show ?thesis using assms(1) that r' b by (auto simp: elected_def backed_def)
  qed (use r' assms(3) in auto)
  then show "elected G Cs r'" by (simp add: elected_def)
qed

lemma become_follower_elected: "returns (become_follower E r t i) (elected G Cs)"
  by (rule become_follower_returns [THEN returns_mono]) simp

lemma begin_campaign_elected:
  "returns (begin_campaign E r ct) (\<lambda>x. begin_campaign E r ct = Some x \<and>
     (case x of (ty, _, r') \<Rightarrow> ty \<in> {MsgRequestVote, MsgRequestPreVote} \<and> elected G Cs r'))"
proof -
  have "returns (begin_campaign E r ct) (\<lambda>(ty, _, r'). ty \<in> {MsgRequestVote, MsgRequestPreVote} \<and> elected G Cs r')"
    unfolding begin_campaign_def become_pre_candidate_def
    by (intro returns_rules become_candidate_returns [THEN returns_mono] returnsI [of "u64_add i j" for i j])
      (auto simp: reset_from_def elected_def backed_def)
  then show ?thesis by (simp add: returns_def)
qed

lemma campaign_poll_elected:
  "returns (campaign E r ct) (elected G Cs)"
  "elected G Cs r \<Longrightarrow> (rc_state r = Candidate \<longrightarrow> v \<longrightarrow> from \<in> backs G r) \<Longrightarrow>
     returns (poll E r from ty v) (\<lambda>(_, r'). elected G Cs r')"
proof (induction E r ct and E r "from" ty v rule: campaign_poll.induct)
  case (1 E r ct)
  show ?case
    by (subst campaign.simps)
      (intro returns_rules begin_campaign_elected [where G = G and Cs = Cs, THEN returns_mono]
          other_calls 1 [THEN returns_mono] vote_requests_returns [THEN returns_mono], auto simp: backs_def)
next
  case (2 E r "from" ty v)
  define r1 where "r1 = r\<lparr>r_prs := record_vote (r_prs r) from v\<rparr>"
  have el: "elected G Cs r1" unfolding r1_def using 2(2,3) by (rule elected_record_vote)
  have res: "tracker_vote_result (r_prs r1) (votes_of r1) = Won" if "tally_votes (r_prs r1) = (gr, rj, Won)" for gr rj
    using that by (auto simp: tally_votes_def split: prod.splits)
  have leader: "returns (become_leader E r1) (elected G Cs)" if "tally_votes (r_prs r1) = (gr, rj, Won)" "rc_state r1 \<noteq> PreCandidate" for gr rj
    using become_leader_elected [OF el res [OF that(1)] that(2)] .
  show ?case
    by (subst poll.simps, unfold r1_def [symmetric] Let_def)
      (intro returns_rules leader [THEN returns_mono] become_follower_elected [THEN returns_mono]
          bcast_append_quiet [THEN returns_mono] 2(1) [folded r1_def, THEN returns_mono],
       auto intro: elected_quiet el)
qed

text \<open>A granted vote that arrives is one that was cast.\<close>

definition acceptable :: "(u64 \<Rightarrow> u64 \<Rightarrow> bool) \<Rightarrow> message \<Rightarrow> bool" where
  "acceptable G m \<longleftrightarrow> (is_grant m \<longrightarrow> m_term m \<noteq> 0 \<and> G (m_term m) (m_from m))"

interpretation el: node_relation "stays_elected G Cs" "acceptable G" for G Cs
proof unfold_locales
  show "stays_elected G Cs a c" if "stays_elected G Cs a b" "stays_elected G Cs b c" for a b c :: "'s raft"
    using that by (simp add: stays_elected_def)
  show "stays_elected G Cs a b" if "quiet a b" for a b :: "'s raft"
    using that elected_quiet by (auto simp: stays_elected_def)
  show "stays_elected G Cs a (a\<lparr>r_prs := t\<rparr>)" if "rc_state a = Follower" for a :: "'s raft" and t
    using that by (simp add: stays_elected_def)
  show "stays_elected G Cs a b" if "rc_state b = Follower" for a b :: "'s raft"
    using that by (simp add: stays_elected_def)
  show "returns (become_candidate E a) (stays_elected G Cs a)" for E and a :: "'s raft"
    by (rule become_candidate_returns [THEN returns_mono]) (auto simp: stays_elected_def elected_def backed_def reset_from_def)
  show "returns (become_pre_candidate a) (stays_elected G Cs a)" for a :: "'s raft"
    unfolding become_pre_candidate_def by (intro returns_rules) (simp add: stays_elected_def)
  show "returns (campaign E a ct) (stays_elected G Cs a)" for E and a :: "'s raft" and ct
    by (rule campaign_poll_elected(1) [where G = G and Cs = Cs, THEN returns_mono]) (simp add: stays_elected_def)
  show "returns (poll E a (m_from m) (m_type m) (\<not> m_reject m)) (\<lambda>(_, b). stays_elected G Cs a b)"
    if "acceptable G m" "rc_state a = Candidate \<longrightarrow> is_grant m \<and> m_term m \<noteq> 0 \<longrightarrow> m_term m = rc_term a"
      "rc_state a = Candidate \<longrightarrow> m_type m = MsgRequestVoteResponse" for E and a :: "'s raft" and m
  proof (cases "elected G Cs a")
    case True
    then show ?thesis
      by (rule campaign_poll_elected(2) [THEN returns_mono])
        (use that in \<open>auto simp: acceptable_def is_grant_def backs_def stays_elected_def\<close>)
  next
    case False
    then show ?thesis by (auto simp: stays_elected_def returns_def)
  qed
  show "acceptable G m" if "m_type m \<noteq> MsgRequestVoteResponse" for m
    using that by (simp add: acceptable_def is_grant_def)
qed

lemma stays_elected_vote:
  assumes "rc_id r \<noteq> INVALID_ID" and "rc_vote r = i \<or> rc_vote r = INVALID_ID"
  shows "stays_elected G Cs r (r\<lparr>r_msgs := ms, rc_election_elapsed := x, rc_vote := i\<rparr>)"
  using assms by (auto simp: stays_elected_def elected_def backed_def backs_def)

lemma stays_elected_msgs: "stays_elected G Cs (r\<lparr>r_msgs := ms\<rparr>) r' = stays_elected G Cs r r'"
  "stays_elected G Cs r' (r\<lparr>r_msgs := ms\<rparr>) = stays_elected G Cs r' r"
  by (simp_all add: stays_elected_def)

lemma step_vote_elected:
  assumes "rc_id r \<noteq> INVALID_ID"
  shows "returns (step_vote E r m) (stays_elected G Cs r)"
  unfolding step_vote_def
  by (intro returns_rules can_grant_vote_returns [THEN returns_mono] other_calls raft_send_one [THEN returns_mono]
      el.maybe_commit_by_vote_R [where G = G and Cs = Cs, THEN returns_mono])
    (auto simp: stays_elected_msgs intro: stays_elected_vote [OF assms])

lemma step_term_id: "returns (step_term E r m) (\<lambda>(_, r'). rc_id r' = rc_id r)"
  by (rule ev.step_term_R [THEN returns_mono]) (auto simp: evolves_def core_evolves_def)

lemma step_elected:
  assumes "rc_id r \<noteq> INVALID_ID" and "acceptable G m"
  shows "returns (step E r m) (\<lambda>(_, r'). stays_elected G Cs r r')"
proof (cases "is_vote_request (m_type m)")
  case True
  have vote: "returns (ok_step (step_vote E r' m)) (\<lambda>(_, r''). stays_elected G Cs r r'')"
    if "stays_elected G Cs r r'" "rc_id r' = rc_id r" for r'
    unfolding ok_step_def
    by (intro returns_rules step_vote_elected [THEN returns_mono]) (use that assms in \<open>auto intro: el.R_trans\<close>)
  have "m_type m \<noteq> MsgHup" using True by (auto simp: is_vote_request_def)
  then show ?thesis
    unfolding step_def
    by (intro returns_rules returns_conj [OF el.step_term_R [where G = G and Cs = Cs] step_term_id, THEN returns_mono])
      (use True in \<open>auto intro: vote\<close>)
qed (use assms in \<open>auto intro: el.step_R\<close>)

text \<open>A membership change keeps the votes; who won before it has won.\<close>

lemma apply_conf_change_elected:
  assumes "voters_of r \<in> Cs" and "elected G Cs r"
  shows "returns (apply_conf_change E r cc) (\<lambda>(_, r'). elected G Cs r')"
proof -
  have t: "elected G Cs (r\<lparr>r_prs := apply_conf (r_prs r) cfg ch li\<rparr>)" for cfg ch li
    using assms by (auto simp: elected_def backed_def backs_def apply_conf_def)
  show ?thesis
    unfolding apply_conf_change_def
    by (intro returns_rules quiet_returns other_calls) (use assms(2) in \<open>auto intro: elected_quiet [OF _ t]\<close>)
qed

lemma react_elected:
  assumes "rc_id r \<noteq> INVALID_ID" and "voters_of r \<in> Cs" and "elected G Cs r"
    and "case i of Receive m \<Rightarrow> acceptable G m | _ \<Rightarrow> True"
  shows "returns (react E r i) (elected G Cs)"
proof (cases i)
  case (Receive m)
  then have "returns (react E r i) (stays_elected G Cs r)"
    using step_elected [of r G m E Cs] assms by (simp add: react_def returns_snd)
  then show ?thesis using assms(3) by (auto simp: stays_elected_def returns_def)
next
  case (ApplyConfChange cc)
  then show ?thesis using apply_conf_change_elected [OF assms(2,3)] by (simp add: react_def returns_snd)
qed (use el.react_R [where i = i and G = G and Cs = Cs and E = E and r = r] assms(3) in \<open>auto simp: stays_elected_def returns_def\<close>)

section \<open>The cluster\<close>

text \<open>
  Besides the nodes, the record keeps the history: every message that was put into an outbox, every
  vote that was cast as (voter, term, candidate), and every leadership as (term, leader).
\<close>

record 's cluster =
  cl_node :: "u64 \<Rightarrow> 's raft"
  cl_sent :: "message set"
  cl_votes :: "(u64 \<times> u64 \<times> u64) set"
  cl_leaders :: "(u64 \<times> u64) set"

definition cast_by :: "u64 \<Rightarrow> 's raft \<Rightarrow> (u64 \<times> u64 \<times> u64) set" where
  "cast_by n r = (if rc_vote r = INVALID_ID then {} else {(n, rc_term r, rc_vote r)})"

definition leads :: "u64 \<Rightarrow> 's raft \<Rightarrow> (u64 \<times> u64) set" where
  "leads n r = (if rc_state r = Leader then {(rc_term r, n)} else {})"

definition after_input :: "'s cluster \<Rightarrow> u64 \<Rightarrow> 's raft \<Rightarrow> 's cluster" where
  "after_input cl n r =
     cl\<lparr>cl_node := (cl_node cl)(n := r), cl_sent := cl_sent cl \<union> set (r_msgs r),
        cl_votes := cl_votes cl \<union> cast_by n r, cl_leaders := cl_leaders cl \<union> leads n r\<rparr>"

text \<open>Nodes start as followers, in any term and with any vote, with nothing sent.\<close>

definition cluster_start :: "joint_config set \<Rightarrow> 's cluster \<Rightarrow> bool" where
  "cluster_start Cs cl \<longleftrightarrow>
     (\<forall>n. rc_id (cl_node cl n) = n \<and> rc_state (cl_node cl n) = Follower \<and> r_msgs (cl_node cl n) = []
          \<and> voters_of (cl_node cl n) \<in> Cs)
     \<and> cl_sent cl = {} \<and> cl_votes cl = (\<Union>n. cast_by n (cl_node cl n)) \<and> cl_leaders cl = {}"

text \<open>A granted vote that arrives was sent to the receiver; anything else may be made up.\<close>

definition may_happen :: "'s cluster \<Rightarrow> u64 \<Rightarrow> node_input \<Rightarrow> bool" where
  "may_happen cl n i \<longleftrightarrow> n \<noteq> INVALID_ID
     \<and> (case i of Receive m \<Rightarrow> is_grant m \<longrightarrow> m \<in> cl_sent cl \<and> m_to m = n | _ \<Rightarrow> True)"

inductive cluster_run :: "'s env \<Rightarrow> joint_config set \<Rightarrow> 's cluster \<Rightarrow> 's cluster \<Rightarrow> bool" for E Cs cl0 where
  cluster_init: "cluster_start Cs cl0 \<Longrightarrow> cluster_run E Cs cl0 cl0"
| cluster_input: "cluster_run E Cs cl0 cl \<Longrightarrow> may_happen cl n i \<Longrightarrow> react E (cl_node cl n) i = Some r \<Longrightarrow>
    voters_of r \<in> Cs \<Longrightarrow> cluster_run E Cs cl0 (after_input cl n r)"
| cluster_stored: "cluster_run E Cs cl0 cl \<Longrightarrow>
    cluster_run E Cs cl0 (cl\<lparr>cl_node := (cl_node cl)(n := with_store (cl_node cl n) s)\<rparr>)"
| cluster_taken: "cluster_run E Cs cl0 cl \<Longrightarrow> set ms \<subseteq> set (r_msgs (cl_node cl n)) \<Longrightarrow>
    cluster_run E Cs cl0 (cl\<lparr>cl_node := (cl_node cl)(n := (cl_node cl n)\<lparr>r_msgs := ms\<rparr>)\<rparr>)"

text \<open>Who is known to have voted for a node.\<close>

definition known_votes :: "'s cluster \<Rightarrow> u64 \<Rightarrow> u64 \<Rightarrow> u64 \<Rightarrow> bool" where
  "known_votes cl n t v \<longleftrightarrow> (v, t, n) \<in> cl_votes cl"

definition node_ok :: "joint_config set \<Rightarrow> 's cluster \<Rightarrow> u64 \<Rightarrow> bool" where
  "node_ok Cs cl n \<longleftrightarrow>
     rc_id (cl_node cl n) = n \<and> voters_of (cl_node cl n) \<in> Cs \<and> set (r_msgs (cl_node cl n)) \<subseteq> cl_sent cl
     \<and> cast_by n (cl_node cl n) \<subseteq> cl_votes cl \<and> elected (known_votes cl n) Cs (cl_node cl n)"

definition votes_ok :: "'s cluster \<Rightarrow> bool" where
  "votes_ok cl \<longleftrightarrow>
     (\<forall>n t c. (n, t, c) \<in> cl_votes cl \<longrightarrow> c \<noteq> INVALID_ID \<and> t \<le> rc_term (cl_node cl n)
        \<and> (t = rc_term (cl_node cl n) \<longrightarrow> c = rc_vote (cl_node cl n)))
     \<and> (\<forall>n t c c'. (n, t, c) \<in> cl_votes cl \<longrightarrow> (n, t, c') \<in> cl_votes cl \<longrightarrow> c = c')
     \<and> (\<forall>m \<in> cl_sent cl. grants_vote m \<longrightarrow> m_term m \<noteq> 0 \<and> (m_from m, m_term m, m_to m) \<in> cl_votes cl)"

definition leaders_ok :: "joint_config set \<Rightarrow> 's cluster \<Rightarrow> bool" where
  "leaders_ok Cs cl \<longleftrightarrow> (\<forall>(t, n) \<in> cl_leaders cl. \<exists>c \<in> Cs. joint_vote_result c (yes_from {v. (v, t, n) \<in> cl_votes cl}) = Won)"

definition cluster_ok :: "joint_config set \<Rightarrow> 's cluster \<Rightarrow> bool" where
  "cluster_ok Cs cl \<longleftrightarrow> (\<forall>n. node_ok Cs cl n) \<and> votes_ok cl \<and> leaders_ok Cs cl"

lemma won_subset:
  assumes "joint_vote_result c (yes_from A) = Won" and "A \<subseteq> B"
  shows "joint_vote_result c (yes_from B) = Won"
  by (rule joint_votes.won_mono [OF assms(1)]) (use assms(2) in \<open>auto simp: yes_from_def split: if_splits\<close>)

lemma elected_mono:
  assumes "elected G Cs r" and "\<And>t v. G t v \<Longrightarrow> G' t v"
  shows "elected G' Cs r"
proof -
  have "backs G r \<subseteq> backs G' r" using assms(2) by (auto simp: backs_def)
  then show ?thesis using assms(1) won_subset unfolding elected_def backed_def by blast
qed

lemma cluster_start_ok: "cluster_start Cs cl \<Longrightarrow> cluster_ok Cs cl"
  by (auto simp: cluster_start_def cluster_ok_def node_ok_def votes_ok_def leaders_ok_def cast_by_def split: if_splits)

text \<open>One input.\<close>

lemma after_input_fields [simp]:
  "cl_node (after_input cl n r) = (cl_node cl)(n := r)" "cl_sent (after_input cl n r) = cl_sent cl \<union> set (r_msgs r)"
  "cl_votes (after_input cl n r) = cl_votes cl \<union> cast_by n r" "cl_leaders (after_input cl n r) = cl_leaders cl \<union> leads n r"
  by (simp_all add: after_input_def)

lemma input_facts:
  assumes ok: "cluster_ok Cs cl" and h: "may_happen cl n i" and r: "react E (cl_node cl n) i = Some r"
  shows "advances (cl_node cl n) r" and "elected (known_votes cl n) Cs r" and "rc_id r = n" and "n \<noteq> INVALID_ID"
proof -
  have n: "node_ok Cs cl n" "votes_ok cl" using ok by (auto simp: cluster_ok_def)
  show adv: "advances (cl_node cl n) r" using returnsD [OF react_adv r] .
  show "n \<noteq> INVALID_ID" using h by (simp add: may_happen_def)
  show "rc_id r = n" using adv n by (simp add: advances_def core_evolves_def node_ok_def)
  have "case i of Receive m \<Rightarrow> acceptable (known_votes cl n) m | _ \<Rightarrow> True"
    using h n(2) by (auto simp: may_happen_def acceptable_def known_votes_def votes_ok_def grants_vote_def split: node_input.splits)
  with returnsD [OF react_elected r] h n(1) show "elected (known_votes cl n) Cs r"
    by (simp add: node_ok_def may_happen_def)
qed

lemma votes_ok_input:
  assumes ok: "cluster_ok Cs cl" and h: "may_happen cl n i" and r: "react E (cl_node cl n) i = Some r"
  shows "votes_ok (after_input cl n r)"
proof -
  note f = input_facts [OF assms]
  have n: "node_ok Cs cl n" "votes_ok cl" using ok by (auto simp: cluster_ok_def)
  have tm: "rc_term (cl_node cl n) \<le> rc_term r" using f(1) by (simp add: advances_def core_evolves_def)
  have old: "t \<le> rc_term r \<and> (t = rc_term r \<longrightarrow> c = rc_vote r)" if "(n, t, c) \<in> cl_votes cl" for t c
  proof -
    have "c \<noteq> INVALID_ID" "t \<le> rc_term (cl_node cl n)" "t = rc_term (cl_node cl n) \<longrightarrow> c = rc_vote (cl_node cl n)"
      using n(2) that unfolding votes_ok_def by blast+
    then show ?thesis using f(1) tm by (auto simp: advances_def core_evolves_def)
  qed
  have "m_term m \<noteq> 0 \<and> (m_from m, m_term m, m_to m) \<in> cl_votes cl \<union> cast_by n r"
    if "m \<in> cl_sent cl \<union> set (r_msgs r)" "grants_vote m" for m
  proof (cases "m \<in> cl_sent cl")
    case True
    then show ?thesis using n(2) that(2) by (auto simp: votes_ok_def)
  next
    case False
    then have "m \<notin> set (r_msgs (cl_node cl n))" using n(1) by (auto simp: node_ok_def)
    then show ?thesis using f(1,3) that False by (auto simp: advances_def cast_by_def grants_vote_def)
  qed
  moreover have "c = c'" if "(k, t, c) \<in> cl_votes cl \<union> cast_by n r" "(k, t, c') \<in> cl_votes cl \<union> cast_by n r" for k t c c'
  proof -
    have "(k, t, c) \<in> cl_votes cl \<longrightarrow> (k, t, c') \<in> cl_votes cl \<longrightarrow> c = c'" using n(2) unfolding votes_ok_def by blast
    then show ?thesis using that old by (auto simp: cast_by_def split: if_splits)
  qed
  moreover have "c \<noteq> INVALID_ID \<and> t \<le> rc_term (((cl_node cl)(n := r)) k)
      \<and> (t = rc_term (((cl_node cl)(n := r)) k) \<longrightarrow> c = rc_vote (((cl_node cl)(n := r)) k))"
    if "(k, t, c) \<in> cl_votes cl \<union> cast_by n r" for k t c
  proof -
    have "(k, t, c) \<in> cl_votes cl \<longrightarrow> c \<noteq> INVALID_ID \<and> t \<le> rc_term (cl_node cl k) \<and> (t = rc_term (cl_node cl k) \<longrightarrow> c = rc_vote (cl_node cl k))"
      using n(2) unfolding votes_ok_def by blast
    then show ?thesis using that old [of t c] by (auto simp: cast_by_def split: if_splits)
  qed
  ultimately show ?thesis unfolding votes_ok_def after_input_fields by blast
qed

lemma cluster_input_ok:
  assumes ok: "cluster_ok Cs cl" and h: "may_happen cl n i" and r: "react E (cl_node cl n) i = Some r" and v: "voters_of r \<in> Cs"
  shows "cluster_ok Cs (after_input cl n r)"
proof -
  note f = input_facts [OF ok h r]
  have "node_ok Cs (after_input cl n r) k" for k
  proof (cases "k = n")
    case True
    then show ?thesis using f v by (auto simp: node_ok_def known_votes_def intro: elected_mono)
  next
    case False
    then show ?thesis using ok by (auto simp: cluster_ok_def node_ok_def known_votes_def intro: elected_mono)
  qed
  moreover have "leaders_ok Cs (after_input cl n r)"
  proof -
    have "\<exists>c \<in> Cs. joint_vote_result c (yes_from {w. (w, t, k) \<in> cl_votes cl \<union> cast_by n r}) = Won"
      if "(t, k) \<in> cl_leaders cl \<union> leads n r" for t k
    proof (cases "(t, k) \<in> cl_leaders cl")
      case True
      then obtain c where c: "c \<in> Cs" "joint_vote_result c (yes_from {w. (w, t, k) \<in> cl_votes cl}) = Won"
        using ok unfolding cluster_ok_def leaders_ok_def by blast
      have "joint_vote_result c (yes_from {w. (w, t, k) \<in> cl_votes cl \<union> cast_by n r}) = Won"
        by (rule won_subset [OF c(2)]) auto
      with c(1) show ?thesis by blast
    next
      case False
      then have l: "rc_state r = Leader" "t = rc_term r" "k = n" using that by (auto simp: leads_def split: if_splits)
      then obtain c where c: "c \<in> Cs" "joint_vote_result c (yes_from (backs (known_votes cl n) r)) = Won" and "rc_vote r = n"
        using f(2,3) v by (auto simp: elected_def backed_def)
      then have "backs (known_votes cl n) r \<subseteq> {w. (w, t, k) \<in> cl_votes cl \<union> cast_by n r}"
        using f(3,4) l by (auto simp: backs_def known_votes_def cast_by_def)
      from won_subset [OF c(2) this] c(1) show ?thesis by blast
    qed
    then show ?thesis by (auto simp: leaders_ok_def)
  qed
  ultimately show ?thesis using votes_ok_input [OF ok h r] by (simp add: cluster_ok_def)
qed

text \<open>Writing the store and taking the messages away change nothing the invariant reads.\<close>

lemma cluster_silent_ok:
  assumes "cluster_ok Cs cl" and "quiet (cl_node cl n) r" and "set (r_msgs r) \<subseteq> set (r_msgs (cl_node cl n))"
  shows "cluster_ok Cs (cl\<lparr>cl_node := (cl_node cl)(n := r)\<rparr>)" (is "cluster_ok Cs ?cl")
proof -
  have known: "known_votes ?cl k = known_votes cl k" for k by (simp add: known_votes_def fun_eq_iff)
  have "node_ok Cs ?cl k" for k
  proof (cases "k = n")
    case True
    have n: "node_ok Cs cl n" using assms(1) by (simp add: cluster_ok_def)
    then have "elected (known_votes cl n) Cs r" using elected_quiet [OF assms(2)] by (simp add: node_ok_def)
    moreover have "cast_by n r = cast_by n (cl_node cl n)" using assms(2) by (simp add: cast_by_def quiet_def)
    ultimately show ?thesis using True n assms(2,3) by (auto simp: node_ok_def known quiet_def)
  next
    case False
    then show ?thesis using assms(1) by (simp add: cluster_ok_def node_ok_def known)
  qed
  moreover have "votes_ok ?cl" using assms(1,2) by (simp add: cluster_ok_def votes_ok_def quiet_def)
  moreover have "leaders_ok Cs ?cl" using assms(1) by (simp add: cluster_ok_def leaders_ok_def)
  ultimately show ?thesis by (simp add: cluster_ok_def)
qed

lemma cluster_run_ok: "cluster_run E Cs cl0 cl \<Longrightarrow> cluster_ok Cs cl"
  by (induction rule: cluster_run.induct) (auto intro: cluster_start_ok cluster_input_ok intro!: cluster_silent_ok
      simp: with_store_def quiet_def no_new_grant_def)

section \<open>Election safety\<close>

definition quorums_meet :: "joint_config set \<Rightarrow> bool" where
  "quorums_meet Cs \<longleftrightarrow> (\<forall>c \<in> Cs. \<forall>c' \<in> Cs. \<forall>A B. joint_vote_result c (yes_from A) = Won \<longrightarrow>
     joint_vote_result c' (yes_from B) = Won \<longrightarrow> A \<inter> B \<noteq> {})"

lemma cluster_ok_one_leader:
  assumes ok: "cluster_ok Cs cl" and "quorums_meet Cs"
    and "(t, n) \<in> cl_leaders cl" and "(t, n') \<in> cl_leaders cl"
  shows "n = n'"
proof -
  obtain c c' where c: "c \<in> Cs" "joint_vote_result c (yes_from {v. (v, t, n) \<in> cl_votes cl}) = Won"
    and c': "c' \<in> Cs" "joint_vote_result c' (yes_from {v. (v, t, n') \<in> cl_votes cl}) = Won"
    using ok assms(3,4) unfolding cluster_ok_def leaders_ok_def by blast
  then obtain v where "(v, t, n) \<in> cl_votes cl" "(v, t, n') \<in> cl_votes cl"
    using assms(2) unfolding quorums_meet_def by (metis (mono_tags, lifting) disjoint_iff mem_Collect_eq)
  then show ?thesis using ok unfolding cluster_ok_def votes_ok_def by blast
qed

text \<open>
  (C1) Election safety: in any run of a cluster no two nodes are ever leaders in the same term. Messages
  may be lost, repeated, reordered and, other than granted votes, invented; nodes may be ticked,
  proposed to and have their membership changed at any time, as long as any two of the voter
  configurations in use have quorums that meet.
\<close>

theorem election_safety:
  assumes "cluster_run E Cs cl0 cl" and "quorums_meet Cs"
    and "(t, n) \<in> cl_leaders cl" and "(t, n') \<in> cl_leaders cl"
  shows "n = n'"
  using cluster_ok_one_leader [OF cluster_run_ok [OF assms(1)] assms(2-4)] .

text \<open>Three voters in term 5: node 1 campaigns, node 2 grants its vote, node 1 becomes leader of term 6.\<close>

definition sample_voter :: "u64 \<Rightarrow> mem_storage raft" where
  "sample_voter n = (raft_init (config_new n) sample_log 40)\<lparr>rc_term := 5,
     r_prs := (tracker_new 256)\<lparr>tr_conf := configuration_new [1, 2, 3] [],
       tr_progress := map (\<lambda>i. (i, progress_reset (progress_new 1 256) 1)) [1, 2, 3]\<rparr>\<rparr>"

definition sample_request :: "u64 \<Rightarrow> message" where
  "sample_request n = default_message\<lparr>m_type := MsgRequestVote, m_to := n, m_from := 1, m_term := 6\<rparr>"

definition sample_candidate :: "mem_storage raft" where
  "sample_candidate = (sample_voter 1)\<lparr>rc_term := 6, rc_vote := 1, rc_state := Candidate, rc_randomized_election_timeout := 20,
     rc_rng := 1, r_prs := (r_prs (sample_voter 1))\<lparr>tr_votes := [(1, True)]\<rparr>, r_msgs := [sample_request 2, sample_request 3]\<rparr>"

lemmas sample_voter_eval = sample_voter_def raft_init_def config_new_def default_config_def tracker_new_def
  configuration_new_def joint_new_def hset_collect_def progress_new_def inflights_new_def sample_env_def
  react_def step_def step_term_def ok_step_def is_vote_request_def new_message_def default_message_def Let_def sample_eval

lemmas sample_reset_eval = raft_reset_def reset_randomized_election_timeout_def gen_range_def min_election_tick_def
  abort_leader_transfer_def tracker_reset_votes_def read_only_new_def reset_progress_def hmap_map_def progress_reset_def
  inflights_reset_def progress_reset_state_def

lemmas sample_vote_eval = record_vote_def hmap_contains_def tally_votes_def tally_one_def tracker_vote_result_def joint_vote_result_def
  majority_vote_result_def majority_def joint_contains_def joint_ids_def union_iter_def hset_extend_def hset_insert_def

lemma sample_campaign:
  "react (mem_env sample_env) (sample_voter 1) (Receive (default_message\<lparr>m_type := MsgHup\<rparr>)) = Some sample_candidate"
  by (simp add: sample_voter_eval hup_def has_unapplied_conf_changes_def campaign.simps begin_campaign_def become_candidate_def
      poll.simps sample_candidate_def sample_reset_eval sample_vote_eval commit_info_def send_vote_request_def log_last_term_def
      send_def sample_request_def CAMPAIGN_ELECTION_def CAMPAIGN_TRANSFER_def CAMPAIGN_PRE_ELECTION_def)

lemma sample_candidate_votes:
  "react (mem_env sample_env) (sample_voter 2) (Receive (sample_request 2)) =
     Some ((sample_voter 2)\<lparr>rc_term := 6, rc_vote := 1, rc_randomized_election_timeout := 20,
       rc_rng := 1, r_msgs := [sample_grant\<lparr>m_from := 2, m_to := 1, m_term := 6\<rparr>]\<rparr>)"
  by (simp add: sample_voter_eval sample_request_def become_follower_def set_max_apply_unpersisted_log_limit_def sample_reset_eval step_vote_def can_grant_vote_def
      raft_send_def send_def vote_resp_msg_type_def is_up_to_date_def log_last_term_def get_priority_def sample_grant_def)

lemma sample_wins:
  "\<exists>r. react (mem_env sample_env) sample_candidate (Receive (sample_grant\<lparr>m_from := 2, m_to := 1, m_term := 6\<rparr>)) = Some r
     \<and> rc_state r = Leader \<and> rc_term r = 6 \<and> voters_of r = voters_of (sample_voter 1)"
  by (simp add: sample_voter_eval sample_candidate_def sample_grant_def step_candidate_def poll.simps sample_vote_eval become_leader_def sample_reset_eval
      tracker_get_def progress_become_replicate_def put_progress_def tracker_put_def append_entry_def maybe_increase_uncommitted_size_def
      is_no_limit_def log_append_def truncate_and_append_def entry_approximate_size_def bcast_append_def bcast_def send_append_def
      maybe_send_append_def progress_is_paused_def log_entries_def log_slice_def log_must_check_outofbounds_def unstable_slice_def
      unstable_must_check_outofbounds_def vec_range_def limit_size_def prepare_send_entries_def progress_update_state_def
      send_def maybe_commit_by_vote_def)

definition sample_cluster :: "mem_storage cluster" where
  "sample_cluster = \<lparr>cl_node = sample_voter, cl_sent = {}, cl_votes = {}, cl_leaders = {}\<rparr>"

abbreviation sample_configs :: "joint_config set" where
  "sample_configs \<equiv> {\<lparr>jc_incoming = [1, 2, 3], jc_outgoing = []\<rparr>}"

lemma sample_voter_fields [simp]:
  "rc_id (sample_voter n) = n" "rc_state (sample_voter n) = Follower" "r_msgs (sample_voter n) = []" "rc_vote (sample_voter n) = 0"
  "voters_of (sample_voter n) = \<lparr>jc_incoming = [1, 2, 3], jc_outgoing = []\<rparr>"
  by (simp_all add: sample_voter_eval hset_extend_def hset_insert_def)

lemma quorums_meet_one: "joint_valid c \<Longrightarrow> quorums_meet {c}"
  using joint_votes.quorums.quorum_overlap [of c] by (fastforce simp: quorums_meet_def)

lemma election_safety_witness:
  "\<exists>cl. cluster_run (mem_env sample_env) sample_configs sample_cluster cl \<and> (6, 1) \<in> cl_leaders cl
     \<and> (\<forall>n. (6, n) \<in> cl_leaders cl \<longrightarrow> n = 1)"
proof -
  let ?E = "mem_env sample_env" and ?g = "sample_grant\<lparr>m_from := 2, m_to := 1, m_term := 6\<rparr>"
  let ?two = "(sample_voter 2)\<lparr>rc_term := 6, rc_vote := 1, rc_randomized_election_timeout := 20, rc_rng := 1, r_msgs := [?g]\<rparr>"
  define cl1 where "cl1 = after_input sample_cluster 1 sample_candidate"
  define cl2 where "cl2 = after_input cl1 2 ?two"
  have start: "cluster_run ?E sample_configs sample_cluster sample_cluster"
    by (rule cluster_run.cluster_init) (simp add: cluster_start_def sample_cluster_def cast_by_def)
  have 1: "cluster_run ?E sample_configs sample_cluster cl1" unfolding cl1_def
    by (rule cluster_run.cluster_input [OF start, of _ "Receive (default_message\<lparr>m_type := MsgHup\<rparr>)"])
      (simp_all add: may_happen_def is_vote_request_def is_grant_def sample_cluster_def
        sample_campaign [unfolded One_nat_def] sample_candidate_def)
  have 2: "cluster_run ?E sample_configs sample_cluster cl2" unfolding cl2_def
    by (rule cluster_run.cluster_input [OF 1, of _ "Receive (sample_request 2)"])
      (simp_all add: may_happen_def is_grant_def sample_request_def cl1_def sample_cluster_def
        sample_candidate_votes [unfolded sample_request_def One_nat_def])
  obtain r where r: "react ?E sample_candidate (Receive ?g) = Some r" "rc_state r = Leader" "rc_term r = 6"
    "voters_of r = voters_of (sample_voter 1)"
    using sample_wins by blast
  have 3: "cluster_run ?E sample_configs sample_cluster (after_input cl2 1 r)"
    by (rule cluster_run.cluster_input [OF 2, of _ "Receive ?g"])
      (use r in \<open>simp_all add: may_happen_def sample_grant_def is_vote_request_def cl1_def cl2_def sample_cluster_def\<close>)
  moreover have l: "(6, 1) \<in> cl_leaders (after_input cl2 1 r)" using r by (simp add: leads_def)
  moreover have "quorums_meet sample_configs" by (rule quorums_meet_one) (simp add: joint_valid_def)
  ultimately show ?thesis using election_safety [OF 3 _ _ l] by blast
qed

end
