(* ===== verification/Harness.thy ===== *)
theory Harness
  imports Complex_Main Election Raft_Spec
begin

text \<open>
  The simulated network of \<open>harness/src\<close>, in which the integration tests run clusters:
  \<open>interface.rs\<close> (a node that may be missing) and \<open>network.rs\<close> (peers, rules for dropping messages, and
  the loop that delivers messages until none is left).

  Rates and random draws are \<open>f64\<close> in the source and rational numbers here: a rate is only ever
  compared with a draw. The draws are a function of a counter that the calls pass on. The handles
  in the field \<open>storage\<close> share their content with the stores of the peers, so the field has no state of
  its own. The loop of \<open>send\<close> runs as long as nodes answer each other; the model runs it for a number
  of rounds and returns the messages still under way.
\<close>

section \<open>interface.rs\<close>

record interface =
  if_raft :: "mem_storage raft option"

definition interface_new :: "mem_storage raft \<Rightarrow> interface" where
  "interface_new r = \<lparr>if_raft = Some r\<rparr>"

definition interface_step :: "mem_storage env \<Rightarrow> interface \<Rightarrow> message \<Rightarrow> (unit result \<times> interface) option" where
  "interface_step E i m =
     (case if_raft i of
        Some r \<Rightarrow> do { (res, r) \<leftarrow> step E r m; Some (res, i\<lparr>if_raft := Some r\<rparr>) }
      | None \<Rightarrow> Some (Inr (), i))"

definition interface_read_messages :: "interface \<Rightarrow> message list \<times> interface" where
  "interface_read_messages i =
     (case if_raft i of
        Some r \<Rightarrow> (r_msgs r, i\<lparr>if_raft := Some (r\<lparr>r_msgs := []\<rparr>)\<rparr>)
      | None \<Rightarrow> ([], i))"

definition persist_snapshot :: "mem_storage env \<Rightarrow> mem_storage raft \<Rightarrow> mem_storage raft option" where
  "persist_snapshot E r =
     (case un_snapshot (rl_unstable (rc_raft_log r)) of
        None \<Rightarrow> Some r
      | Some snap \<Rightarrow> do {
          let index = snap_index snap;
          l \<leftarrow> log_stable_snap (rc_raft_log r) index;
          (res, s) \<leftarrow> mem_apply_snapshot (rl_store l) snap;
          unwrap res;
          r \<leftarrow> on_persist_snap (with_store (r\<lparr>rc_raft_log := l\<rparr>) s) index;
          commit_apply E r index
        })"

definition persist_entries :: "mem_storage env \<Rightarrow> mem_storage raft \<Rightarrow> mem_storage raft option" where
  "persist_entries E r =
     (let unst = un_entries (rl_unstable (rc_raft_log r)) in
      if unst = [] then Some r
      else do {
        let (last_idx, last_term) = (e_index (last unst), e_term (last unst));
        l \<leftarrow> log_stable_entries (rc_raft_log r) last_idx last_term;
        s \<leftarrow> mem_append (rl_store l) unst;
        on_persist_entries E (with_store (r\<lparr>rc_raft_log := l\<rparr>) s) last_idx last_term
      })"

definition interface_persist :: "mem_storage env \<Rightarrow> interface \<Rightarrow> interface option" where
  "interface_persist E i =
     (case if_raft i of
        None \<Rightarrow> Some i
      | Some r \<Rightarrow> do {
          r \<leftarrow> persist_snapshot E r;
          r \<leftarrow> persist_entries E r;
          Some (i\<lparr>if_raft := Some r\<rparr>)
        })"

section \<open>network.rs\<close>

record network =
  nt_peers :: "(u64, interface) hmap"
  nt_dropm :: "(u64 \<times> u64, rat) hmap"
  nt_ignorem :: "(message_type, bool) hmap"

definition network_default_config :: config where
  "network_default_config = default_config\<lparr>cf_election_tick := 10, cf_heartbeat_tick := 1, cf_max_size_per_msg := NO_LIMIT,
     cf_max_inflight_msgs := 256\<rparr>"

fun add_peers ::
  "mem_storage env \<Rightarrow> config \<Rightarrow> u64 list \<Rightarrow> u64 \<Rightarrow> interface option list \<Rightarrow> (u64, interface) hmap option" where
  "add_peers E c addrs i [] = Some []"
| "add_peers E c addrs i (p # ps) =
     do {
       q \<leftarrow>
         (case p of
            None \<Rightarrow> do {
              store \<leftarrow> mem_new_with_conf_state (default_conf_state\<lparr>cs_voters := addrs\<rparr>);
              res \<leftarrow> raft_new E (c\<lparr>cf_id := i\<rparr>) store;
              r \<leftarrow> unwrap res;
              Some (interface_new r)
            }
          | Some q \<Rightarrow>
              (case if_raft q of
                 None \<Rightarrow> Some q
               | Some r \<Rightarrow> do { rust_assert (rc_id r = i); Some q }));
       qs \<leftarrow> add_peers E c addrs (i + 1) ps;
       Some ((i, q) # qs)
     }"

definition network_new_with_config ::
  "mem_storage env \<Rightarrow> interface option list \<Rightarrow> config \<Rightarrow> network option" where
  "network_new_with_config E peers c =
     do {
       ps \<leftarrow> add_peers E c [1..<length peers + 1] 1 peers;
       Some \<lparr>nt_peers = ps, nt_dropm = [], nt_ignorem = []\<rparr>
     }"

definition network_new :: "mem_storage env \<Rightarrow> interface option list \<Rightarrow> network option" where
  "network_new E peers = network_new_with_config E peers network_default_config"

definition network_ignore :: "network \<Rightarrow> message_type \<Rightarrow> network" where
  "network_ignore net t = net\<lparr>nt_ignorem := AList.update t True (nt_ignorem net)\<rparr>"

text \<open>Only a message that is not ignored draws a number.\<close>

fun network_filter :: "(nat \<Rightarrow> rat) \<Rightarrow> network \<Rightarrow> nat \<Rightarrow> message list \<Rightarrow> (message list \<times> nat) option" where
  "network_filter draw net n [] = Some ([], n)"
| "network_filter draw net n (m # ms) =
     (if map_of (nt_ignorem net) (m_type m) = Some True then network_filter draw net n ms
      else do {
        rust_assert (m_type m \<noteq> MsgHup);
        let perc = (case map_of (nt_dropm net) (m_from m, m_to m) of None \<Rightarrow> 0 | Some p \<Rightarrow> p);
        (kept, n') \<leftarrow> network_filter draw net (n + 1) ms;
        Some (if draw n \<ge> perc then m # kept else kept, n')
      })"

definition network_read_messages :: "network \<Rightarrow> message list \<times> network" where
  "network_read_messages net =
     (concat (map (\<lambda>(_, p). fst (interface_read_messages p)) (nt_peers net)),
      net\<lparr>nt_peers := hmap_map (\<lambda>_ p. snd (interface_read_messages p)) (nt_peers net)\<rparr>)"

text \<open>The body of the inner loop of \<open>send\<close>: one message at its peer.\<close>

definition deliver :: "mem_storage env \<Rightarrow> network \<Rightarrow> message \<Rightarrow> (message list \<times> network) option" where
  "deliver E net m =
     do {
       p \<leftarrow> map_of (nt_peers net) (m_to m);
       (_, p) \<leftarrow> interface_step E p m;
       p \<leftarrow> interface_persist E p;
       let (resp, p) = interface_read_messages p;
       Some (resp, net\<lparr>nt_peers := AList.update (m_to m) p (nt_peers net)\<rparr>)
     }"

text \<open>The loops are given the function that delivers a message.\<close>

fun send_round ::
  "(network \<Rightarrow> message \<Rightarrow> (message list \<times> network) option) \<Rightarrow> (nat \<Rightarrow> rat) \<Rightarrow> network \<Rightarrow> nat \<Rightarrow> message list
     \<Rightarrow> (message list \<times> network \<times> nat) option" where
  "send_round dlv draw net n [] = Some ([], net, n)"
| "send_round dlv draw net n (m # ms) =
     do {
       (resp, net) \<leftarrow> dlv net m;
       (kept, n) \<leftarrow> network_filter draw net n resp;
       (new_msgs, net, n) \<leftarrow> send_round dlv draw net n ms;
       Some (kept @ new_msgs, net, n)
     }"

fun send_rounds ::
  "(network \<Rightarrow> message \<Rightarrow> (message list \<times> network) option) \<Rightarrow> (nat \<Rightarrow> rat) \<Rightarrow> nat \<Rightarrow> network \<Rightarrow> nat \<Rightarrow> message list
     \<Rightarrow> (message list \<times> network \<times> nat) option" where
  "send_rounds dlv draw 0 net n msgs = Some (msgs, net, n)"
| "send_rounds dlv draw (Suc k) net n msgs =
     (if msgs = [] then Some ([], net, n)
      else do { (msgs, net, n) \<leftarrow> send_round dlv draw net n msgs; send_rounds dlv draw k net n msgs })"

definition network_send ::
  "mem_storage env \<Rightarrow> (nat \<Rightarrow> rat) \<Rightarrow> nat \<Rightarrow> network \<Rightarrow> nat \<Rightarrow> message list \<Rightarrow> (message list \<times> network \<times> nat) option" where
  "network_send E draw k net n msgs = send_rounds (deliver E) draw k net n msgs"

definition network_filter_and_send ::
  "mem_storage env \<Rightarrow> (nat \<Rightarrow> rat) \<Rightarrow> nat \<Rightarrow> network \<Rightarrow> nat \<Rightarrow> message list \<Rightarrow> (message list \<times> network \<times> nat) option" where
  "network_filter_and_send E draw k net n msgs =
     do { (msgs, n) \<leftarrow> network_filter draw net n msgs; network_send E draw k net n msgs }"

definition dispatch_one :: "mem_storage env \<Rightarrow> network \<Rightarrow> message \<Rightarrow> (unit result \<times> network) option" where
  "dispatch_one E net m =
     do {
       p \<leftarrow> map_of (nt_peers net) (m_to m);
       (res, p) \<leftarrow> interface_step E p m;
       Some (res, net\<lparr>nt_peers := AList.update (m_to m) p (nt_peers net)\<rparr>)
     }"

fun dispatch_all ::
  "(network \<Rightarrow> message \<Rightarrow> (unit result \<times> network) option) \<Rightarrow> network \<Rightarrow> message list \<Rightarrow> (unit result \<times> network) option" where
  "dispatch_all one net [] = Some (Inr (), net)"
| "dispatch_all one net (m # ms) =
     do {
       (res, net) \<leftarrow> one net m;
       (case res of Inl e \<Rightarrow> Some (Inl e, net) | Inr _ \<Rightarrow> dispatch_all one net ms)
     }"

definition network_dispatch ::
  "mem_storage env \<Rightarrow> (nat \<Rightarrow> rat) \<Rightarrow> network \<Rightarrow> nat \<Rightarrow> message list \<Rightarrow> (unit result \<times> network \<times> nat) option" where
  "network_dispatch E draw net n msgs =
     do {
       (msgs, n) \<leftarrow> network_filter draw net n msgs;
       (res, net) \<leftarrow> dispatch_all (dispatch_one E) net msgs;
       Some (res, net, n)
     }"

definition network_drop :: "network \<Rightarrow> u64 \<Rightarrow> u64 \<Rightarrow> rat \<Rightarrow> network" where
  "network_drop net from to perc = net\<lparr>nt_dropm := AList.update (from, to) perc (nt_dropm net)\<rparr>"

definition network_cut :: "network \<Rightarrow> u64 \<Rightarrow> u64 \<Rightarrow> network" where
  "network_cut net one other = network_drop (network_drop net one other 1) other one 1"

definition isolate_from :: "u64 \<Rightarrow> u64 \<Rightarrow> network \<Rightarrow> network" where
  "isolate_from i nid net = (if nid \<noteq> i then network_drop (network_drop net i nid 1) nid i 1 else net)"

definition network_isolate :: "network \<Rightarrow> u64 \<Rightarrow> network" where
  "network_isolate net i = fold (\<lambda>k. isolate_from i (k + 1)) [0..<length (nt_peers net)] net"

definition network_recover :: "network \<Rightarrow> network" where
  "network_recover net = net\<lparr>nt_dropm := [], nt_ignorem := []\<rparr>"

section \<open>The rules for dropping messages\<close>

lemma drop_rate: "map_of (nt_dropm (network_drop net i j p)) c = (if c = (i, j) then Some p else map_of (nt_dropm net) c)"
  by (simp add: network_drop_def update_conv')

lemma isolate_from_rates:
  "map_of (nt_dropm net) c = Some 1 \<Longrightarrow> map_of (nt_dropm (isolate_from i k net)) c = Some 1"
  "k \<noteq> i \<Longrightarrow> map_of (nt_dropm (isolate_from i k net)) (i, k) = Some 1"
  "k \<noteq> i \<Longrightarrow> map_of (nt_dropm (isolate_from i k net)) (k, i) = Some 1"
  by (simp_all add: isolate_from_def drop_rate)

lemma isolate_rates:
  assumes "k \<noteq> i" and "1 \<le> k" and "k \<le> length (nt_peers net)" and "c = (i, k) \<or> c = (k, i)"
  shows "map_of (nt_dropm (network_isolate net i)) c = Some 1"
proof -
  have "k \<le> n \<Longrightarrow> map_of (nt_dropm (fold (\<lambda>k. isolate_from i (k + 1)) [0..<n] net)) c = Some 1" for n
  proof (induction n)
    case (Suc n)
    then consider "k \<le> n" | "k = n + 1" by linarith
    then show ?case
    proof cases
      case 1
      then show ?thesis using isolate_from_rates(1) [OF Suc.IH] by simp
    next
      case 2
      then show ?thesis using isolate_from_rates(2, 3) [OF assms(1)] assms(4) by auto
    qed
  qed (use assms(2) in simp)
  with assms(3) show ?thesis unfolding network_isolate_def by blast
qed

text \<open>A rate of one drops every message, so nothing passes between an isolated peer and another one.\<close>

lemma filter_drops:
  "network_filter draw net n ms = Some (kept, n') \<Longrightarrow> (\<And>n. draw n < 1) \<Longrightarrow> m \<in> set kept \<Longrightarrow>
     map_of (nt_dropm net) (m_from m, m_to m) \<noteq> Some 1"
proof (induction ms arbitrary: n kept n')
  case (Cons a ms)
  show ?case
  proof (cases "map_of (nt_ignorem net) (m_type a) = Some True")
    case False
    with Cons.prems(1) obtain rest where rest: "network_filter draw net (n + 1) ms = Some (rest, n')"
      "kept = (if draw n \<ge> (case map_of (nt_dropm net) (m_from a, m_to a) of None \<Rightarrow> 0 | Some p \<Rightarrow> p) then a # rest else rest)"
      by (auto simp: bind_eq_Some_conv Let_def)
    then show ?thesis using Cons.IH [OF rest(1) Cons.prems(2)] Cons.prems(2) [of n] Cons.prems(3) by (auto split: if_splits)
  qed (use Cons in auto)
qed simp

lemma isolated_peer_is_cut_off:
  assumes "network_filter draw (network_isolate net i) n ms = Some (kept, n')" and "\<And>n. draw n < 1"
    and "m \<in> set kept" and "m_from m \<noteq> m_to m"
    and "1 \<le> m_from m" "m_from m \<le> length (nt_peers net)" "1 \<le> m_to m" "m_to m \<le> length (nt_peers net)"
  shows "m_from m \<noteq> i \<and> m_to m \<noteq> i"
proof -
  note out = filter_drops [OF assms(1-3)]
  show ?thesis
    using out isolate_rates [of "m_to m" i net "(m_from m, m_to m)"] isolate_rates [of "m_from m" i net "(m_from m, m_to m)"]
      assms(4-8) by auto
qed

section \<open>What a peer does is what a node of a cluster does\<close>

text \<open>The quiet calls and the writes of the store by which a peer persists.\<close>

inductive serves :: "'s env \<Rightarrow> 's raft \<Rightarrow> 's raft \<Rightarrow> bool" for E where
  serves_refl: "serves E r r"
| serves_call: "serves E r r1 \<Longrightarrow> (\<And>m. i \<noteq> Receive m) \<Longrightarrow> react E r1 i = Some r2 \<Longrightarrow> quiet r1 r2 \<Longrightarrow> serves E r r2"
| serves_store: "serves E r r1 \<Longrightarrow> serves E r (with_store r1 s)"

lemma serves_quiet: "serves E r r' \<Longrightarrow> quiet r r'"
  by (induction rule: serves.induct) (auto intro: quiet_trans)

lemma persist_snapshot_serves:
  assumes "serves E r0 r" and "persist_snapshot E r = Some r'"
  shows "serves E r0 r'"
proof (cases "un_snapshot (rl_unstable (rc_raft_log r))")
  case (Some sn)
  let ?i = "snap_index sn"
  from assms(2) Some obtain l u s r1 where d: "log_stable_snap (rc_raft_log r) ?i = Some l"
    "mem_apply_snapshot (rl_store l) sn = Some (u, s)"
    "on_persist_snap (with_store (r\<lparr>rc_raft_log := l\<rparr>) s) ?i = Some r1" "commit_apply E r1 ?i = Some r'"
    by (auto simp: persist_snapshot_def bind_eq_Some_conv Let_def)
  have "rl_committed l = rc_committed r" using d(1) by (auto simp: log_stable_snap_def bind_eq_Some_conv)
  then have "serves E r0 (r\<lparr>rc_raft_log := l\<rparr>)"
    using serves_call [OF assms(1), of "StableSnap ?i"] d(1) by (simp add: react_def)
  then have "serves E r0 (with_store (r\<lparr>rc_raft_log := l\<rparr>) s)" by (rule serves_store)
  then have "serves E r0 r1"
    by (rule serves_call [of _ _ _ "PersistedSnap ?i"]) (use d(3) returnsD [OF on_persist_snap_quiet d(3)] in \<open>simp_all add: react_def\<close>)
  then show ?thesis
    by (rule serves_call [of _ _ _ "Applied ?i"]) (use d(4) returnsD [OF commit_apply_quiet d(4)] in \<open>simp_all add: react_def\<close>)
qed (use assms in \<open>simp add: persist_snapshot_def\<close>)

lemma persist_entries_serves:
  assumes "serves E r0 r" and "persist_entries E r = Some r'"
  shows "serves E r0 r'"
proof (cases "un_entries (rl_unstable (rc_raft_log r)) = []")
  case False
  let ?es = "un_entries (rl_unstable (rc_raft_log r))"
  let ?i = "e_index (last ?es)" and ?t = "e_term (last ?es)"
  from assms(2) False obtain l s where d: "log_stable_entries (rc_raft_log r) ?i ?t = Some l"
    "on_persist_entries E (with_store (r\<lparr>rc_raft_log := l\<rparr>) s) ?i ?t = Some r'"
    by (auto simp: persist_entries_def bind_eq_Some_conv Let_def)
  have "rl_committed l = rc_committed r" using d(1) by (auto simp: log_stable_entries_def bind_eq_Some_conv)
  then have "serves E r0 (r\<lparr>rc_raft_log := l\<rparr>)"
    using serves_call [OF assms(1), of "StableEntries ?i ?t"] d(1) by (simp add: react_def)
  then have "serves E r0 (with_store (r\<lparr>rc_raft_log := l\<rparr>) s)" by (rule serves_store)
  then show ?thesis
    by (rule serves_call [of _ _ _ "PersistedEntries ?i ?t"])
      (use d(2) returnsD [OF on_persist_entries_quiet d(2)] in \<open>simp_all add: react_def\<close>)
qed (use assms in \<open>simp add: persist_entries_def\<close>)

lemma persist_serves:
  assumes "interface_persist E i = Some i'" and "if_raft i = Some r"
  obtains r' where "i' = i\<lparr>if_raft := Some r'\<rparr>" "serves E r r'"
proof -
  from assms obtain r1 r2 where d: "persist_snapshot E r = Some r1" "persist_entries E r1 = Some r2" "i' = i\<lparr>if_raft := Some r2\<rparr>"
    by (auto simp: interface_persist_def bind_eq_Some_conv)
  from persist_entries_serves [OF persist_snapshot_serves [OF serves_refl d(1)] d(2)] d(3) show ?thesis using that by blast
qed

text \<open>In a cluster: a run goes on through the calls of one node.\<close>

lemma cluster_serves:
  assumes "serves E r r'" and "cluster_run E Cs cl0 cl" and "cl_node cl n = r" and "n \<noteq> INVALID_ID" and "voters_of r \<in> Cs"
    and "set (r_msgs r) \<subseteq> cl_sent cl"
  shows "\<exists>cl'. cluster_run E Cs cl0 cl' \<and> cl_node cl' = (cl_node cl)(n := r') \<and> cl_sent cl \<subseteq> cl_sent cl' \<and> set (r_msgs r') \<subseteq> cl_sent cl'"
  using assms
proof (induction rule: serves.induct)
  case (serves_refl r)
  then show ?case by (intro exI [of _ cl]) auto
next
  case (serves_call r r1 i r2)
  then obtain cl1 where 1: "cluster_run E Cs cl0 cl1" "cl_node cl1 = (cl_node cl)(n := r1)" "cl_sent cl \<subseteq> cl_sent cl1" by blast
  have "voters_of r2 \<in> Cs"
    using serves_quiet [OF serves_call.hyps(1)] serves_call.hyps(4) serves_call.prems(4) by (simp add: quiet_def)
  moreover have "may_happen cl1 n i" using serves_call.hyps(2) serves_call.prems(3) by (cases i) (auto simp: may_happen_def)
  ultimately have "cluster_run E Cs cl0 (after_input cl1 n r2)"
    using cluster_input [OF 1(1)] 1(2) serves_call.hyps(3) by simp
  then show ?case using 1 by (intro exI [of _ "after_input cl1 n r2"]) auto
next
  case (serves_store r r1 s)
  then obtain cl1 where 1: "cluster_run E Cs cl0 cl1" "cl_node cl1 = (cl_node cl)(n := r1)" "cl_sent cl \<subseteq> cl_sent cl1"
    "set (r_msgs r1) \<subseteq> cl_sent cl1" by blast
  from cluster_stored [OF 1(1), of n s] 1 show ?case
    by (intro exI [of _ "cl1\<lparr>cl_node := (cl_node cl1)(n := with_store (cl_node cl1 n) s)\<rparr>"]) (auto simp: with_store_def)
qed

section \<open>Runs of the network\<close>

definition peer_raft :: "network \<Rightarrow> u64 \<Rightarrow> mem_storage raft option" where
  "peer_raft net i = Option.bind (map_of (nt_peers net) i) if_raft"

definition peer_in :: "joint_config set \<Rightarrow> network \<Rightarrow> u64 \<Rightarrow> bool" where
  "peer_in Cs net i \<longleftrightarrow> (case peer_raft net i of None \<Rightarrow> True | Some r \<Rightarrow> voters_of r \<in> Cs)"

text \<open>The delivery of a message, as long as the peer keeps to the given voter configurations.\<close>

definition deliver_in :: "joint_config set \<Rightarrow> mem_storage env \<Rightarrow> network \<Rightarrow> message \<Rightarrow> (message list \<times> network) option" where
  "deliver_in Cs E net m =
     do { (resp, net) \<leftarrow> deliver E net m; rust_assert (peer_in Cs net (m_to m)); Some (resp, net) }"

definition dispatch_in :: "joint_config set \<Rightarrow> mem_storage env \<Rightarrow> network \<Rightarrow> message \<Rightarrow> (unit result \<times> network) option" where
  "dispatch_in Cs E net m =
     do { (res, net) \<leftarrow> dispatch_one E net m; rust_assert (peer_in Cs net (m_to m)); Some (res, net) }"

lemma send_round_in: "send_round (deliver_in Cs E) draw net n ms = Some x \<Longrightarrow> send_round (deliver E) draw net n ms = Some x"
  by (induction ms arbitrary: net n x) (fastforce simp: deliver_in_def bind_eq_Some_conv)+

lemma send_rounds_in:
  "send_rounds (deliver_in Cs E) draw k net n ms = Some x \<Longrightarrow> network_send E draw k net n ms = Some x"
  unfolding network_send_def
  by (induction k arbitrary: net n ms x) (fastforce simp: bind_eq_Some_conv dest: send_round_in)+

definition network_start :: "joint_config set \<Rightarrow> network \<Rightarrow> bool" where
  "network_start Cs net \<longleftrightarrow> hmap_wf (nt_peers net) \<and> map_of (nt_peers net) INVALID_ID = None \<and> Cs \<noteq> {} \<and>
     (\<forall>i r. peer_raft net i = Some r \<longrightarrow> rc_id r = i \<and> rc_state r = Follower \<and> r_msgs r = [] \<and> voters_of r \<in> Cs)"

text \<open>The messages a test may pass on: granted votes only if it has read them from the network.\<close>

definition known :: "message set \<Rightarrow> message list \<Rightarrow> bool" where
  "known seen ms \<longleftrightarrow> (\<forall>m \<in> set ms. is_grant m \<longrightarrow> m \<in> seen)"

text \<open>
  A test also calls the methods of a peer through the interface, which dereferences to the node, writes
  to the store it shares with the peer, and takes messages out of a peer's outbox. The calls are the
  inputs of \<open>react\<close>: a peer is not reset, made leader or given a hard state from outside, and its tracker
  and its public fields are not written to.
\<close>

definition put_raft :: "network \<Rightarrow> u64 \<Rightarrow> mem_storage raft \<Rightarrow> network" where
  "put_raft net i r = net\<lparr>nt_peers := AList.update i (interface_new r) (nt_peers net)\<rparr>"

inductive network_run ::
  "mem_storage env \<Rightarrow> (nat \<Rightarrow> rat) \<Rightarrow> joint_config set \<Rightarrow> network \<Rightarrow> network \<Rightarrow> message set \<Rightarrow> bool" for E draw Cs net0 where
  net_start: "network_start Cs net0 \<Longrightarrow> network_run E draw Cs net0 net0 {}"
| net_send: "network_run E draw Cs net0 net seen \<Longrightarrow> known seen msgs \<Longrightarrow>
    send_rounds (deliver_in Cs E) draw k net n msgs = Some (rest, net', n') \<Longrightarrow>
    network_run E draw Cs net0 net' (seen \<union> {m \<in> set rest. is_grant m})"
| net_dispatch: "network_run E draw Cs net0 net seen \<Longrightarrow> known seen msgs \<Longrightarrow>
    dispatch_all (dispatch_in Cs E) net msgs = Some (res, net') \<Longrightarrow> network_run E draw Cs net0 net' seen"
| net_read: "network_run E draw Cs net0 net seen \<Longrightarrow> network_read_messages net = (ms, net') \<Longrightarrow>
    network_run E draw Cs net0 net' (seen \<union> set ms)"
| net_call: "network_run E draw Cs net0 net seen \<Longrightarrow> peer_raft net i = Some r \<Longrightarrow> (\<And>m. x \<noteq> Receive m) \<Longrightarrow>
    react E r x = Some r' \<Longrightarrow> voters_of r' \<in> Cs \<Longrightarrow> network_run E draw Cs net0 (put_raft net i r') seen"
| net_step: "network_run E draw Cs net0 net seen \<Longrightarrow> peer_raft net i = Some r \<Longrightarrow> (is_grant m \<longrightarrow> m \<in> seen \<and> m_to m = i) \<Longrightarrow>
    step E r m = Some (res, r') \<Longrightarrow> voters_of r' \<in> Cs \<Longrightarrow> network_run E draw Cs net0 (put_raft net i r') seen"
| net_store: "network_run E draw Cs net0 net seen \<Longrightarrow> peer_raft net i = Some r \<Longrightarrow>
    network_run E draw Cs net0 (put_raft net i (with_store r s)) seen"
| net_take: "network_run E draw Cs net0 net seen \<Longrightarrow> peer_raft net i = Some r \<Longrightarrow> set ms \<subseteq> set (r_msgs r) \<Longrightarrow>
    network_run E draw Cs net0 (put_raft net i (r\<lparr>r_msgs := ms\<rparr>)) (seen \<union> set (r_msgs r))"
| net_ignore: "network_run E draw Cs net0 net seen \<Longrightarrow> network_run E draw Cs net0 (network_ignore net t) seen"
| net_drop: "network_run E draw Cs net0 net seen \<Longrightarrow> network_run E draw Cs net0 (network_drop net i j p) seen"
| net_cut: "network_run E draw Cs net0 net seen \<Longrightarrow> network_run E draw Cs net0 (network_cut net i j) seen"
| net_isolate: "network_run E draw Cs net0 net seen \<Longrightarrow> network_run E draw Cs net0 (network_isolate net i) seen"
| net_recover: "network_run E draw Cs net0 net seen \<Longrightarrow> network_run E draw Cs net0 (network_recover net) seen"

text \<open>
  The cluster that a network shows: the nodes of the peers are nodes of the cluster, and what has been
  read from the network was sent there.
\<close>

definition mirrors :: "mem_storage env \<Rightarrow> joint_config set \<Rightarrow> network \<Rightarrow> message set \<Rightarrow> mem_storage cluster \<Rightarrow> bool" where
  "mirrors E Cs net seen cl \<longleftrightarrow> (\<exists>cl0. cluster_run E Cs cl0 cl) \<and> hmap_wf (nt_peers net)
     \<and> map_of (nt_peers net) INVALID_ID = None
     \<and> (\<forall>i r. peer_raft net i = Some r \<longrightarrow> cl_node cl i = r) \<and> seen \<subseteq> cl_sent cl"

lemma peer_raft_update [simp]:
  "peer_raft (net\<lparr>nt_peers := AList.update k p (nt_peers net)\<rparr>) i = (if i = k then if_raft p else peer_raft net i)"
  by (simp add: peer_raft_def update_conv')

lemma mirrors_node:
  assumes "mirrors E Cs net seen cl" and "peer_raft net i = Some r"
  shows "cl_node cl i = r" and "voters_of r \<in> Cs" and "set (r_msgs r) \<subseteq> cl_sent cl" and "i \<noteq> INVALID_ID"
proof -
  obtain cl0 where run: "cluster_run E Cs cl0 cl" and n: "cl_node cl i = r" and z: "map_of (nt_peers net) INVALID_ID = None"
    using assms by (auto simp: mirrors_def)
  have "node_ok Cs cl i" using cluster_run_ok [OF run] by (simp add: cluster_ok_def)
  with n show "cl_node cl i = r" "voters_of r \<in> Cs" "set (r_msgs r) \<subseteq> cl_sent cl" by (simp_all add: node_ok_def)
  show "i \<noteq> INVALID_ID" using assms(2) z by (intro notI) (simp add: peer_raft_def)
qed

lemma mirrors_update:
  assumes "mirrors E Cs net seen cl" and "cluster_run E Cs cl0 cl'" and "map_of (nt_peers net) i \<noteq> None"
    and "\<forall>k. k \<noteq> i \<longrightarrow> cl_node cl' k = cl_node cl k" and "\<forall>r. if_raft p = Some r \<longrightarrow> cl_node cl' i = r"
    and "cl_sent cl \<subseteq> cl_sent cl'" and "ms \<subseteq> cl_sent cl'"
  shows "mirrors E Cs (net\<lparr>nt_peers := AList.update i p (nt_peers net)\<rparr>) (seen \<union> ms) cl'"
proof -
  have "i \<noteq> INVALID_ID" using assms(1, 3) by (intro notI) (simp add: mirrors_def)
  then have "map_of (AList.update i p (nt_peers net)) INVALID_ID = None"
    using assms(1) by (simp add: mirrors_def update_conv')
  with assms show ?thesis by (auto simp: mirrors_def)
qed

text \<open>A step of a peer, and then whatever it does to persist.\<close>

lemma mirrors_step:
  assumes sh: "mirrors E Cs net seen cl" and p: "peer_raft net (m_to m) = Some r" and g: "is_grant m \<longrightarrow> m \<in> seen"
    and st: "step E r m = Some (res, r1)" and sv: "serves E r1 r2" and v: "voters_of r2 \<in> Cs"
  shows "\<exists>cl0 cl'. cluster_run E Cs cl0 cl' \<and> cl_node cl' = (cl_node cl)(m_to m := r2) \<and> cl_sent cl \<subseteq> cl_sent cl'
     \<and> set (r_msgs r2) \<subseteq> cl_sent cl'"
proof -
  note n = mirrors_node [OF sh p]
  obtain cl0 where run: "cluster_run E Cs cl0 cl" and seen: "seen \<subseteq> cl_sent cl" using sh by (auto simp: mirrors_def)
  have "voters_of r1 \<in> Cs" using serves_quiet [OF sv] v by (simp add: quiet_def)
  moreover have "may_happen cl (m_to m) (Receive m)" using g seen n(4) by (auto simp: may_happen_def)
  moreover have "react E (cl_node cl (m_to m)) (Receive m) = Some r1" using st n(1) by (simp add: react_def)
  ultimately have "cluster_run E Cs cl0 (after_input cl (m_to m) r1)" using cluster_input [OF run] by blast
  from cluster_serves [OF sv this _ n(4) \<open>voters_of r1 \<in> Cs\<close>] obtain cl' where
    "cluster_run E Cs cl0 cl'" "cl_node cl' = (cl_node (after_input cl (m_to m) r1))(m_to m := r2)"
    "cl_sent (after_input cl (m_to m) r1) \<subseteq> cl_sent cl'" "set (r_msgs r2) \<subseteq> cl_sent cl'" by auto
  then show ?thesis by (intro exI [of _ cl0] exI [of _ cl']) auto
qed

lemma deliver_mirrors:
  assumes sh: "mirrors E Cs net seen cl" and g: "is_grant m \<longrightarrow> m \<in> seen" and d: "deliver_in Cs E net m = Some (resp, net')"
  shows "\<exists>cl'. mirrors E Cs net' (seen \<union> set resp) cl'"
proof -
  from d obtain p res p1 p2 where d': "map_of (nt_peers net) (m_to m) = Some p" "interface_step E p m = Some (res, p1)"
    "interface_persist E p1 = Some p2" "resp = fst (interface_read_messages p2)"
    "net' = net\<lparr>nt_peers := AList.update (m_to m) (snd (interface_read_messages p2)) (nt_peers net)\<rparr>"
    "peer_in Cs net' (m_to m)"
    by (auto simp: deliver_in_def deliver_def bind_eq_Some_conv Let_def case_prod_beta)
  then obtain p3 where st: "map_of (nt_peers net) (m_to m) = Some p" "interface_step E p m = Some (res, p1)"
    "interface_persist E p1 = Some p2" "interface_read_messages p2 = (resp, p3)"
    "net' = net\<lparr>nt_peers := AList.update (m_to m) p3 (nt_peers net)\<rparr>" "peer_in Cs net' (m_to m)"
    by (metis prod.collapse)
  obtain cl0 where run: "cluster_run E Cs cl0 cl" using sh by (auto simp: mirrors_def)
  show ?thesis
  proof (cases "if_raft p")
    case None
    then have "resp = []" "if_raft p3 = None"
      using st(2-4) by (auto simp: interface_step_def interface_persist_def interface_read_messages_def)
    then show ?thesis using mirrors_update [OF sh run, of "m_to m" p3 "set resp"] st(1, 5) by auto
  next
    case (Some r)
    with st(2) obtain r1 where r1: "step E r m = Some (res, r1)" "if_raft p1 = Some r1"
      by (auto simp: interface_step_def bind_eq_Some_conv)
    from persist_serves [OF st(3) r1(2)] obtain r2 where r2: "p2 = p1\<lparr>if_raft := Some r2\<rparr>" "serves E r1 r2" by blast
    then have out: "resp = r_msgs r2" "if_raft p3 = Some (r2\<lparr>r_msgs := []\<rparr>)" using st(4) by (auto simp: interface_read_messages_def)
    have p: "peer_raft net (m_to m) = Some r" using st(1) Some by (simp add: peer_raft_def)
    have v: "voters_of r2 \<in> Cs" using st(5, 6) out(2) by (simp add: peer_in_def)
    from mirrors_step [OF sh p g r1(1) r2(2) v] obtain cl0 cl1 where cl1: "cluster_run E Cs cl0 cl1"
      "cl_node cl1 = (cl_node cl)(m_to m := r2)" "cl_sent cl \<subseteq> cl_sent cl1" "set (r_msgs r2) \<subseteq> cl_sent cl1" by blast
    from mirrors_update [OF sh cluster_taken [OF cl1(1), of "[]" "m_to m"], of "m_to m" p3 "set resp"] st(1, 5) out cl1
    show ?thesis by auto
  qed
qed

lemma filter_subset: "network_filter draw net n ms = Some (kept, n') \<Longrightarrow> set kept \<subseteq> set ms"
  by (induction ms arbitrary: n kept n') (auto simp: bind_eq_Some_conv Let_def split: if_splits, blast+)

lemma send_round_mirrors:
  assumes "mirrors E Cs net seen cl" and "known seen ms" and "send_round (deliver_in Cs E) draw net n ms = Some (new, net', n')"
  shows "\<exists>cl'. mirrors E Cs net' (seen \<union> set new) cl'"
  using assms
proof (induction ms arbitrary: net seen cl n new)
  case Nil
  then show ?case by auto
next
  case (Cons m ms)
  from Cons.prems(3) obtain resp net1 kept n1 rest where d: "deliver_in Cs E net m = Some (resp, net1)"
    "network_filter draw net1 n resp = Some (kept, n1)" "send_round (deliver_in Cs E) draw net1 n1 ms = Some (rest, net', n')"
    "new = kept @ rest"
    by (auto simp: bind_eq_Some_conv)
  obtain cl1 where 1: "mirrors E Cs net1 (seen \<union> set resp) cl1"
    using deliver_mirrors [OF Cons.prems(1) _ d(1)] Cons.prems(2) by (auto simp: known_def)
  have "known (seen \<union> set resp) ms" using Cons.prems(2) by (auto simp: known_def)
  from Cons.IH [OF 1 this d(3)] obtain cl' where "mirrors E Cs net' (seen \<union> set resp \<union> set rest) cl'" by blast
  then have "mirrors E Cs net' (seen \<union> set new) cl'" using filter_subset [OF d(2)] d(4) by (auto simp: mirrors_def)
  then show ?case by blast
qed

lemma send_rounds_mirrors:
  assumes "mirrors E Cs net seen cl" and "known seen ms"
    and "send_rounds (deliver_in Cs E) draw k net n ms = Some (rest, net', n')"
  shows "\<exists>cl' seen'. mirrors E Cs net' seen' cl' \<and> seen \<subseteq> seen' \<and> (\<forall>m \<in> set rest. is_grant m \<longrightarrow> m \<in> seen')"
  using assms
proof (induction k arbitrary: net seen cl n ms)
  case 0
  then show ?case by (auto simp: known_def)
next
  case (Suc k)
  show ?case
  proof (cases "ms = []")
    case False
    with Suc.prems(3) obtain new net1 n1 where d: "send_round (deliver_in Cs E) draw net n ms = Some (new, net1, n1)"
      "send_rounds (deliver_in Cs E) draw k net1 n1 new = Some (rest, net', n')"
      by (auto simp: bind_eq_Some_conv)
    from send_round_mirrors [OF Suc.prems(1, 2) d(1)] obtain cl1 where 1: "mirrors E Cs net1 (seen \<union> set new) cl1" by blast
    have "known (seen \<union> set new) new" by (simp add: known_def)
    from Suc.IH [OF 1 this d(2)] show ?thesis by blast
  qed (use Suc.prems in auto)
qed

lemma dispatch_mirrors:
  assumes sh: "mirrors E Cs net seen cl" and g: "is_grant m \<longrightarrow> m \<in> seen" and d: "dispatch_in Cs E net m = Some (res, net')"
  shows "\<exists>cl'. mirrors E Cs net' seen cl'"
proof -
  from d obtain p p1 where st: "map_of (nt_peers net) (m_to m) = Some p" "interface_step E p m = Some (res, p1)"
    "net' = net\<lparr>nt_peers := AList.update (m_to m) p1 (nt_peers net)\<rparr>" "peer_in Cs net' (m_to m)"
    by (auto simp: dispatch_in_def dispatch_one_def bind_eq_Some_conv)
  obtain cl0 where run: "cluster_run E Cs cl0 cl" using sh by (auto simp: mirrors_def)
  show ?thesis
  proof (cases "if_raft p")
    case None
    then have "if_raft p1 = None" using st(2) by (auto simp: interface_step_def)
    then show ?thesis using mirrors_update [OF sh run, of "m_to m" p1 "{}"] st(1, 3) by auto
  next
    case (Some r)
    with st(2) obtain r1 where r1: "step E r m = Some (res, r1)" "if_raft p1 = Some r1"
      by (auto simp: interface_step_def bind_eq_Some_conv)
    have p: "peer_raft net (m_to m) = Some r" using st(1) Some by (simp add: peer_raft_def)
    have v: "voters_of r1 \<in> Cs" using st(3, 4) r1(2) by (simp add: peer_in_def)
    from mirrors_step [OF sh p g r1(1) serves_refl v] obtain cl0 cl1 where "cluster_run E Cs cl0 cl1"
      "cl_node cl1 = (cl_node cl)(m_to m := r1)" "cl_sent cl \<subseteq> cl_sent cl1" by blast
    with mirrors_update [OF sh this(1), of "m_to m" p1 "{}"] st(1, 3) r1(2) show ?thesis by auto
  qed
qed

lemma dispatch_all_mirrors:
  "mirrors E Cs net seen cl \<Longrightarrow> known seen ms \<Longrightarrow> dispatch_all (dispatch_in Cs E) net ms = Some (res, net') \<Longrightarrow>
     \<exists>cl'. mirrors E Cs net' seen cl'"
proof (induction ms arbitrary: net cl)
  case (Cons m ms)
  from Cons.prems(3) obtain res1 net1 where d: "dispatch_in Cs E net m = Some (res1, net1)"
    "(case res1 of Inl e \<Rightarrow> Some (Inl e, net1) | Inr _ \<Rightarrow> dispatch_all (dispatch_in Cs E) net1 ms) = Some (res, net')"
    by (auto simp: bind_eq_Some_conv)
  from dispatch_mirrors [OF Cons.prems(1) _ d(1)] Cons.prems(2) obtain cl1 where 1: "mirrors E Cs net1 seen cl1"
    by (auto simp: known_def)
  then show ?case using Cons.IH [OF 1] Cons.prems(2) d(2) by (cases res1) (auto simp: known_def)
qed auto

text \<open>Reading the messages of all peers takes them away one by one.\<close>

lemma cluster_taken_all:
  "cluster_run E Cs cl0 cl \<Longrightarrow> \<exists>cl'. cluster_run E Cs cl0 cl' \<and> cl_sent cl' = cl_sent cl
     \<and> cl_node cl' = (\<lambda>n. if n \<in> set ids then (cl_node cl n)\<lparr>r_msgs := []\<rparr> else cl_node cl n)"
proof (induction ids)
  case (Cons i ids)
  then obtain cl1 where 1: "cluster_run E Cs cl0 cl1" "cl_sent cl1 = cl_sent cl"
    "cl_node cl1 = (\<lambda>n. if n \<in> set ids then (cl_node cl n)\<lparr>r_msgs := []\<rparr> else cl_node cl n)" by blast
  from cluster_taken [OF 1(1), of "[]" i] 1 show ?case
    by (intro exI [of _ "cl1\<lparr>cl_node := (cl_node cl1)(i := (cl_node cl1 i)\<lparr>r_msgs := []\<rparr>)\<rparr>"]) auto
qed auto

lemma read_mirrors:
  assumes sh: "mirrors E Cs net seen cl" and d: "network_read_messages net = (ms, net')"
  shows "\<exists>cl'. mirrors E Cs net' (seen \<union> set ms) cl'"
proof -
  obtain cl0 where run: "cluster_run E Cs cl0 cl" using sh by (auto simp: mirrors_def)
  obtain cl' where cl': "cluster_run E Cs cl0 cl'" "cl_sent cl' = cl_sent cl"
    "cl_node cl' = (\<lambda>n. if n \<in> set (map fst (nt_peers net)) then (cl_node cl n)\<lparr>r_msgs := []\<rparr> else cl_node cl n)"
    using cluster_taken_all [OF run] by blast
  have peers: "peer_raft net' i = map_option (\<lambda>r. r\<lparr>r_msgs := []\<rparr>) (peer_raft net i)" for i
    using d by (auto simp: network_read_messages_def peer_raft_def interface_read_messages_def split: option.splits Option.bind_splits)
  have keys: "i \<in> set (map fst (nt_peers net))" if "peer_raft net i = Some r" for i r
    using that by (force simp: peer_raft_def bind_eq_Some_conv dest: map_of_SomeD)
  have "m \<in> cl_sent cl" if "m \<in> set ms" for m
  proof -
    from that d obtain i p where p: "(i, p) \<in> set (nt_peers net)" "m \<in> set (fst (interface_read_messages p))"
      by (auto simp: network_read_messages_def)
    then obtain r where r: "if_raft p = Some r" "m \<in> set (r_msgs r)" by (auto simp: interface_read_messages_def split: option.splits)
    have "peer_raft net i = Some r" using sh p(1) r(1) by (simp add: mirrors_def peer_raft_def hmap_get_in)
    from mirrors_node(3) [OF sh this] r(2) show ?thesis by blast
  qed
  moreover have "hmap_wf (nt_peers net') \<and> map_of (nt_peers net') INVALID_ID = None"
    using sh d by (auto simp: mirrors_def network_read_messages_def)
  moreover have "cl_node cl' i = r" if "peer_raft net' i = Some r" for i r
    using that peers keys sh cl'(3) by (auto simp: mirrors_def)
  ultimately show ?thesis using sh cl'(1, 2) by (intro exI [of _ cl']) (auto simp: mirrors_def)
qed

text \<open>What a test does to one peer: a step of the cluster that changes that node only.\<close>

lemma put_mirrors:
  assumes "mirrors E Cs net seen cl" and "peer_raft net i = Some r" and "cluster_run E Cs cl0 cl'"
    and "cl_node cl' = (cl_node cl)(i := r')" and "cl_sent cl \<subseteq> cl_sent cl'" and "ms \<subseteq> cl_sent cl'"
  shows "\<exists>cl'. mirrors E Cs (put_raft net i r') (seen \<union> ms) cl'"
  using mirrors_update [OF assms(1,3), of i "interface_new r'" ms] assms(2,4-6)
  by (auto simp: put_raft_def interface_new_def peer_raft_def bind_eq_Some_conv)

lemma input_mirrors:
  assumes sh: "mirrors E Cs net seen cl" and p: "peer_raft net i = Some r" and x: "may_happen cl i x"
    and r': "react E r x = Some r'" "voters_of r' \<in> Cs"
  shows "\<exists>cl'. mirrors E Cs (put_raft net i r') seen cl'"
proof -
  obtain cl0 where run: "cluster_run E Cs cl0 cl" using sh by (auto simp: mirrors_def)
  have "cluster_run E Cs cl0 (after_input cl i r')" using cluster_input [OF run x _ r'(2)] mirrors_node(1) [OF sh p] r'(1) by simp
  from put_mirrors [OF sh p this, of r' "{}"] show ?thesis by simp
qed

lemma call_mirrors:
  assumes sh: "mirrors E Cs net seen cl" and p: "peer_raft net i = Some r" and x: "\<And>m. x \<noteq> Receive m"
    and r': "react E r x = Some r'" "voters_of r' \<in> Cs"
  shows "\<exists>cl'. mirrors E Cs (put_raft net i r') seen cl'"
proof (rule input_mirrors [OF sh p _ r'])
  show "may_happen cl i x" using x mirrors_node(4) [OF sh p] by (cases x) (auto simp: may_happen_def)
qed

lemma step_mirrors:
  assumes sh: "mirrors E Cs net seen cl" and p: "peer_raft net i = Some r" and g: "is_grant m \<longrightarrow> m \<in> seen \<and> m_to m = i"
    and r': "step E r m = Some (res, r')" "voters_of r' \<in> Cs"
  shows "\<exists>cl'. mirrors E Cs (put_raft net i r') seen cl'"
proof (rule input_mirrors [OF sh p])
  show "may_happen cl i (Receive m)" using sh g mirrors_node(4) [OF sh p] by (auto simp: may_happen_def mirrors_def)
  show "react E r (Receive m) = Some r'" using r'(1) by (simp add: react_def)
qed fact

lemma store_mirrors:
  assumes sh: "mirrors E Cs net seen cl" and p: "peer_raft net i = Some r"
  shows "\<exists>cl'. mirrors E Cs (put_raft net i (with_store r s)) seen cl'"
proof -
  obtain cl0 where run: "cluster_run E Cs cl0 cl" using sh by (auto simp: mirrors_def)
  from put_mirrors [OF sh p cluster_stored [OF run, of i s], of "with_store r s" "{}"] mirrors_node(1) [OF sh p]
  show ?thesis by simp
qed

lemma take_mirrors:
  assumes sh: "mirrors E Cs net seen cl" and p: "peer_raft net i = Some r" and ms: "set ms \<subseteq> set (r_msgs r)"
  shows "\<exists>cl'. mirrors E Cs (put_raft net i (r\<lparr>r_msgs := ms\<rparr>)) (seen \<union> set (r_msgs r)) cl'"
proof -
  obtain cl0 where run: "cluster_run E Cs cl0 cl" using sh by (auto simp: mirrors_def)
  note n = mirrors_node [OF sh p]
  from put_mirrors [OF sh p cluster_taken [OF run, of ms i], of "r\<lparr>r_msgs := ms\<rparr>" "set (r_msgs r)"] n ms
  show ?thesis by simp
qed

text \<open>The rules for dropping messages leave the peers alone.\<close>

lemma control_peers [simp]:
  "nt_peers (network_ignore net t) = nt_peers net" "nt_peers (network_drop net i j p) = nt_peers net"
  "nt_peers (network_cut net i j) = nt_peers net" "nt_peers (network_isolate net i) = nt_peers net"
  "nt_peers (network_recover net) = nt_peers net"
proof -
  show drop: "nt_peers (network_drop net i j p) = nt_peers net" for net i j p by (simp add: network_drop_def)
  have "nt_peers (fold (\<lambda>k. isolate_from i (k + 1)) ks net) = nt_peers net" for ks
    by (induction ks arbitrary: net) (simp_all add: isolate_from_def drop)
  then show "nt_peers (network_isolate net i) = nt_peers net" by (simp add: network_isolate_def)
qed (simp_all add: network_ignore_def network_cut_def network_drop_def network_recover_def)

lemma mirrors_control: "mirrors E Cs net seen cl \<Longrightarrow> nt_peers net' = nt_peers net \<Longrightarrow> mirrors E Cs net' seen cl"
  by (simp add: mirrors_def peer_raft_def)

lemma start_mirrors:
  assumes "network_start Cs net"
  shows "\<exists>cl. mirrors E Cs net {} cl"
proof -
  obtain c where c: "c \<in> Cs" using assms by (auto simp: network_start_def)
  define spare where "spare n = (raft_init (config_new n) sample_log 0)\<lparr>r_prs := (tracker_new 0)\<lparr>tr_conf :=
    configuration_empty\<lparr>cfg_voters := c\<rparr>\<rparr>\<rparr>" for n
  define node where "node n = (case peer_raft net n of Some r \<Rightarrow> r | None \<Rightarrow> spare n)" for n
  define cl where "cl = \<lparr>cl_node = node, cl_sent = {}, cl_votes = (\<Union>n. cast_by n (node n)), cl_leaders = {}\<rparr>"
  have "rc_id (node n) = n \<and> rc_state (node n) = Follower \<and> r_msgs (node n) = [] \<and> voters_of (node n) \<in> Cs" for n
    using assms c by (cases "peer_raft net n")
      (auto simp: network_start_def node_def spare_def raft_init_def config_new_def)
  then have "cluster_run E Cs cl cl" by (intro cluster_init) (simp add: cluster_start_def cl_def)
  then show ?thesis using assms by (intro exI [of _ cl]) (auto simp: mirrors_def network_start_def cl_def node_def)
qed

lemma mirrors_fewer: "mirrors E Cs net seen' cl \<Longrightarrow> seen \<subseteq> seen' \<Longrightarrow> mirrors E Cs net seen cl"
  unfolding mirrors_def by blast

lemma control_mirrors: "\<exists>cl. mirrors E Cs net seen cl \<Longrightarrow> nt_peers net' = nt_peers net \<Longrightarrow> \<exists>cl. mirrors E Cs net' seen cl"
  using mirrors_control by blast

lemma network_run_mirrors: "network_run E draw Cs net0 net seen \<Longrightarrow> \<exists>cl. mirrors E Cs net seen cl"
proof (induction rule: network_run.induct)
  case net_start
  then show ?case by (rule start_mirrors)
next
  case (net_send net seen msgs k n rest net' n')
  from net_send.IH obtain cl where "mirrors E Cs net seen cl" ..
  from send_rounds_mirrors [OF this net_send.hyps(2, 3)] obtain cl' seen' where
    m: "mirrors E Cs net' seen' cl'" "seen \<subseteq> seen'" "\<forall>m \<in> set rest. is_grant m \<longrightarrow> m \<in> seen'" by blast
  have "mirrors E Cs net' (seen \<union> {m \<in> set rest. is_grant m}) cl'" by (rule mirrors_fewer [OF m(1)]) (use m(2, 3) in auto)
  then show ?case ..
next
  case (net_dispatch net seen msgs res net')
  from net_dispatch.IH obtain cl where "mirrors E Cs net seen cl" ..
  then show ?case by (rule dispatch_all_mirrors) (fact net_dispatch.hyps)+
next
  case (net_read net seen ms net')
  from net_read.IH obtain cl where "mirrors E Cs net seen cl" ..
  then show ?case by (rule read_mirrors) (fact net_read.hyps)
next
  case (net_call net seen i r x r')
  from net_call.IH obtain cl where "mirrors E Cs net seen cl" ..
  then show ?case by (rule call_mirrors) (fact net_call.hyps)+
next
  case (net_step net seen i r m res r')
  from net_step.IH obtain cl where "mirrors E Cs net seen cl" ..
  then show ?case by (rule step_mirrors) (fact net_step.hyps)+
next
  case (net_store net seen i r s)
  from net_store.IH obtain cl where "mirrors E Cs net seen cl" ..
  then show ?case by (rule store_mirrors) (fact net_store.hyps)
next
  case (net_take net seen i r ms)
  from net_take.IH obtain cl where "mirrors E Cs net seen cl" ..
  then show ?case by (rule take_mirrors) (fact net_take.hyps)+
qed (erule control_mirrors, simp)+

text \<open>A node that leads is in the history of leaders.\<close>

lemma leader_recorded:
  "cluster_run E Cs cl0 cl \<Longrightarrow> rc_state (cl_node cl n) = Leader \<Longrightarrow> (rc_term (cl_node cl n), n) \<in> cl_leaders cl"
  by (induction rule: cluster_run.induct)
    (auto simp: cluster_start_def leads_def with_store_def split: if_splits)

section \<open>Properties\<close>

text \<open>
  (C14) A test network does not show two leaders of one term. The uses of the network covered are those
  of \<open>network_run\<close>: messages sent through it for any number of rounds, filtered, read and dispatched,
  rules that ignore, drop, cut, isolate and recover, messages stepped into a peer or taken out of its
  outbox, writes to its store, and calls of the public methods of a peer but \<open>reset\<close>, \<open>become_leader\<close>,
  \<open>load_state\<close> and a \<open>become_follower\<close> that lowers the term; a test that writes to the fields or the
  tracker of a peer is not covered. The peers start under their own ids, none of them 0, as followers with nothing to send, a granted vote
  is passed on only if it was read from the network, and any two of the voter configurations that the
  peers go through have quorums that meet. Then two peers that lead in the same term are the same
  peer, because every such use mirrors a run of the cluster.
\<close>

theorem network_has_one_leader_per_term:
  assumes "network_run E draw Cs net0 net seen" and "quorums_meet Cs"
    and "peer_raft net i = Some r" and "peer_raft net j = Some r'"
    and "rc_state r = Leader" and "rc_state r' = Leader" and "rc_term r = rc_term r'"
  shows "i = j"
proof -
  obtain cl where m: "mirrors E Cs net seen cl" using network_run_mirrors [OF assms(1)] ..
  then obtain cl0 where run: "cluster_run E Cs cl0 cl" by (auto simp: mirrors_def)
  note n = mirrors_node(1) [OF m assms(3)] mirrors_node(1) [OF m assms(4)]
  have "(rc_term r, i) \<in> cl_leaders cl" "(rc_term r, j) \<in> cl_leaders cl"
    using leader_recorded [OF run, of i] leader_recorded [OF run, of j] n assms(5-7) by auto
  then show ?thesis by (rule cluster_ok_one_leader [OF cluster_run_ok [OF run] assms(2)])
qed

text \<open>The election of the sample cluster, in a network of which nothing is dropped.\<close>

definition sample_network :: network where
  "sample_network = \<lparr>nt_peers = map (\<lambda>i. (i, interface_new (sample_voter i))) [1, 2, 3], nt_dropm = [], nt_ignorem = []\<rparr>"

definition sample_hup :: message where
  "sample_hup = default_message\<lparr>m_type := MsgHup, m_to := 1\<rparr>"

lemma sample_hup_step:
  "step (mem_env sample_env) (sample_voter 1) sample_hup = Some (Inr (), sample_candidate)"
  by (simp add: sample_voter_eval sample_hup_def hup_def has_unapplied_conf_changes_def campaign.simps begin_campaign_def
      become_candidate_def poll.simps sample_candidate_def sample_reset_eval sample_vote_eval commit_info_def
      send_vote_request_def log_last_term_def send_def sample_request_def CAMPAIGN_ELECTION_def CAMPAIGN_TRANSFER_def
      CAMPAIGN_PRE_ELECTION_def)

definition sample_vote_granted :: message where
  "sample_vote_granted = sample_grant\<lparr>m_from := 2, m_to := 1, m_term := 6\<rparr>"

definition sample_voted :: "mem_storage raft" where
  "sample_voted = (sample_voter 2)\<lparr>rc_term := 6, rc_vote := 1, rc_randomized_election_timeout := 20, rc_rng := 1\<rparr>"

lemma persist_nothing:
  "un_snapshot (rl_unstable (rc_raft_log r)) = None \<Longrightarrow> un_entries (rl_unstable (rc_raft_log r)) = [] \<Longrightarrow>
     interface_persist E \<lparr>if_raft = Some r\<rparr> = Some \<lparr>if_raft = Some r\<rparr>"
  by (simp add: interface_persist_def persist_snapshot_def persist_entries_def)

lemma sample_logs [simp]:
  "rc_raft_log (sample_voter n) = sample_log" "rc_raft_log sample_candidate = sample_log" "rc_raft_log sample_voted = sample_log"
  "un_snapshot (rl_unstable sample_log) = None" "un_entries (rl_unstable sample_log) = []"
  by (simp_all add: sample_voter_def sample_candidate_def sample_voted_def raft_init_def sample_log_def unstable_new_def)

abbreviation sample_peers :: "mem_storage raft \<Rightarrow> mem_storage raft \<Rightarrow> network" where
  "sample_peers a b \<equiv> \<lparr>nt_peers = [(1, \<lparr>if_raft = Some a\<rparr>), (2, \<lparr>if_raft = Some b\<rparr>), (3, \<lparr>if_raft = Some (sample_voter 3)\<rparr>)],
     nt_dropm = [], nt_ignorem = []\<rparr>"

lemma sample_network_eq: "sample_network = sample_peers (sample_voter 1) (sample_voter 2)"
  by (simp add: sample_network_def interface_new_def)

lemma sample_request_step:
  "step (mem_env sample_env) (sample_voter 2) (sample_request 2) = Some (Inr (), sample_voted\<lparr>r_msgs := [sample_vote_granted]\<rparr>)"
  by (simp add: sample_voter_eval sample_voted_def sample_vote_granted_def sample_request_def become_follower_def
      set_max_apply_unpersisted_log_limit_def sample_reset_eval step_vote_def can_grant_vote_def raft_send_def send_def
      vote_resp_msg_type_def is_up_to_date_def log_last_term_def get_priority_def sample_grant_def)

lemma sample_deliver_hup:
  "deliver_in sample_configs (mem_env sample_env) (sample_peers (sample_voter 1) (sample_voter 2)) sample_hup =
     Some ([sample_request 2, sample_request 3], sample_peers (sample_candidate\<lparr>r_msgs := []\<rparr>) (sample_voter 2))"
proof -
  have "m_to sample_hup = 1" "r_msgs sample_candidate = [sample_request 2, sample_request 3]"
    "voters_of sample_candidate = \<lparr>jc_incoming = [1, 2, 3], jc_outgoing = []\<rparr>"
    by (simp_all add: sample_hup_def sample_candidate_def)
  then show ?thesis
    by (simp add: deliver_in_def deliver_def interface_step_def sample_hup_step [unfolded One_nat_def] persist_nothing
        interface_read_messages_def peer_in_def peer_raft_def)
qed

lemma sample_deliver_request:
  "deliver_in sample_configs (mem_env sample_env) (sample_peers a (sample_voter 2)) (sample_request 2) =
     Some ([sample_vote_granted], sample_peers a sample_voted)"
proof -
  have "m_to (sample_request 2) = 2" "voters_of sample_voted = \<lparr>jc_incoming = [1, 2, 3], jc_outgoing = []\<rparr>"
    "sample_voted\<lparr>r_msgs := []\<rparr> = sample_voted"
    by (simp_all add: sample_request_def sample_voted_def)
  then show ?thesis
    by (simp add: deliver_in_def deliver_def interface_step_def sample_request_step persist_nothing
        interface_read_messages_def peer_in_def peer_raft_def)
qed

lemma sample_leader_persists:
  "\<exists>r. (do { (_, p) \<leftarrow> interface_step (mem_env sample_env) \<lparr>if_raft = Some (sample_candidate\<lparr>r_msgs := []\<rparr>)\<rparr> sample_vote_granted;
          interface_persist (mem_env sample_env) p }) = Some \<lparr>if_raft = Some r\<rparr>
     \<and> rc_state r = Leader \<and> rc_term r = 6 \<and> voters_of r = voters_of (sample_voter 1)
     \<and> (\<forall>m \<in> set (r_msgs r). m_type m \<noteq> MsgHup)"
  by (simp add: interface_step_def sample_voter_eval sample_candidate_def sample_vote_granted_def sample_grant_def step_candidate_def poll.simps
      sample_vote_eval become_leader_def sample_reset_eval
      tracker_get_def progress_become_replicate_def put_progress_def tracker_put_def append_entry_def maybe_increase_uncommitted_size_def
      is_no_limit_def log_append_def truncate_and_append_def entry_approximate_size_def bcast_append_def bcast_def send_append_def
      maybe_send_append_def progress_is_paused_def log_entries_def log_slice_def log_must_check_outofbounds_def unstable_slice_def
      unstable_must_check_outofbounds_def vec_range_def limit_size_def prepare_send_entries_def progress_update_state_def
      send_def maybe_commit_by_vote_def interface_persist_def persist_snapshot_def persist_entries_def log_stable_entries_def
      unstable_stable_entries_def mem_append_def on_persist_entries_def with_store_def log_maybe_persist_def
      vec_last_def progress_maybe_update_def raft_maybe_commit_def maximal_committed_index_def joint_committed_index_def
      committed_index_def commit_of_matched_def acked_def acked_index_def default_index_def sort_desc_def log_maybe_commit_def
      progress_resume_def progress_pause_def)

lemma sample_deliver_grant:
  "\<exists>resp r. deliver_in sample_configs (mem_env sample_env) (sample_peers (sample_candidate\<lparr>r_msgs := []\<rparr>) b) sample_vote_granted =
     Some (resp, sample_peers (r\<lparr>r_msgs := []\<rparr>) b) \<and> rc_state r = Leader \<and> rc_term r = 6
     \<and> (\<forall>m \<in> set resp. m_type m \<noteq> MsgHup)"
proof -
  obtain r where r: "(do { (_, p) \<leftarrow> interface_step (mem_env sample_env) \<lparr>if_raft = Some (sample_candidate\<lparr>r_msgs := []\<rparr>)\<rparr> sample_vote_granted;
          interface_persist (mem_env sample_env) p }) = Some \<lparr>if_raft = Some r\<rparr>"
    "rc_state r = Leader" "rc_term r = 6" "voters_of r = voters_of (sample_voter 1)"
    "\<forall>m \<in> set (r_msgs r). m_type m \<noteq> MsgHup"
    using sample_leader_persists by blast
  have "m_to sample_vote_granted = 1" by (simp add: sample_vote_granted_def)
  with r show ?thesis
    by (auto simp: deliver_in_def deliver_def interface_read_messages_def peer_in_def peer_raft_def bind_eq_Some_conv Let_def)
qed

text \<open>Nothing is dropped when no rule is set, whatever number in the unit interval is drawn.\<close>

lemma filter_keeps_all:
  assumes "nt_ignorem net = []" and "nt_dropm net = []" and "\<forall>m \<in> set ms. m_type m \<noteq> MsgHup" and "\<And>n. 0 \<le> draw n"
  shows "network_filter draw net n ms = Some (ms, n + length ms)"
  using assms by (induction ms arbitrary: n) (auto simp: Let_def)

lemma send_one:
  assumes "deliver_in Cs E net m = Some (resp, net')" and "nt_ignorem net' = []" and "nt_dropm net' = []"
    and "\<forall>x \<in> set resp. m_type x \<noteq> MsgHup" and "\<And>n. 0 \<le> draw n"
  shows "send_rounds (deliver_in Cs E) draw 1 net n [m] = Some (resp, net', n + length resp)"
  using assms filter_keeps_all [OF assms(2-5)] by simp

lemma network_has_one_leader_per_term_witness:
  "\<exists>net seen r. network_run (mem_env sample_env) (\<lambda>_. 1 / 2) sample_configs sample_network net seen
     \<and> peer_raft net 1 = Some r \<and> rc_state r = Leader \<and> rc_term r = 6
     \<and> (\<forall>j r'. peer_raft net j = Some r' \<longrightarrow> rc_state r' = Leader \<longrightarrow> rc_term r' = 6 \<longrightarrow> j = 1)"
proof -
  let ?E = "mem_env sample_env" and ?c = "sample_candidate\<lparr>r_msgs := []\<rparr>"
  let ?run = "network_run ?E (\<lambda>_. 1 / 2) sample_configs sample_network"
  have "network_start sample_configs sample_network"
    by (auto simp: network_start_def sample_network_eq peer_raft_def hmap_wf_def split: if_splits)
  then have 0: "?run (sample_peers (sample_voter 1) (sample_voter 2)) {}"
    using net_start by (metis sample_network_eq)
  have 1: "?run (sample_peers ?c (sample_voter 2)) ({} \<union> {m \<in> set [sample_request 2, sample_request 3]. is_grant m})"
    by (rule net_send [OF 0 _ send_one [OF sample_deliver_hup]])
      (simp_all add: known_def is_grant_def sample_hup_def sample_request_def)
  have 2: "?run (sample_peers ?c sample_voted) ({} \<union> {m \<in> set [sample_request 2, sample_request 3]. is_grant m}
      \<union> {m \<in> set [sample_vote_granted]. is_grant m})"
    by (rule net_send [OF 1 _ send_one [OF sample_deliver_request]])
      (simp_all add: known_def is_grant_def sample_request_def sample_vote_granted_def sample_grant_def)
  obtain resp r where r: "deliver_in sample_configs ?E (sample_peers ?c sample_voted) sample_vote_granted =
      Some (resp, sample_peers (r\<lparr>r_msgs := []\<rparr>) sample_voted)" "rc_state r = Leader" "rc_term r = 6" "\<forall>m \<in> set resp. m_type m \<noteq> MsgHup"
    using sample_deliver_grant by blast
  obtain seen where 3: "?run (sample_peers (r\<lparr>r_msgs := []\<rparr>) sample_voted) seen"
    using net_send [OF 2 _ send_one [OF r(1)]] r(4) by (fastforce simp: known_def)
  have q: "quorums_meet sample_configs" by (rule quorums_meet_one) (simp add: joint_valid_def)
  have p: "peer_raft (sample_peers (r\<lparr>r_msgs := []\<rparr>) sample_voted) 1 = Some (r\<lparr>r_msgs := []\<rparr>)" by (simp add: peer_raft_def)
  have "j = 1" if "peer_raft (sample_peers (r\<lparr>r_msgs := []\<rparr>) sample_voted) j = Some r'" "rc_state r' = Leader" "rc_term r' = 6" for j r'
    using network_has_one_leader_per_term [OF 3 q that(1) p] that r by simp
  with 3 p r show ?thesis by (intro exI [of _ "sample_peers (r\<lparr>r_msgs := []\<rparr>) sample_voted"] exI [of _ seen] exI [of _ "r\<lparr>r_msgs := []\<rparr>"]) simp
qed

end
