(* ===== verification/Spec2Isabelle.thy ===== *)
theory Spec2Isabelle
  imports Raft_Spec Ready_Spec Harness
begin

text \<open>
  A verification development for the Raft library: the crate in \<open>src/src\<close>, the hand-written part of
  the protocol crate in \<open>src/proto\<close>, and the network of the integration tests in \<open>src/harness/src\<close>.

  \<^bold>\<open>The program.\<close> An application drives a \<open>RawNode\<close> (\<open>raw_node.rs\<close>): it ticks it, steps messages into it,
  proposes data, and takes a \<open>Ready\<close> out of it that says what to persist, send and apply. The node is
  a \<open>Raft\<close> (\<open>raft.rs\<close>), which reacts to messages according to its role. It keeps its entries in a
  \<open>RaftLog\<close> (\<open>raft_log.rs\<close>), made of a storage (\<open>storage.rs\<close>) and an unstable part
  (\<open>log_unstable.rs\<close>), and its view of the other nodes in a \<open>ProgressTracker\<close> (\<open>tracker.rs\<close>, \<open>tracker/\<close>),
  whose membership is changed by \<open>confchange/\<close> and whose votes and commit indexes are counted by
  \<open>quorum/\<close>. Reads go through \<open>read_only.rs\<close>.

  \<^bold>\<open>Conventions.\<close> \<open>u64\<close> and \<open>usize\<close> are natural numbers, and every addition, subtraction and
  multiplication of the source that may overflow is a checked one. A panic (an overflow, a failed
  assertion, an index out of range, an \<open>unwrap\<close> of nothing, \<open>fatal!\<close>) is \<open>None\<close>; a \<open>Result\<close> is a value
  of \<open>raft_error + 'a\<close>. A hash set is a list without repetition and a hash map an association list, whose
  order is the order of iteration. State is passed explicitly: a method takes the record and returns
  it, and where the source borrows a part mutably the part is an argument and a result. What the
  build generates or other crates provide is a field of the record \<open>env\<close> of \<open>Storage\<close>, an argument of
  all definitions that use it: the methods of the \<open>Storage\<close> trait, the size, decoding and encoding of
  protobuf messages, and the numbers drawn by the random generator. \<open>mem_env E\<close> is the environment
  with \<open>MemStorage\<close> as its storage.

  \<^bold>\<open>Theories, the code they model, and what they show.\<close>

  \<^item> \<open>Prelude\<close>: integers, panics, vectors, hash containers, and \<open>returns m P\<close> (if the call \<open>m\<close> does not panic,
    \<open>P\<close> holds of its result) with a rule for every way the code composes calls.
  \<^item> \<open>Proto\<close>: the messages of \<open>eraftpb.proto\<close>, \<open>errors.rs\<close>, \<open>proto/src/confchange.rs\<close> and \<open>confstate.rs\<close>.
    Membership changes survive printing and parsing.
  \<^item> \<open>Util\<close>, \<open>Config\<close>: \<open>util.rs\<close> and \<open>config.rs\<close>. \<open>limit_size\<close> keeps the longest prefix that fits.
  \<^item> \<open>Quorum\<close>: \<open>quorum/majority.rs\<close> and \<open>quorum/joint.rs\<close>. Votes are won by majorities of both halves, two
    winning sets meet, the commit index is the highest index a quorum holds, group commit is described
    for voters in two groups, in one, and with some in none, and the variant with an array on the
    stack agrees with the plain one. The locales
    \<open>vote_tally\<close> and \<open>quorum_system\<close> are interpreted for both kinds of configuration.
  \<^item> \<open>Inflights\<close>, \<open>Progress\<close>: \<open>tracker/inflights.rs\<close>, \<open>tracker/progress.rs\<close>, \<open>tracker/state.rs\<close>. The ring
    buffer refines a bounded queue (the locale \<open>inflight_queue\<close>); the progress of a follower stays ordered and a rejection moves it back.
  \<^item> \<open>Tracker\<close>, \<open>Confchange\<close>: \<open>tracker.rs\<close>, \<open>confchange/changer.rs\<close>, \<open>confchange/restore.rs\<close>. Membership
    changes keep the configuration consistent, quorums before and after a change meet, and a
    configuration is restored from its saved form.
  \<^item> \<open>Storage\<close>, \<open>Log_Unstable\<close>, \<open>Raft_Log\<close>: \<open>storage.rs\<close>, \<open>log_unstable.rs\<close>, \<open>raft_log.rs\<close>. The locale \<open>log_storage\<close>
    states what a log needs of its storage, and \<open>MemStorage\<close> is shown to provide it. Inside the locale
    a log is its list of entries, and every operation is described on that list.
  \<^item> \<open>Log_Steps\<close>: sequences of log operations on \<open>MemStorage\<close>. Committed entries never change, whatever a
    follower and a leader append; the append of a follower is given exactly on every branch; entries
    for application are committed ones, and scans and searches end.
  \<^item> \<open>Read_Only\<close>: \<open>read_only.rs\<close>. Reads are released in order.
  \<^item> \<open>Raft_Core\<close>, \<open>Raft\<close>, \<open>Raft_Step\<close>: \<open>raft.rs\<close>, from sending through role changes and elections to the
    handlers of messages, ticks, membership, snapshots and \<open>Raft::new\<close>.
  \<^item> \<open>Node_Relation\<close>: the operations that are quiet (they change no term, vote, role or membership, lower no
    committed index and grant no vote), and the locale \<open>node_relation\<close>, in which a relation that
    holds of quiet operations and elections is shown to hold of everything a node is asked to do: the
    inputs \<open>react\<close>, which are messages, ticks, the notifications of \<open>RawNode\<close> and the public methods of
    \<open>Raft\<close> (\<open>raft_call\<close>), except \<open>reset\<close>, \<open>become_leader\<close>, \<open>load_state\<close>, a \<open>become_follower\<close> that lowers
    the term, and writes to public fields or through \<open>mut_prs\<close>.
  \<^item> \<open>Raft_Safety\<close>: its first interpretation. A node never goes back and votes once per term.
  \<^item> \<open>Election\<close>: its second interpretation, and clusters. The network may lose, repeat, reorder and invent
    messages other than granted votes; no two nodes lead in one term.
  \<^item> \<open>Raft_Spec\<close>: single operations of \<open>raft.rs\<close> on a log that keeps its invariant: when a leader commits,
    when a vote is granted, that a silent follower campaigns in time, that membership changes are
    proposed one at a time, how much is sent to a follower, and what \<open>Raft::new\<close> returns. Where the
    code panics on such a log, because a leader does not track itself or a term is compacted away,
    the theorem says so; \<open>removed_leader_panics\<close> is a run to the first of these.
  \<^item> \<open>Raw_Node\<close>, \<open>Ready_Spec\<close>: \<open>raw_node.rs\<close> and \<open>status.rs\<close>. Committed entries are delivered in order without
    gaps or repetition and a snapshot once for each time it arrives, if every \<open>Ready\<close> is passed back
    before the next is taken; \<open>has_ready\<close> says whether a \<open>Ready\<close> would have something in it, an accepted one
    is not repeated, and what a refused message leaves behind is given exactly.
  \<^item> \<open>Harness\<close>: \<open>harness/src/interface.rs\<close> and \<open>network.rs\<close>. What a test does with the network (\<open>network_run\<close>)
    mirrors a run of the cluster, so it does not show two leaders of one term.

  \<^bold>\<open>Loops and bounds.\<close> Loops are recursive functions with a termination proof. \<open>send_append_aggressively\<close>
    ends because each message uses up the room of the window (\<open>send_budget\<close>), \<open>campaign\<close> and \<open>poll\<close>
    because only a pre-candidate campaigns again, and \<open>find_conflict_by_term\<close> because the index goes
    down. \<open>log_scan\<close> ends because every page is not empty. The only loop run for a given number of
    rounds is that of \<open>Network::send\<close>, which goes on as long as nodes answer each other; the property
    holds after any number of rounds, with the messages still under way in the result.

  \<^bold>\<open>Hypotheses.\<close> Properties of the log assume its invariant \<open>mlog_inv\<close>, which includes that the
  sizes and indexes of the entries fit into 64 bits. Election safety assumes that any two voter
  configurations in use have quorums that meet, which \<open>Confchange\<close> proves of each single step, and
  that nodes do not lose their state: a restart from older state is outside the runs. The delivery
  of entries assumes that the log is well formed whenever entries are looked for and that the next
  entry has not been compacted away; these conditions are hypotheses of the theorem on the states at
  which \<open>raw_run\<close> looked for entries, not guards of its steps.

  \<^bold>\<open>Not modelled.\<close> Logging, \<open>Display\<close> and \<open>Debug\<close> output have no effect on the protocol. The protobuf
  encoding is generated by the build. \<open>inflight_buffers_size\<close> reads how much memory a vector has
  reserved, which the model of a vector does not have. The lock inside \<open>MemStorage\<close> is not modelled:
  each of its methods is one step. \<open>RaftLog::all_entries\<close> is called by tests only. The data-driven test
  runner, the benchmarks and the example programs, which are made of threads, channels and files, are
  left out.
\<close>

end
